(* ===== verification/Prelude.thy ===== *)
theory Prelude
  imports Main "HOL-Library.Word" "HOL-Library.Monad_Syntax"
begin

text \<open>
  The vocabulary shared by every theory of the development: the machine types of the
  32-bit target, the convention for code that cannot go on, the collections of rewrite
  rules the component proofs draw on, and generic facts on options, lists and words.

  \<^emph>\<open>Partiality.\<close> A C function of the kernel is a HOL function. When the function can stop
  the kernel (a failed \<^verbatim>\<open>assert\<close>, \<^verbatim>\<open>kernel_panic\<close>, \<^verbatim>\<open>arch_fatal\<close>) or can do something
  the language gives no meaning to (use of a null pointer, an index outside an array),
  its result is an \<open>option\<close>, and \<open>None\<close> stands for every such outcome, as well as for a
  loop that does not end. A value \<open>Some r\<close> is a normal return. Error codes of the kernel
  (\<^verbatim>\<open>-EINVAL\<close> and so on) are ordinary results.
\<close>

unbundle bit_operations_syntax

section \<open>Machine types\<close>

type_synonym u8 = "8 word"
type_synonym u16 = "16 word"
type_synonym u32 = "32 word"
type_synonym u64 = "64 word"

text \<open>A pointer is a 32-bit address; address 0 is the null pointer.\<close>

type_synonym addr = "32 word"

abbreviation (input) NULL :: addr where
  "NULL \<equiv> 0"

section \<open>Collections of rewrite rules\<close>

named_theorems link_simps \<open>reading and writing the links of an intrusive list\<close>
named_theorems word_nat \<open>moving 32-bit arithmetic to the natural numbers\<close>

section \<open>Assertions\<close>

definition c_assert :: "bool \<Rightarrow> unit option" where
  "c_assert b = (if b then Some () else None)"

lemma c_assert_bind [simp]:
  "(c_assert b \<bind> (\<lambda>_. m)) = (if b then m else None)"
  by (simp add: c_assert_def)

lemma c_assert_bind_unit [simp]:
  "(c_assert b \<bind> f) = (if b then f () else None)"
  by (simp add: c_assert_def)

section \<open>Words and natural numbers\<close>

lemma unat_u32_less [simp]: "unat (w :: u32) < 4294967296"
  using unsigned_less [of w] by simp

lemma unat_u32_le [simp]: "unat (w :: u32) \<le> 4294967295"
  using unat_u32_less [of w] by linarith

lemma unat_plus_u32 [word_nat]:
  "unat (a :: u32) + unat b < 4294967296 \<Longrightarrow> unat (a + b) = unat a + unat b"
  by (simp add: unat_word_ariths)

lemma unat_minus_u32 [word_nat]:
  "unat (b :: u32) \<le> unat a \<Longrightarrow> unat (a - b) = unat a - unat b"
  by (simp add: unat_sub word_le_nat_alt)

lemma unat_Suc_u32 [word_nat]:
  "unat (a :: u32) + 1 < 4294967296 \<Longrightarrow> unat (a + 1) = unat a + 1"
  using unat_plus_u32 [of a 1] by simp

lemma unat_of_nat_u32 [word_nat]:
  "n < 4294967296 \<Longrightarrow> unat (of_nat n :: u32) = n"
  by (simp add: unat_of_nat)

lemma u32_eq_iff: "(a :: u32) = b \<longleftrightarrow> unat a = unat b"
  by (simp add: word_unat_eq_iff)

section \<open>Searching a range\<close>

lemma find_append: "find P (xs @ ys) = (case find P xs of None \<Rightarrow> find P ys | Some x \<Rightarrow> Some x)"
  by (induction xs) auto

lemma find_map: "find P (map f xs) = map_option f (find (P \<circ> f) xs)"
  by (induction xs) auto

lemma find_upt_Some_iff:
  "find P [a..<b] = Some f \<longleftrightarrow> a \<le> f \<and> f < b \<and> P f \<and> (\<forall>g. a \<le> g \<and> g < f \<longrightarrow> \<not> P g)"
proof
  assume "find P [a..<b] = Some f"
  then obtain i where "i < b - a" "P (a + i)" "f = a + i" "\<forall>j<i. \<not> P (a + j)"
    by (auto simp: find_Some_iff)
  then show "a \<le> f \<and> f < b \<and> P f \<and> (\<forall>g. a \<le> g \<and> g < f \<longrightarrow> \<not> P g)"
    by (auto simp: le_iff_add)
next
  assume "a \<le> f \<and> f < b \<and> P f \<and> (\<forall>g. a \<le> g \<and> g < f \<longrightarrow> \<not> P g)"
  then show "find P [a..<b] = Some f"
    unfolding find_Some_iff by (intro exI [of _ "f - a"]) auto
qed

lemma find_upt_None_iff: "find P [a..<b] = None \<longleftrightarrow> (\<forall>g. a \<le> g \<and> g < b \<longrightarrow> \<not> P g)"
  by (auto simp: find_None_iff)

end
