(* ===== verification/List_Head.thy ===== *)
theory List_Head
  imports Prelude
begin

text \<open>
  The circular doubly linked list of \<^verbatim>\<open>include/kernel/list_head.h\<close>. Every queue of the kernel
  (run queue, wait queues, pending signals, mounted file systems, procfs entries) embeds a
  \<^verbatim>\<open>list_head\<close> in its elements. The links live in a heap with one map per field; an address
  outside a map is memory that holds no \<^verbatim>\<open>list_head\<close>, and using it gives \<open>None\<close>.

  \<open>lh_list H h xs\<close> says that \<open>h\<close> is the head of a well formed list with the elements \<open>xs\<close>.
  The lemmas show that each operation of the header succeeds on well formed lists and does
  to \<open>xs\<close> what its comment says, and that it leaves every disjoint list alone. The locale
  \<open>intrusive_queue\<close> is the contract the other components use.
\<close>

section \<open>The heap of links\<close>

record lh_heap =
  lh_next :: "addr \<rightharpoonup> addr"
  lh_prev :: "addr \<rightharpoonup> addr"

definition set_next :: "lh_heap \<Rightarrow> addr \<Rightarrow> addr \<Rightarrow> lh_heap option" where
  "set_next H a v =
     (if lh_next H a = None then None else Some (H\<lparr>lh_next := (lh_next H)(a \<mapsto> v)\<rparr>))"

definition set_prev :: "lh_heap \<Rightarrow> addr \<Rightarrow> addr \<Rightarrow> lh_heap option" where
  "set_prev H a v =
     (if lh_prev H a = None then None else Some (H\<lparr>lh_prev := (lh_prev H)(a \<mapsto> v)\<rparr>))"

text \<open>Memory that holds a \<^verbatim>\<open>list_head\<close> structure.\<close>

definition lh_mapped :: "lh_heap \<Rightarrow> addr \<Rightarrow> bool" where
  "lh_mapped H a \<longleftrightarrow> lh_next H a \<noteq> None \<and> lh_prev H a \<noteq> None"

section \<open>The operations of the header\<close>

definition list_head_init :: "lh_heap \<Rightarrow> addr \<Rightarrow> lh_heap option" where
  "list_head_init H head = do {
     H \<leftarrow> set_prev H head head;
     set_next H head head
   }"

definition list_head_empty :: "lh_heap \<Rightarrow> addr \<Rightarrow> bool option" where
  "list_head_empty H head = do {
     n \<leftarrow> lh_next H head;
     Some (n = head)
   }"

text \<open>
  The macros \<^verbatim>\<open>list_for_each\<close> and \<^verbatim>\<open>list_for_each_decl\<close>: \<open>list_for_each body H pos head\<close>
  runs the loop from the position \<open>pos\<close>. The body of a loop over a list either goes on
  (\<open>None\<close>) or leaves the loop with a result (\<open>Some r\<close>).
\<close>

partial_function (option) list_for_each ::
  "(addr \<Rightarrow> 'a option option) \<Rightarrow> lh_heap \<Rightarrow> addr \<Rightarrow> addr \<Rightarrow> 'a option option" where
  "list_for_each body H pos head =
     (if pos = head then Some None
      else do {
        r \<leftarrow> body pos;
        case r of
          Some v \<Rightarrow> Some (Some v)
        | None \<Rightarrow> do {
            n \<leftarrow> lh_next H pos;
            list_for_each body H n head
          }
      })"

partial_function (option) list_head_size_loop ::
  "lh_heap \<Rightarrow> addr \<Rightarrow> addr \<Rightarrow> u32 \<Rightarrow> u32 option" where
  "list_head_size_loop H it head sz =
     (if it = head then Some sz
      else do {
        n \<leftarrow> lh_next H it;
        list_head_size_loop H n head (sz + 1)
      })"

definition list_head_size :: "lh_heap \<Rightarrow> addr \<Rightarrow> u32 option" where
  "list_head_size H head = do {
     e \<leftarrow> list_head_empty H head;
     if \<not> e then do {
       n \<leftarrow> lh_next H head;
       list_head_size_loop H n head 0
     }
     else Some 0
   }"

definition list_head_insert_after :: "lh_heap \<Rightarrow> addr \<Rightarrow> addr \<Rightarrow> lh_heap option" where
  "list_head_insert_after H new_entry location = do {
     old_next \<leftarrow> lh_next H location;
     H \<leftarrow> set_next H location new_entry;
     H \<leftarrow> set_prev H new_entry location;
     H \<leftarrow> set_next H new_entry old_next;
     set_prev H old_next new_entry
   }"

definition list_head_insert_before :: "lh_heap \<Rightarrow> addr \<Rightarrow> addr \<Rightarrow> lh_heap option" where
  "list_head_insert_before H new_entry location = do {
     old_prev \<leftarrow> lh_prev H location;
     H \<leftarrow> set_next H old_prev new_entry;
     H \<leftarrow> set_prev H new_entry old_prev;
     H \<leftarrow> set_next H new_entry location;
     set_prev H location new_entry
   }"

definition list_head_remove :: "lh_heap \<Rightarrow> addr \<Rightarrow> lh_heap option" where
  "list_head_remove H entry = do {
     e \<leftarrow> list_head_empty H entry;
     if \<not> e then do {
       p \<leftarrow> lh_prev H entry;
       n \<leftarrow> lh_next H entry;
       H \<leftarrow> set_next H p n;
       n \<leftarrow> lh_next H entry;
       p \<leftarrow> lh_prev H entry;
       H \<leftarrow> set_prev H n p;
       list_head_init H entry
     }
     else Some H
   }"

text \<open>The result \<open>NULL\<close> of \<^verbatim>\<open>list_head_pop\<close> means that the list was empty.\<close>

definition list_head_pop :: "lh_heap \<Rightarrow> addr \<Rightarrow> (addr \<times> lh_heap) option" where
  "list_head_pop H head = do {
     e \<leftarrow> list_head_empty H head;
     if \<not> e then do {
       value \<leftarrow> lh_next H head;
       H \<leftarrow> list_head_remove H value;
       Some (value, H)
     }
     else Some (NULL, H)
   }"

definition list_head_append :: "lh_heap \<Rightarrow> addr \<Rightarrow> addr \<Rightarrow> lh_heap option" where
  "list_head_append H main secondary = do {
     e1 \<leftarrow> list_head_empty H main;
     e2 \<leftarrow> (if e1 then Some True else list_head_empty H secondary);
     if \<not> e1 \<and> \<not> e2 then do {
       main_prev \<leftarrow> lh_prev H main;
       sec_next \<leftarrow> lh_next H secondary;
       H \<leftarrow> set_next H main_prev sec_next;
       sec_next \<leftarrow> lh_next H secondary;
       main_prev \<leftarrow> lh_prev H main;
       H \<leftarrow> set_prev H sec_next main_prev;
       sec_prev \<leftarrow> lh_prev H secondary;
       H \<leftarrow> set_next H sec_prev main;
       sec_prev \<leftarrow> lh_prev H secondary;
       H \<leftarrow> set_prev H main sec_prev;
       list_head_init H secondary
     }
     else Some H
   }"

section \<open>Well formed lists\<close>

text \<open>
  \<open>path H a xs\<close>: from \<open>a\<close> the \<open>next\<close> links run through \<open>xs\<close>, and the \<open>prev\<close> links run back.
\<close>

fun path :: "lh_heap \<Rightarrow> addr \<Rightarrow> addr list \<Rightarrow> bool" where
  "path H a [] = True"
| "path H a (x # xs) = (lh_next H a = Some x \<and> lh_prev H x = Some a \<and> path H x xs)"

definition lh_list :: "lh_heap \<Rightarrow> addr \<Rightarrow> addr list \<Rightarrow> bool" where
  "lh_list H h xs \<longleftrightarrow> path H h xs \<and> distinct (h # xs)
     \<and> lh_next H (last (h # xs)) = Some h \<and> lh_prev H h = Some (last (h # xs))"

text \<open>Two heaps agree on the structures at the addresses of a set.\<close>

definition lh_agree :: "addr set \<Rightarrow> lh_heap \<Rightarrow> lh_heap \<Rightarrow> bool" where
  "lh_agree A H H' \<longleftrightarrow>
     (\<forall>a. a \<in> A \<longrightarrow> lh_next H' a = lh_next H a \<and> lh_prev H' a = lh_prev H a)"

lemma lh_agreeI [intro]:
  "(\<And>a. a \<in> A \<Longrightarrow> lh_next H' a = lh_next H a \<and> lh_prev H' a = lh_prev H a) \<Longrightarrow> lh_agree A H H'"
  by (simp add: lh_agree_def)

lemma lh_agree_refl [simp, intro]: "lh_agree A H H"
  by (simp add: lh_agree_def)

lemma lh_agree_trans: "lh_agree A H H' \<Longrightarrow> lh_agree A H' H'' \<Longrightarrow> lh_agree A H H''"
  by (simp add: lh_agree_def)

lemma lh_agree_mono: "lh_agree A H H' \<Longrightarrow> B \<subseteq> A \<Longrightarrow> lh_agree B H H'"
  by (auto simp: lh_agree_def)

subsection \<open>Paths\<close>

lemma path_append [simp]:
  "path H a (xs @ ys) \<longleftrightarrow> path H a xs \<and> path H (last (a # xs)) ys"
  by (induction xs arbitrary: a) auto

lemma path_frame:
  assumes "\<And>p. p \<in> set (butlast (a # xs)) \<Longrightarrow> lh_next H' p = lh_next H p"
    and "\<And>p. p \<in> set xs \<Longrightarrow> lh_prev H' p = lh_prev H p"
  shows "path H' a xs = path H a xs"
  using assms by (induction xs arbitrary: a) (auto split: if_splits)

lemma path_agree: "lh_agree (set (a # xs)) H H' \<Longrightarrow> path H' a xs = path H a xs"
  by (rule path_frame) (auto simp: lh_agree_def split: if_splits dest: in_set_butlastD)

lemma path_mapped:
  "path H a xs \<Longrightarrow> x \<in> set xs \<Longrightarrow> lh_prev H x \<noteq> None"
  by (induction xs arbitrary: a) auto

lemma path_next_mapped:
  "path H a xs \<Longrightarrow> x \<in> set (butlast (a # xs)) \<Longrightarrow> lh_next H x \<noteq> None"
  by (induction xs arbitrary: a) (auto split: if_splits)

lemma in_set_butlast_or_last: "xs \<noteq> [] \<Longrightarrow> x \<in> set xs \<Longrightarrow> x \<in> set (butlast xs) \<or> x = last xs"
  by (metis append_butlast_last_id in_set_conv_decomp_last set_ConsD in_set_butlast_appendI
      last_ConsL rotate1.simps(2) set_rotate1)

lemma last_notin_butlast: "distinct xs \<Longrightarrow> xs \<noteq> [] \<Longrightarrow> last xs \<notin> set (butlast xs)"
  by (induction xs) auto

lemma lh_list_mapped:
  assumes "lh_list H h xs" and "x \<in> set (h # xs)"
  shows "lh_mapped H x"
proof -
  have "lh_prev H x \<noteq> None"
    using assms path_mapped [of H h xs x] by (auto simp: lh_list_def)
  moreover have "lh_next H x \<noteq> None"
    using assms path_next_mapped [of H h xs x] in_set_butlast_or_last [of "h # xs" x]
    by (auto simp: lh_list_def)
  ultimately show ?thesis by (simp add: lh_mapped_def)
qed

lemma lh_list_agree:
  assumes "lh_list H h xs" and "lh_agree (set (h # xs)) H H'"
  shows "lh_list H' h xs"
proof -
  have "last (h # xs) \<in> set (h # xs)" by (rule last_in_set) simp
  then show ?thesis
    using assms path_agree [OF assms(2)] unfolding lh_list_def lh_agree_def
    by (metis list.set_intros(1))
qed

text \<open>A circular list can be read from any of its elements.\<close>

lemma lh_list_rotate:
  "lh_list H h (xs @ y # ys) \<Longrightarrow> lh_list H y (ys @ h # xs)"
  by (auto simp: lh_list_def split: if_splits)

lemma lh_list_nil: "lh_list H h [] \<longleftrightarrow> lh_next H h = Some h \<and> lh_prev H h = Some h"
  by (auto simp: lh_list_def)

lemma lh_list_next: "lh_list H h xs \<Longrightarrow> lh_next H h = Some (hd (xs @ [h]))"
  by (cases xs) (auto simp: lh_list_def)

lemma lh_list_prev: "lh_list H h xs \<Longrightarrow> lh_prev H h = Some (last (h # xs))"
  by (simp add: lh_list_def)

lemma lh_list_notin: "lh_list H h xs \<Longrightarrow> h \<notin> set xs"
  by (simp add: lh_list_def)

section \<open>What the operations do to well formed lists\<close>

lemma lh_mapped_upd [simp]:
  "lh_mapped (H\<lparr>lh_next := (lh_next H)(a \<mapsto> v)\<rparr>) b \<longleftrightarrow> lh_prev H b \<noteq> None \<and> (a = b \<or> lh_next H b \<noteq> None)"
  "lh_mapped (H\<lparr>lh_prev := (lh_prev H)(a \<mapsto> v)\<rparr>) b \<longleftrightarrow> lh_next H b \<noteq> None \<and> (a = b \<or> lh_prev H b \<noteq> None)"
  by (auto simp: lh_mapped_def)

lemma list_head_init_ok:
  assumes "lh_mapped H h"
  shows "\<exists>H'. list_head_init H h = Some H' \<and> lh_list H' h [] \<and> lh_agree (- {h}) H H'"
  using assms
  by (auto simp: list_head_init_def set_next_def set_prev_def lh_mapped_def lh_agree_def lh_list_nil)

lemma list_head_empty_ok: "lh_list H h xs \<Longrightarrow> list_head_empty H h = Some (xs = [])"
  by (auto simp: list_head_empty_def lh_list_next hd_append dest: lh_list_notin split: list.splits)

lemma list_head_insert_before_ok:
  assumes "lh_list H h xs" and "lh_mapped H n" and "n \<notin> set (h # xs)"
  shows "\<exists>H'. list_head_insert_before H n h = Some H' \<and> lh_list H' h (xs @ [n])
     \<and> lh_agree (- set (n # h # xs)) H H'"
proof -
  let ?z = "last (h # xs)"
  have z: "?z \<in> set (h # xs)" by (rule last_in_set) simp
  have zm: "lh_next H ?z = Some h" "lh_prev H h = Some ?z"
    using assms(1) by (auto simp: lh_list_def)
  let ?H' = "H\<lparr>lh_next := (lh_next H)(?z \<mapsto> n, n \<mapsto> h), lh_prev := (lh_prev H)(n \<mapsto> ?z, h \<mapsto> n)\<rparr>"
  have "list_head_insert_before H n h = Some ?H'"
    using zm assms(2,3) z
    by (auto simp: list_head_insert_before_def set_next_def set_prev_def lh_mapped_def)
  moreover have "lh_agree (- set (n # h # xs)) H ?H'"
    using z by (auto simp: lh_agree_def)
  moreover have "lh_list ?H' h (xs @ [n])"
  proof -
    have "?z \<notin> set (butlast (h # xs))"
      using assms(1) last_notin_butlast [of "h # xs"] unfolding lh_list_def by blast
    then have "path ?H' h xs = path H h xs"
      using assms(1,3) by (intro path_frame) (auto simp: lh_list_def dest: in_set_butlastD)
    then show ?thesis using assms z by (auto simp: lh_list_def)
  qed
  ultimately show ?thesis by blast
qed

lemma list_head_insert_after_before:
  "lh_next H l = Some y \<Longrightarrow> lh_prev H y = Some l \<Longrightarrow>
     list_head_insert_after H n l = list_head_insert_before H n y"
  by (simp add: list_head_insert_after_def list_head_insert_before_def)

lemma list_head_insert_after_ok:
  assumes "lh_list H h xs" and "lh_mapped H n" and "n \<notin> set (h # xs)"
  shows "\<exists>H'. list_head_insert_after H n h = Some H' \<and> lh_list H' h (n # xs)
     \<and> lh_agree (- set (n # h # xs)) H H'"
proof (cases xs)
  case Nil
  with assms show ?thesis
    using list_head_insert_before_ok [OF assms]
    by (simp add: list_head_insert_after_before lh_list_nil)
next
  case (Cons y ys)
  have rot: "lh_list H y (ys @ h # [])"
    using lh_list_rotate [of H h "[]" y ys] assms(1) Cons by simp
  then obtain H' where H': "list_head_insert_before H n y = Some H'"
    "lh_list H' y ((ys @ [h]) @ [n])" "lh_agree (- set (n # y # ys @ [h])) H H'"
    using list_head_insert_before_ok [OF rot assms(2)] assms(3) Cons by auto
  have "list_head_insert_after H n h = Some H'"
    using H'(1) assms(1) Cons by (simp add: lh_list_def list_head_insert_after_before)
  moreover have "lh_list H' h (n # xs)"
    using lh_list_rotate [of H' y ys h "[n]"] H'(2) Cons by simp
  moreover have "lh_agree (- set (n # h # xs)) H H'"
    using H'(3) Cons by (auto simp: lh_agree_def)
  ultimately show ?thesis by blast
qed

lemma list_head_remove_first:
  assumes "lh_list H x (z # zs)"
  shows "\<exists>H'. list_head_remove H x = Some H' \<and> lh_list H' z zs \<and> lh_list H' x []
     \<and> lh_agree (- set (x # z # zs)) H H'"
proof -
  let ?p = "last (z # zs)"
  have p: "?p \<in> set (z # zs)" by (rule last_in_set) simp
  have links: "lh_next H x = Some z" "lh_prev H z = Some x" "path H z zs"
    "lh_next H ?p = Some x" "lh_prev H x = Some ?p" and dist: "distinct (x # z # zs)"
    using assms by (auto simp: lh_list_def)
  let ?H' = "H\<lparr>lh_next := (lh_next H)(?p \<mapsto> z, x \<mapsto> x), lh_prev := (lh_prev H)(z \<mapsto> ?p, x \<mapsto> x)\<rparr>"
  have px: "?p \<noteq> x" using p dist by auto
  have "list_head_remove H x = Some ?H'"
    using links dist px
    by (auto simp: list_head_remove_def list_head_empty_def set_next_def set_prev_def list_head_init_def)
  moreover have "path ?H' z zs = path H z zs"
    using dist last_notin_butlast [of "z # zs"]
    by (intro path_frame) (auto dest: in_set_butlastD)
  then have "lh_list ?H' z zs" using links dist px by (auto simp: lh_list_def)
  moreover have "lh_list ?H' x []" by (simp add: lh_list_nil)
  moreover have "lh_agree (- set (x # z # zs)) H ?H'"
    using p by (auto simp: lh_agree_def)
  ultimately show ?thesis by blast
qed

lemma list_head_remove_ok:
  assumes "lh_list H h (xs @ x # ys)"
  shows "\<exists>H'. list_head_remove H x = Some H' \<and> lh_list H' h (xs @ ys) \<and> lh_list H' x []
     \<and> lh_agree (- set (h # xs @ x # ys)) H H'"
proof (cases ys)
  case Nil
  then show ?thesis
    using list_head_remove_first [of H x h xs] lh_list_rotate [OF assms] by (auto simp: lh_agree_def)
next
  case (Cons z zs)
  then obtain H' where H': "list_head_remove H x = Some H'" "lh_list H' z (zs @ h # xs)"
    "lh_list H' x []" "lh_agree (- set (x # z # zs @ h # xs)) H H'"
    using list_head_remove_first [of H x z "zs @ h # xs"] lh_list_rotate [OF assms] by auto
  then show ?thesis
    using lh_list_rotate [of H' z zs h xs] Cons by (auto simp: lh_agree_def)
qed

text \<open>An entry that is in no list is left as it is.\<close>

lemma list_head_remove_single: "lh_list H x [] \<Longrightarrow> list_head_remove H x = Some H"
  by (simp add: list_head_remove_def list_head_empty_ok)

lemma list_head_pop_ok:
  assumes "lh_list H h (x # xs)"
  shows "\<exists>H'. list_head_pop H h = Some (x, H') \<and> lh_list H' h xs \<and> lh_list H' x []
     \<and> lh_agree (- set (h # x # xs)) H H'"
  using list_head_remove_ok [of H h "[]" x xs] assms lh_list_next [OF assms]
  by (auto simp: list_head_pop_def list_head_empty_ok)

lemma list_head_pop_empty: "lh_list H h [] \<Longrightarrow> list_head_pop H h = Some (NULL, H)"
  by (simp add: list_head_pop_def list_head_empty_ok)

lemma list_head_append_ok:
  assumes m: "lh_list H m xs" and s: "lh_list H s ys"
    and disj: "set (m # xs) \<inter> set (s # ys) = {}" and "xs \<noteq> []"
  shows "\<exists>H'. list_head_append H m s = Some H' \<and> lh_list H' m (xs @ ys) \<and> lh_list H' s []
     \<and> lh_agree (- set (m # xs @ s # ys)) H H'"
proof (cases ys)
  case Nil
  with m s \<open>xs \<noteq> []\<close> have "list_head_append H m s = Some H"
    by (simp add: list_head_append_def list_head_empty_ok)
  with Nil m s show ?thesis by auto
next
  case (Cons y ys')
  let ?x = "last xs" and ?w = "last (y # ys')"
  have in_sets: "?x \<in> set xs" "y \<in> set ys" "?w \<in> set ys"
    using Cons \<open>xs \<noteq> []\<close> by auto
  have dist: "distinct (m # xs)" "distinct (s # y # ys')"
    using m s Cons by (simp_all add: lh_list_def)
  have links: "lh_next H ?x = Some m" "lh_prev H m = Some ?x" "lh_next H s = Some y"
    "lh_prev H y = Some s" "lh_next H ?w = Some s" "lh_prev H s = Some ?w"
    "path H m xs" "path H y ys'"
    using m s \<open>xs \<noteq> []\<close> Cons by (auto simp: lh_list_def)
  let ?H' = "H\<lparr>lh_next := (lh_next H)(?x \<mapsto> y, ?w \<mapsto> m, s \<mapsto> s),
               lh_prev := (lh_prev H)(y \<mapsto> ?x, m \<mapsto> ?w, s \<mapsto> s)\<rparr>"
  have neqs: "?x \<noteq> s" "?x \<noteq> y" "?x \<noteq> ?w" "m \<noteq> s" "m \<noteq> y" "m \<noteq> ?w" "s \<noteq> y" "s \<noteq> ?w"
    using in_sets disj dist Cons by (auto simp del: last.simps)
  have append: "list_head_append H m s = Some ?H'"
    using m s Cons \<open>xs \<noteq> []\<close> links neqs
    by (auto simp: list_head_append_def list_head_empty_ok set_next_def set_prev_def
        list_head_init_def simp del: last.simps)
  have p1: "path ?H' m xs"
    using dist(1) last_notin_butlast [of "m # xs"] \<open>xs \<noteq> []\<close> disj in_sets links(7)
    by (subst path_frame [where H = H]) (auto dest: in_set_butlastD)
  have "?x \<notin> set (butlast (y # ys'))"
    using in_sets disj Cons by (auto dest: in_set_butlastD split: if_splits)
  then have p2: "path ?H' y ys'"
    using dist(2) last_notin_butlast [of "y # ys'"] disj in_sets Cons links(8)
    by (subst path_frame [where H = H]) (auto dest: in_set_butlastD)
  have "lh_list ?H' m (xs @ ys)"
    using p1 p2 links neqs dist disj \<open>xs \<noteq> []\<close> Cons by (simp add: lh_list_def)
  moreover have "lh_agree (- set (m # xs @ s # ys)) H ?H'"
    using in_sets by (auto simp: lh_agree_def)
  moreover have "lh_list ?H' s []" by (simp add: lh_list_nil)
  ultimately show ?thesis using append by blast
qed

text \<open>
  When \<^verbatim>\<open>main\<close> has no element the function does nothing, although its comment promises the
  elements of \<^verbatim>\<open>secondary\<close>: they stay where they are.
\<close>

lemma list_head_append_empty_main:
  "lh_list H m [] \<Longrightarrow> list_head_append H m s = Some H"
  by (simp add: list_head_append_def list_head_empty_ok)

section \<open>Loops over lists\<close>

text \<open>What a loop with an early exit computes on the elements of a list.\<close>

fun scan :: "('b \<Rightarrow> 'a option option) \<Rightarrow> 'b list \<Rightarrow> 'a option option" where
  "scan body [] = Some None"
| "scan body (x # xs) = do {
     r \<leftarrow> body x;
     case r of Some v \<Rightarrow> Some (Some v) | None \<Rightarrow> scan body xs
   }"

lemma list_for_each_path:
  assumes "path H a xs" and "lh_next H (last (a # xs)) = Some h" and "h \<notin> set xs"
  shows "list_for_each body H (hd (xs @ [h])) h = scan body xs"
  using assms
proof (induction xs arbitrary: a)
  case Nil
  then show ?case by (simp add: list_for_each.simps)
next
  case (Cons x xs)
  then have "lh_next H x = Some (hd (xs @ [h]))" by (cases xs) auto
  moreover have "list_for_each body H (hd (xs @ [h])) h = scan body xs"
    using Cons.IH [of x] Cons.prems by auto
  ultimately show ?case
    using Cons.prems by (subst list_for_each.simps) (auto cong: option.case_cong)
qed

lemma list_for_each_ok:
  assumes "lh_list H h xs"
  shows "(lh_next H h \<bind> (\<lambda>p. list_for_each body H p h)) = scan body xs"
  using list_for_each_path [of H h xs h body] assms lh_list_next [OF assms]
  by (simp add: lh_list_def)

lemma list_head_size_loop_path:
  assumes "path H a xs" and "lh_next H (last (a # xs)) = Some h" and "h \<notin> set xs"
  shows "list_head_size_loop H (hd (xs @ [h])) h n = Some (n + of_nat (length xs))"
  using assms
proof (induction xs arbitrary: a n)
  case Nil
  then show ?case by (simp add: list_head_size_loop.simps)
next
  case (Cons x xs)
  then have "lh_next H x = Some (hd (xs @ [h]))" by (cases xs) auto
  moreover have "list_head_size_loop H (hd (xs @ [h])) h (n + 1) = Some (n + 1 + of_nat (length xs))"
    using Cons.IH [of x "n + 1"] Cons.prems by auto
  ultimately show ?case
    using Cons.prems by (subst list_head_size_loop.simps) (auto simp: algebra_simps)
qed

lemma list_head_size_ok:
  assumes "lh_list H h xs"
  shows "list_head_size H h = Some (of_nat (length xs))"
proof -
  have "list_head_size_loop H (hd (xs @ [h])) h 0 = Some (of_nat (length xs))"
    using list_head_size_loop_path [of H h xs h 0] assms by (simp add: lh_list_def)
  then show ?thesis
    using list_head_empty_ok [OF assms] lh_list_next [OF assms]
    by (auto simp: list_head_size_def)
qed

section \<open>The contract of a queue built from intrusive links\<close>

text \<open>
  What the kernel's queues rely on: an entry linked before the head becomes the last
  element, unlinking an element takes it out and leaves it linked to itself, and neither
  touches links of other structures. Everything proved here holds for any implementation
  that keeps these laws.
\<close>

locale intrusive_queue =
  fixes is_queue :: "'h \<Rightarrow> addr \<Rightarrow> addr list \<Rightarrow> bool"
    and mapped :: "'h \<Rightarrow> addr \<Rightarrow> bool"
    and same_on :: "addr set \<Rightarrow> 'h \<Rightarrow> 'h \<Rightarrow> bool"
    and enq :: "'h \<Rightarrow> addr \<Rightarrow> addr \<Rightarrow> 'h option"
    and unlink :: "'h \<Rightarrow> addr \<Rightarrow> 'h option"
  assumes enq_ok: "is_queue H h xs \<Longrightarrow> mapped H n \<Longrightarrow> n \<notin> set (h # xs) \<Longrightarrow>
      \<exists>H'. enq H n h = Some H' \<and> is_queue H' h (xs @ [n]) \<and> same_on (- set (n # h # xs)) H H'"
    and unlink_ok: "is_queue H h (xs @ x # ys) \<Longrightarrow>
      \<exists>H'. unlink H x = Some H' \<and> is_queue H' h (xs @ ys) \<and> is_queue H' x []
        \<and> same_on (- set (h # xs @ x # ys)) H H'"
    and frame: "is_queue H h xs \<Longrightarrow> same_on A H H' \<Longrightarrow> set (h # xs) \<subseteq> A \<Longrightarrow> is_queue H' h xs"
    and queue_mapped: "is_queue H h xs \<Longrightarrow> x \<in> set (h # xs) \<Longrightarrow> mapped H x"
    and queue_distinct: "is_queue H h xs \<Longrightarrow> distinct (h # xs)"
begin

lemma unlink_member:
  assumes "is_queue H h xs" and "x \<in> set xs"
  shows "\<exists>H'. unlink H x = Some H' \<and> is_queue H' h (remove1 x xs) \<and> is_queue H' x []
     \<and> same_on (- set (h # xs)) H H'"
proof -
  obtain ys zs where xs: "xs = ys @ x # zs" using assms(2) by (meson split_list)
  then have "remove1 x xs = ys @ zs"
    using queue_distinct [OF assms(1)] by (simp add: remove1_append)
  then show ?thesis using unlink_ok [of H h ys x zs] assms(1) xs by auto
qed

lemma enq_other_queue:
  assumes "is_queue H h xs" and "mapped H n" and "n \<notin> set (h # xs)"
    and "is_queue H g ys" and "set (g # ys) \<inter> set (n # h # xs) = {}" and "enq H n h = Some H'"
  shows "is_queue H' h (xs @ [n]) \<and> is_queue H' g ys"
proof -
  obtain H2 where "enq H n h = Some H2" "is_queue H2 h (xs @ [n])" "same_on (- set (n # h # xs)) H H2"
    using enq_ok [OF assms(1-3)] by blast
  then show ?thesis using frame [OF assms(4), of "- set (n # h # xs)" H2] assms(5,6) by auto
qed

end

interpretation lh: intrusive_queue lh_list lh_mapped lh_agree
  list_head_insert_before list_head_remove
proof (unfold_locales, goal_cases)
  case (1 H h xs n)
  then show ?case by (rule list_head_insert_before_ok)
next
  case (2 H h xs x ys)
  then show ?case by (rule list_head_remove_ok)
next
  case (3 H h xs A H')
  then show ?case by (blast intro: lh_list_agree lh_agree_mono)
next
  case (4 H h xs x)
  then show ?case by (rule lh_list_mapped)
next
  case (5 H h xs)
  then show ?case by (simp add: lh_list_def)
qed

section \<open>Properties\<close>

lemma lh_list_frame:
  "lh_list H g zs \<Longrightarrow> lh_agree (- A) H H' \<Longrightarrow> set (g # zs) \<inter> A = {} \<Longrightarrow> lh_list H' g zs"
  by (rule lh.frame [where A = "- A"]) auto

text \<open>
  C13. \<^verbatim>\<open>list_head_append\<close> on two disjoint well formed lists returns, and every list that shares
  no structure with them is left as it was. If the main list has an element it ends with
  the elements of both lists, in order, and the secondary list is empty; if it has none
  nothing changes, and the secondary list keeps its elements.
\<close>

theorem list_head_append_spec:
  assumes "lh_list H m xs" and "lh_list H s ys" and "set (m # xs) \<inter> set (s # ys) = {}"
    and "lh_list H g zs" and "set (g # zs) \<inter> set (m # xs @ s # ys) = {}"
  shows "\<exists>H'. list_head_append H m s = Some H' \<and> lh_list H' g zs
     \<and> (if xs = [] then H' = H else lh_list H' m (xs @ ys) \<and> lh_list H' s [])"
proof (cases "xs = []")
  case True
  then show ?thesis using assms list_head_append_empty_main [of H m s] by simp
next
  case False
  then show ?thesis
    using list_head_append_ok [OF assms(1-3)] lh_list_frame [OF assms(4) _ assms(5)] by auto
qed

theorem list_head_append_spec_witness:
  "\<exists>H'. list_head_append \<lparr>lh_next = [1 \<mapsto> 2, 2 \<mapsto> 1, 3 \<mapsto> 4, 4 \<mapsto> 5, 5 \<mapsto> 3, 9 \<mapsto> 9],
       lh_prev = [1 \<mapsto> 2, 2 \<mapsto> 1, 3 \<mapsto> 5, 5 \<mapsto> 4, 4 \<mapsto> 3, 9 \<mapsto> 9]\<rparr> 1 3 = Some H'
     \<and> lh_list H' 9 [] \<and> lh_list H' 1 [2, 4, 5] \<and> lh_list H' 3 []"
  using list_head_append_spec [of "\<lparr>lh_next = [1 \<mapsto> 2, 2 \<mapsto> 1, 3 \<mapsto> 4, 4 \<mapsto> 5, 5 \<mapsto> 3, 9 \<mapsto> 9],
       lh_prev = [1 \<mapsto> 2, 2 \<mapsto> 1, 3 \<mapsto> 5, 5 \<mapsto> 4, 4 \<mapsto> 3, 9 \<mapsto> 9]\<rparr>" 1 "[2]" 3 "[4, 5]" 9 "[]"]
  by (simp add: lh_list_def)

text \<open>
  C14. Linking an entry at the end of a queue and unlinking it again gives the queue back; the
  entry is then linked to itself only, so that it can be linked again, and \<^verbatim>\<open>list_head_size\<close>
  counts one entry more in between.
\<close>

theorem list_head_enqueue_dequeue:
  assumes "lh_list H h xs" and "lh_mapped H n" and "n \<notin> set (h # xs)"
  shows "\<exists>H1 H2. list_head_insert_before H n h = Some H1 \<and> lh_list H1 h (xs @ [n])
     \<and> list_head_size H1 h = Some (of_nat (length xs) + 1)
     \<and> list_head_remove H1 n = Some H2 \<and> lh_list H2 h xs \<and> lh_list H2 n []
     \<and> lh_agree (- set (n # h # xs)) H H2"
proof -
  obtain H1 where H1: "list_head_insert_before H n h = Some H1" "lh_list H1 h (xs @ [n])"
    "lh_agree (- set (n # h # xs)) H H1"
    using list_head_insert_before_ok [OF assms] by blast
  then obtain H2 where "list_head_remove H1 n = Some H2" "lh_list H2 h xs" "lh_list H2 n []"
    "lh_agree (- set (n # h # xs)) H1 H2"
    using list_head_remove_ok [of H1 h xs n "[]"] by (auto simp: insert_commute)
  then show ?thesis
    using H1 list_head_size_ok [OF H1(2)] lh_agree_trans [OF H1(3), of H2]
    by (auto simp: add.commute)
qed

theorem list_head_enqueue_dequeue_witness:
  "\<exists>H1 H2. list_head_insert_before \<lparr>lh_next = [1 \<mapsto> 2, 2 \<mapsto> 1, 7 \<mapsto> 0], lh_prev = [1 \<mapsto> 2, 2 \<mapsto> 1, 7 \<mapsto> 0]\<rparr>
         7 1 = Some H1 \<and> list_head_size H1 1 = Some 2
     \<and> list_head_remove H1 7 = Some H2 \<and> lh_list H2 1 [2] \<and> lh_list H2 7 []"
  using list_head_enqueue_dequeue [of
      "\<lparr>lh_next = [1 \<mapsto> 2, 2 \<mapsto> 1, 7 \<mapsto> 0], lh_prev = [1 \<mapsto> 2, 2 \<mapsto> 1, 7 \<mapsto> 0]\<rparr>" 1 "[2]" 7]
  by (force simp: lh_list_def lh_mapped_def)

end
