(* ===== verification/Ring_Buffer.thy ===== *)
theory Ring_Buffer
  imports Prelude
begin

text \<open>
  The ring buffers of \<^verbatim>\<open>include/kernel/ring_buffer.h\<close>: the fixed-size one, which holds the
  scancodes a process has not read yet, and the dynamic one. The macros are instantiated
  at a type, a length and a filler value \<open>init\<close>; the model keeps the type abstract and takes
  the filler as an argument. Indices are 32-bit words, as in the code.

  \<open>rb_list rb\<close> reads the stored items, oldest first. The lemmas show that the operations are
  those of a bounded deque of capacity \<open>size - 1\<close> whose \<open>push_front\<close> drops the oldest item
  when it is full.
\<close>

section \<open>The structure and its operations\<close>

record 'a fs_rb =
  rb_size :: u32
  rb_read :: u32
  rb_write :: u32
  rb_buffer :: "'a list"

definition buf_get :: "'a list \<Rightarrow> u32 \<Rightarrow> 'a option" where
  "buf_get xs i = (if unat i < length xs then Some (xs ! unat i) else None)"

definition buf_set :: "'a list \<Rightarrow> u32 \<Rightarrow> 'a \<Rightarrow> 'a list option" where
  "buf_set xs i v = (if unat i < length xs then Some (xs[unat i := v]) else None)"

text \<open>
  \<^verbatim>\<open>init\<close> fills the array byte by byte with the low byte of the filler. \<open>fill\<close> is the item
  whose bytes are all that byte.
\<close>

definition fs_rb_init :: "'a fs_rb \<Rightarrow> u32 \<Rightarrow> 'a \<Rightarrow> 'a fs_rb" where
  "fs_rb_init rb len fill =
     rb\<lparr>rb_size := len, rb_read := 0, rb_write := 0, rb_buffer := replicate (unat len) fill\<rparr>"

definition fs_rb_step :: "'a fs_rb \<Rightarrow> u32 \<Rightarrow> u32" where
  "fs_rb_step rb index = (if index = rb_size rb - 1 then 0 else index + 1)"

definition fs_rb_push_front :: "'a fs_rb \<Rightarrow> 'a \<Rightarrow> 'a fs_rb option" where
  "fs_rb_push_front rb item = do {
     let rb1 = (if fs_rb_step rb (rb_write rb) = rb_read rb
                then rb\<lparr>rb_read := fs_rb_step rb (rb_read rb)\<rparr> else rb);
     b \<leftarrow> buf_set (rb_buffer rb1) (rb_write rb1) item;
     let rb2 = rb1\<lparr>rb_buffer := b\<rparr>;
     Some (rb2\<lparr>rb_write := fs_rb_step rb2 (rb_write rb2)\<rparr>)
   }"

definition fs_rb_empty :: "'a fs_rb \<Rightarrow> bool" where
  "fs_rb_empty rb \<longleftrightarrow> rb_write rb = rb_read rb"

definition fs_rb_pop_back :: "'a \<Rightarrow> 'a fs_rb \<Rightarrow> ('a \<times> 'a fs_rb) option" where
  "fs_rb_pop_back init rb =
     (if \<not> fs_rb_empty rb then do {
        item \<leftarrow> buf_get (rb_buffer rb) (rb_read rb);
        Some (item, rb\<lparr>rb_read := fs_rb_step rb (rb_read rb)\<rparr>)
      }
      else Some (init, rb))"

definition fs_rb_pop_front :: "'a \<Rightarrow> 'a fs_rb \<Rightarrow> ('a \<times> 'a fs_rb) option" where
  "fs_rb_pop_front init rb =
     (if fs_rb_empty rb then Some (init, rb)
      else do {
        let rb1 = rb\<lparr>rb_write := (if rb_write rb > 0 then rb_write rb - 1 else rb_size rb - 1)\<rparr>;
        item \<leftarrow> buf_get (rb_buffer rb1) (rb_write rb1);
        Some (item, rb1)
      })"

definition fs_rb_get :: "'a \<Rightarrow> 'a fs_rb \<Rightarrow> u32 \<Rightarrow> 'a option" where
  "fs_rb_get init rb index =
     (if index < rb_size rb then buf_get (rb_buffer rb) index else Some init)"

definition fs_rb_back :: "'a \<Rightarrow> 'a fs_rb \<Rightarrow> 'a option" where
  "fs_rb_back init rb =
     (if fs_rb_empty rb then Some init else buf_get (rb_buffer rb) (rb_read rb))"

definition fs_rb_front :: "'a \<Rightarrow> 'a fs_rb \<Rightarrow> 'a option" where
  "fs_rb_front init rb =
     (if fs_rb_empty rb then Some init
      else buf_get (rb_buffer rb) (if rb_write rb > 0 then rb_write rb - 1 else rb_size rb - 1))"

text \<open>
  The dynamic ring buffer has the same fields, with the array allocated at run time. The
  item is returned through a pointer: \<open>old\<close> is what the pointer refers to before the call.
\<close>

definition step_rb :: "'a fs_rb \<Rightarrow> u32 \<Rightarrow> u32" where
  "step_rb rb index = (if index = rb_size rb - 1 then 0 else index + 1)"

definition push_rb :: "'a fs_rb \<Rightarrow> 'a \<Rightarrow> 'a fs_rb option" where
  "push_rb rb item = do {
     let rb1 = (if step_rb rb (rb_write rb) = rb_read rb
                then rb\<lparr>rb_read := step_rb rb (rb_read rb)\<rparr> else rb);
     b \<leftarrow> buf_set (rb_buffer rb1) (rb_write rb1) item;
     let rb2 = rb1\<lparr>rb_buffer := b\<rparr>;
     Some (rb2\<lparr>rb_write := step_rb rb2 (rb_write rb2)\<rparr>)
   }"

definition pop_rb :: "'a \<Rightarrow> 'a fs_rb \<Rightarrow> ('a \<times> 'a fs_rb) option" where
  "pop_rb init rb =
     (if rb_write rb \<noteq> rb_read rb then do {
        item \<leftarrow> buf_get (rb_buffer rb) (rb_read rb);
        Some (item, rb\<lparr>rb_read := step_rb rb (rb_read rb)\<rparr>)
      }
      else Some (init, rb))"

definition get_rb :: "'a fs_rb \<Rightarrow> u32 \<Rightarrow> 'a \<Rightarrow> 'a option" where
  "get_rb rb index old =
     (if index < rb_size rb then buf_get (rb_buffer rb) index else Some old)"

section \<open>The stored items\<close>

definition rb_inv :: "'a fs_rb \<Rightarrow> bool" where
  "rb_inv rb \<longleftrightarrow> 0 < unat (rb_size rb) \<and> length (rb_buffer rb) = unat (rb_size rb)
     \<and> unat (rb_read rb) < unat (rb_size rb) \<and> unat (rb_write rb) < unat (rb_size rb)"

definition rb_count :: "'a fs_rb \<Rightarrow> nat" where
  "rb_count rb = (unat (rb_write rb) + unat (rb_size rb) - unat (rb_read rb)) mod unat (rb_size rb)"

text \<open>The \<open>c\<close> items of the circular array \<open>b\<close> from index \<open>r\<close> on.\<close>

definition ring :: "'a list \<Rightarrow> nat \<Rightarrow> nat \<Rightarrow> 'a list" where
  "ring b r c = map (\<lambda>k. b ! ((r + k) mod length b)) [0..<c]"

definition rb_list :: "'a fs_rb \<Rightarrow> 'a list" where
  "rb_list rb = ring (rb_buffer rb) (unat (rb_read rb)) (rb_count rb)"

text \<open>A deque of capacity \<open>cap\<close> that forgets its oldest item when it is full.\<close>

definition dq_push :: "nat \<Rightarrow> 'a list \<Rightarrow> 'a \<Rightarrow> 'a list" where
  "dq_push cap xs x = (if length xs < cap then xs @ [x] else tl (xs @ [x]))"

lemma length_ring [simp]: "length (ring b r c) = c"
  by (simp add: ring_def)

lemma mod_add_inj:
  fixes r :: nat
  assumes "i < n" and "j < n" and "(r + i) mod n = (r + j) mod n"
  shows "i = j"
  using assms
proof (induction i j rule: linorder_wlog)
  case (le i j)
  then have "n dvd j - i"
    using mod_eq_dvd_iff_nat [of "r + i" "r + j" n] by simp
  then show ?case
    using le by (auto dest: dvd_imp_le)
qed simp

lemma ring_Suc: "ring b r (Suc c) = ring b r c @ [b ! ((r + c) mod length b)]"
  by (simp add: ring_def)

lemma ring_upd:
  assumes "length b = n" and "c < n"
  shows "ring (b[(r + c) mod n := x]) r c = ring b r c"
proof (rule nth_equalityI)
  fix i assume i: "i < length (ring (b[(r + c) mod n := x]) r c)"
  then have "(r + i) mod n \<noteq> (r + c) mod n"
    using mod_add_inj [of i n c r] assms by auto
  then show "ring (b[(r + c) mod n := x]) r c ! i = ring b r c ! i"
    using i assms by (simp add: ring_def)
qed simp

lemma ring_step: "ring b ((r + 1) mod length b) c = tl (ring b r (Suc c))"
  by (rule nth_equalityI) (simp_all add: ring_def nth_tl mod_add_left_eq del: upt_Suc)

lemma rb_count_less: "rb_inv rb \<Longrightarrow> rb_count rb < unat (rb_size rb)"
  by (simp add: rb_inv_def rb_count_def)

lemma rb_write_eq:
  assumes "rb_inv rb"
  shows "unat (rb_write rb) = (unat (rb_read rb) + rb_count rb) mod unat (rb_size rb)"
  using assms by (simp add: rb_inv_def rb_count_def mod_add_right_eq)

lemma rb_count_unique:
  assumes "rb_inv rb" and "c < unat (rb_size rb)"
    and "unat (rb_write rb) = (unat (rb_read rb) + c) mod unat (rb_size rb)"
  shows "rb_count rb = c"
  using mod_add_inj [of "rb_count rb" "unat (rb_size rb)" c "unat (rb_read rb)"]
    assms rb_write_eq [OF assms(1)] rb_count_less [OF assms(1)] by simp

lemma unat_step:
  assumes "0 < unat (rb_size rb)" and "unat i < unat (rb_size rb)"
  shows "unat (fs_rb_step rb i) = (unat i + 1) mod unat (rb_size rb)"
proof -
  have last: "unat (rb_size rb - 1) = unat (rb_size rb) - 1"
    using assms(1) by (subst unat_minus_u32) auto
  show ?thesis
  proof (cases "i = rb_size rb - 1")
    case True
    then show ?thesis using assms last by (simp add: fs_rb_step_def)
  next
    case False
    then have "unat i + 1 < unat (rb_size rb)"
      using assms last by (simp add: u32_eq_iff)
    moreover from this have "unat (i + 1) = unat i + 1"
      using unat_u32_less [of "rb_size rb"] by (intro unat_Suc_u32) linarith
    ultimately show ?thesis using False by (simp add: fs_rb_step_def)
  qed
qed

section \<open>The operations on the stored items\<close>

lemma step_rb_eq: "step_rb = fs_rb_step"
  by (intro ext) (simp add: step_rb_def fs_rb_step_def)

lemma push_rb_eq: "push_rb = fs_rb_push_front"
  by (intro ext) (simp add: push_rb_def fs_rb_push_front_def step_rb_eq)

lemma pop_rb_eq: "pop_rb = fs_rb_pop_back"
  by (intro ext) (simp add: pop_rb_def fs_rb_pop_back_def fs_rb_empty_def step_rb_eq)

lemma rb_empty_iff: "rb_inv rb \<Longrightarrow> fs_rb_empty rb \<longleftrightarrow> rb_list rb = []"
  using rb_write_eq [of rb] rb_count_unique [of rb 0]
  by (auto simp: fs_rb_empty_def u32_eq_iff rb_inv_def rb_list_def
      simp flip: length_0_conv)

lemma rb_inv_step_read:
  "rb_inv rb \<Longrightarrow> rb_inv (rb\<lparr>rb_read := fs_rb_step rb (rb_read rb)\<rparr>)"
  by (simp add: rb_inv_def unat_step)

lemma rb_list_step_read:
  assumes "rb_inv rb" and "rb_list rb \<noteq> []"
  shows "rb_list (rb\<lparr>rb_read := fs_rb_step rb (rb_read rb)\<rparr>) = tl (rb_list rb)"
proof -
  obtain c where c: "rb_count rb = Suc c"
    using assms by (cases "rb_count rb") (auto simp: rb_list_def ring_def)
  let ?rb = "rb\<lparr>rb_read := fs_rb_step rb (rb_read rb)\<rparr>"
  have "unat (rb_write rb) = (unat (rb_read rb) + Suc c) mod unat (rb_size rb)"
    using rb_write_eq [OF assms(1)] c by simp
  then have "rb_count ?rb = c"
    using rb_inv_step_read [OF assms(1)] rb_count_less [OF assms(1)] assms(1) c
    by (intro rb_count_unique) (auto simp: rb_inv_def unat_step mod_add_left_eq)
  then show ?thesis
    using assms(1) c by (simp add: rb_list_def rb_inv_def unat_step flip: ring_step)
qed

lemma rb_full_iff:
  assumes "rb_inv rb"
  shows "fs_rb_step rb (rb_write rb) = rb_read rb \<longleftrightarrow> Suc (rb_count rb) = unat (rb_size rb)"
proof -
  let ?n = "unat (rb_size rb)" and ?r = "unat (rb_read rb)" and ?c = "rb_count rb"
  have "unat (fs_rb_step rb (rb_write rb)) = (?r + Suc ?c) mod ?n"
    using assms rb_write_eq [OF assms] by (simp add: rb_inv_def unat_step mod_Suc_eq)
  moreover have "(?r + Suc ?c) mod ?n = ?r \<longleftrightarrow> Suc ?c = ?n"
  proof
    assume a: "(?r + Suc ?c) mod ?n = ?r"
    show "Suc ?c = ?n"
    proof (rule ccontr)
      assume "Suc ?c \<noteq> ?n"
      then have "Suc ?c < ?n" using rb_count_less [OF assms] by simp
      then show False
        using mod_add_inj [of "Suc ?c" ?n 0 ?r] a assms by (simp add: rb_inv_def)
    qed
  next
    assume "Suc ?c = ?n"
    then show "(?r + Suc ?c) mod ?n = ?r" using assms by (simp add: rb_inv_def)
  qed
  ultimately show ?thesis by (simp add: u32_eq_iff)
qed

lemma rb_put:
  fixes x :: 'a
  assumes inv: "rb_inv rb" and room: "Suc (rb_count rb) < unat (rb_size rb)"
  defines "rb' \<equiv> rb\<lparr>rb_buffer := (rb_buffer rb)[unat (rb_write rb) := x],
     rb_write := fs_rb_step rb (rb_write rb)\<rparr>"
  shows "rb_inv rb' \<and> rb_list rb' = rb_list rb @ [x]"
proof -
  have "rb_inv rb'" using inv by (simp add: rb'_def rb_inv_def unat_step)
  moreover have "rb_count rb' = Suc (rb_count rb)"
    using \<open>rb_inv rb'\<close> room inv rb_write_eq [OF inv]
    by (intro rb_count_unique) (auto simp: rb'_def unat_step rb_inv_def mod_Suc_eq)
  ultimately show ?thesis
    using inv rb_write_eq [OF inv] rb_count_less [OF inv]
    by (simp add: rb'_def rb_list_def ring_Suc ring_upd rb_inv_def)
qed

lemma fs_rb_step_cong: "rb_size a = rb_size b \<Longrightarrow> fs_rb_step a i = fs_rb_step b i"
  by (simp add: fs_rb_step_def)

lemma fs_rb_push_front_ok:
  assumes "rb_inv rb" and "1 < unat (rb_size rb)"
  shows "\<exists>rb'. fs_rb_push_front rb x = Some rb' \<and> rb_inv rb' \<and> rb_size rb' = rb_size rb
    \<and> rb_list rb' = dq_push (unat (rb_size rb) - 1) (rb_list rb) x"
proof -
  define rb1 where "rb1 = (if fs_rb_step rb (rb_write rb) = rb_read rb
    then rb\<lparr>rb_read := fs_rb_step rb (rb_read rb)\<rparr> else rb)"
  have inv1: "rb_inv rb1" and sz1: "rb_size rb1 = rb_size rb"
    using assms rb_inv_step_read by (auto simp: rb1_def)
  have len: "length (rb_list rb) = rb_count rb" by (simp add: rb_list_def)
  have l1: "rb_list rb1 = (if Suc (rb_count rb) = unat (rb_size rb) then tl (rb_list rb) else rb_list rb)"
    using assms rb_list_step_read [OF assms(1)] len
    by (cases "rb_list rb = []") (auto simp: rb1_def rb_full_iff)
  have c1: "rb_count rb1 = length (rb_list rb1)" by (simp add: rb_list_def)
  have room: "Suc (rb_count rb1) < unat (rb_size rb1)"
    using rb_count_less [OF assms(1)] assms(2) l1 c1 len sz1 by (simp split: if_splits)
  have "fs_rb_push_front rb x = Some (rb1\<lparr>rb_buffer := (rb_buffer rb1)[unat (rb_write rb1) := x],
     rb_write := fs_rb_step rb1 (rb_write rb1)\<rparr>)"
    using inv1 by (simp add: fs_rb_push_front_def flip: rb1_def)
      (simp add: buf_set_def rb_inv_def fs_rb_step_def)
  moreover have "rb_list rb1 @ [x] = dq_push (unat (rb_size rb) - 1) (rb_list rb) x"
    using rb_count_less [OF assms(1)] assms(2) l1 len
    by (cases "rb_list rb") (auto simp: dq_push_def)
  ultimately show ?thesis using rb_put [OF inv1 room, of x] sz1 by simp
qed

lemma fs_rb_init_ok:
  "0 < unat len \<Longrightarrow> rb_inv (fs_rb_init rb len fill) \<and> rb_list (fs_rb_init rb len fill) = []"
  by (simp add: fs_rb_init_def rb_inv_def rb_list_def ring_def rb_count_def)

lemma rb_hd:
  assumes "rb_inv rb" and "rb_list rb \<noteq> []"
  shows "buf_get (rb_buffer rb) (rb_read rb) = Some (hd (rb_list rb))"
proof -
  have "0 < rb_count rb" using assms(2) by (cases "rb_count rb") (auto simp: rb_list_def ring_def)
  then show ?thesis
    using assms(1) by (simp add: buf_get_def rb_inv_def rb_list_def ring_def upt_rec)
qed

lemma fs_rb_pop_back_ok:
  assumes "rb_inv rb"
  shows "\<exists>rb'. fs_rb_pop_back init rb
     = Some (if rb_list rb = [] then init else hd (rb_list rb), rb') \<and> rb_inv rb'
       \<and> rb_size rb' = rb_size rb \<and> rb_list rb' = tl (rb_list rb)"
  using assms rb_hd [OF assms] rb_list_step_read [OF assms] rb_inv_step_read [OF assms]
  by (simp add: fs_rb_pop_back_def rb_empty_iff)

lemma rb_unwrite:
  assumes inv: "rb_inv rb" and ne: "rb_list rb \<noteq> []"
  defines "w \<equiv> (if rb_write rb > 0 then rb_write rb - 1 else rb_size rb - 1)"
  shows "rb_inv (rb\<lparr>rb_write := w\<rparr>) \<and> rb_list (rb\<lparr>rb_write := w\<rparr>) = butlast (rb_list rb)
    \<and> buf_get (rb_buffer rb) w = Some (last (rb_list rb))"
proof -
  let ?n = "unat (rb_size rb)" and ?r = "unat (rb_read rb)"
  obtain c where c: "rb_count rb = Suc c"
    using ne by (cases "rb_count rb") (auto simp: rb_list_def ring_def)
  have n: "0 < ?n" and W: "unat (rb_write rb) = (?r + Suc c) mod ?n"
    using rb_write_eq [OF inv] c inv by (auto simp: rb_inv_def)
  have w: "unat w = (if unat (rb_write rb) = 0 then ?n else unat (rb_write rb)) - 1"
    using n by (auto simp: w_def word_less_nat_alt unat_minus_u32)
  have wc: "unat w = (?r + c) mod ?n"
    using w W n by (auto simp: mod_Suc split: if_splits)
  have inv': "rb_inv (rb\<lparr>rb_write := w\<rparr>)" using inv wc n by (simp add: rb_inv_def)
  moreover have cnt: "rb_count (rb\<lparr>rb_write := w\<rparr>) = c"
    using wc c rb_count_less [OF inv] by (intro rb_count_unique [OF inv']) simp_all
  moreover have "length (rb_buffer rb) = ?n" using inv by (simp add: rb_inv_def)
  ultimately show ?thesis
    using c wc n by (simp add: rb_list_def ring_Suc buf_get_def)
qed

lemma fs_rb_pop_front_ok:
  assumes "rb_inv rb"
  shows "\<exists>rb'. fs_rb_pop_front init rb
     = Some (if rb_list rb = [] then init else last (rb_list rb), rb') \<and> rb_inv rb'
       \<and> rb_size rb' = rb_size rb \<and> rb_list rb' = butlast (rb_list rb)"
  using assms rb_unwrite [OF assms]
  by (simp add: fs_rb_pop_front_def rb_empty_iff del: word_gt_0)

lemma fs_rb_front_ok:
  "rb_inv rb \<Longrightarrow> fs_rb_front init rb = Some (if rb_list rb = [] then init else last (rb_list rb))"
  using rb_unwrite [of rb] by (simp add: fs_rb_front_def rb_empty_iff del: word_gt_0)

lemma fs_rb_back_ok:
  "rb_inv rb \<Longrightarrow> fs_rb_back init rb = Some (if rb_list rb = [] then init else hd (rb_list rb))"
  using rb_hd [of rb] by (simp add: fs_rb_back_def rb_empty_iff)

section \<open>Properties\<close>

text \<open>
  Any interleaving of the operations: the keyboard interrupt pushes, and readers take or look at
  items at either end. A run gives the results of the operations that return an item.
\<close>

datatype 'a rb_op = Push_front 'a | Pop_back | Pop_front | Back | Front

fun rb_apply :: "'a \<Rightarrow> 'a rb_op \<Rightarrow> 'a fs_rb \<Rightarrow> ('a list \<times> 'a fs_rb) option" where
  "rb_apply init (Push_front x) rb = do { rb \<leftarrow> fs_rb_push_front rb x; Some ([], rb) }"
| "rb_apply init Pop_back rb = do { (x, rb) \<leftarrow> fs_rb_pop_back init rb; Some ([x], rb) }"
| "rb_apply init Pop_front rb = do { (x, rb) \<leftarrow> fs_rb_pop_front init rb; Some ([x], rb) }"
| "rb_apply init Back rb = do { x \<leftarrow> fs_rb_back init rb; Some ([x], rb) }"
| "rb_apply init Front rb = do { x \<leftarrow> fs_rb_front init rb; Some ([x], rb) }"

fun rb_run :: "'a \<Rightarrow> 'a rb_op list \<Rightarrow> 'a fs_rb \<Rightarrow> ('a list \<times> 'a fs_rb) option" where
  "rb_run init [] rb = Some ([], rb)"
| "rb_run init (a # as) rb = do {
     (xs, rb) \<leftarrow> rb_apply init a rb;
     (ys, rb) \<leftarrow> rb_run init as rb;
     Some (xs @ ys, rb)
   }"

text \<open>The same operations on a list of at most \<open>cap\<close> items, oldest first.\<close>

fun dq_apply :: "'a \<Rightarrow> nat \<Rightarrow> 'a rb_op \<Rightarrow> 'a list \<Rightarrow> 'a list \<times> 'a list" where
  "dq_apply init cap (Push_front x) q = ([], dq_push cap q x)"
| "dq_apply init cap Pop_back q = ([if q = [] then init else hd q], tl q)"
| "dq_apply init cap Pop_front q = ([if q = [] then init else last q], butlast q)"
| "dq_apply init cap Back q = ([if q = [] then init else hd q], q)"
| "dq_apply init cap Front q = ([if q = [] then init else last q], q)"

fun dq_run :: "'a \<Rightarrow> nat \<Rightarrow> 'a rb_op list \<Rightarrow> 'a list \<Rightarrow> 'a list \<times> 'a list" where
  "dq_run init cap [] q = ([], q)"
| "dq_run init cap (a # as) q =
     (let (xs, q) = dq_apply init cap a q; (ys, q) = dq_run init cap as q in (xs @ ys, q))"

lemma rb_apply_ok:
  assumes "rb_inv rb" and "1 < unat (rb_size rb)"
  shows "\<exists>xs rb'. rb_apply init a rb = Some (xs, rb') \<and> rb_inv rb' \<and> rb_size rb' = rb_size rb
    \<and> dq_apply init (unat (rb_size rb) - 1) a (rb_list rb) = (xs, rb_list rb')"
proof (cases a)
  case (Push_front x)
  then show ?thesis using fs_rb_push_front_ok [OF assms, of x] by auto
next
  case Pop_back
  then show ?thesis using fs_rb_pop_back_ok [OF assms(1), of init] by auto
next
  case Pop_front
  then show ?thesis using fs_rb_pop_front_ok [OF assms(1), of init] by auto
next
  case Back
  then show ?thesis using assms fs_rb_back_ok [OF assms(1), of init] by auto
next
  case Front
  then show ?thesis using assms fs_rb_front_ok [OF assms(1), of init] by auto
qed

lemma rb_run_ok:
  assumes "rb_inv rb" and "1 < unat (rb_size rb)"
  shows "\<exists>xs rb'. rb_run init as rb = Some (xs, rb') \<and> rb_inv rb'
    \<and> dq_run init (unat (rb_size rb) - 1) as (rb_list rb) = (xs, rb_list rb')"
  using assms
proof (induction as arbitrary: rb)
  case (Cons a as)
  obtain xs rb1 where rb1: "rb_apply init a rb = Some (xs, rb1)" "rb_inv rb1" "rb_size rb1 = rb_size rb"
    "dq_apply init (unat (rb_size rb) - 1) a (rb_list rb) = (xs, rb_list rb1)"
    using rb_apply_ok [OF Cons.prems, of init a] by blast
  obtain ys rb2 where "rb_run init as rb1 = Some (ys, rb2)" "rb_inv rb2"
    "dq_run init (unat (rb_size rb1) - 1) as (rb_list rb1) = (ys, rb_list rb2)"
    using Cons.IH [OF rb1(2)] Cons.prems(2) rb1(3) by auto
  then show ?case using rb1 by simp
qed simp

text \<open>
  C15. A ring buffer of length \<open>len\<close> is a queue of capacity \<open>len - 1\<close> that forgets its oldest item
  when it is full: every sequence of pushes, pops and looks at both ends, in any order, on a fresh buffer
  gives the results that it gives on a list of items, and leaves the items of that list in the buffer. No access
  is outside the array.
\<close>

theorem fs_rb_fifo:
  assumes "1 < unat len"
  shows "\<exists>xs rb'. rb_run init as (fs_rb_init rb len fill) = Some (xs, rb')
    \<and> dq_run init (unat len - 1) as [] = (xs, rb_list rb')"
proof -
  have "rb_inv (fs_rb_init rb len fill)" "rb_list (fs_rb_init rb len fill) = []" "rb_size (fs_rb_init rb len fill) = len"
    using fs_rb_init_ok [of len rb fill] assms by (auto simp: fs_rb_init_def)
  then show ?thesis using rb_run_ok [of "fs_rb_init rb len fill" init as] assms by auto
qed

theorem fs_rb_fifo_witness:
  "\<exists>rb'. rb_run (-1) [Push_front 10, Push_front 20, Pop_back, Push_front 30, Push_front 40, Push_front 50, Pop_back, Front,
       Pop_back, Pop_back, Pop_back] (fs_rb_init \<lparr>rb_size = 0, rb_read = 0, rb_write = 0, rb_buffer = []\<rparr> 4 (-1 :: int))
     = Some ([10, 30, 50, 40, 50, -1], rb') \<and> rb_list rb' = []"
  using fs_rb_fifo [of 4 "-1 :: int" "[Push_front 10, Push_front 20, Pop_back, Push_front 30, Push_front 40, Push_front 50, Pop_back, Front,
       Pop_back, Pop_back, Pop_back]" "\<lparr>rb_size = 0, rb_read = 0, rb_write = 0, rb_buffer = []\<rparr>" "-1"]
  by (auto simp: dq_push_def simp del: rb_run.simps)

end
