(* ===== verification/Ctype.thy ===== *)
theory Ctype
  imports Prelude
begin

text \<open>
  The character classes of \<^verbatim>\<open>src/kernel/lib/ctype.c\<close>. A C \<^verbatim>\<open>int\<close> holding a character is an
  \<open>int\<close>; a function that answers 0 or 1 is a predicate.
\<close>

definition OFFSET :: int where
  "OFFSET = 32"

definition isdigit :: "int \<Rightarrow> bool" where
  "isdigit c \<longleftrightarrow> c \<ge> 48 \<and> c \<le> 57"

definition isalpha :: "int \<Rightarrow> bool" where
  "isalpha c \<longleftrightarrow> (c \<ge> 65 \<and> c \<le> 90) \<or> (c \<ge> 97 \<and> c \<le> 122)"

definition iscntrl :: "int \<Rightarrow> bool" where
  "iscntrl c \<longleftrightarrow> (c \<ge> 0 \<and> c \<le> 31) \<or> c = 127"

definition isalnum :: "int \<Rightarrow> bool" where
  "isalnum c \<longleftrightarrow> isalpha c \<or> isdigit c"

definition isxdigit :: "int \<Rightarrow> bool" where
  "isxdigit c \<longleftrightarrow> isdigit c \<or> (c \<ge> 65 \<and> c \<le> 70)"

definition islower :: "int \<Rightarrow> bool" where
  "islower c \<longleftrightarrow> c \<ge> 97 \<and> c \<le> 122"

definition isupper :: "int \<Rightarrow> bool" where
  "isupper c \<longleftrightarrow> c \<ge> 65 \<and> c \<le> 90"

definition tolower :: "int \<Rightarrow> int" where
  "tolower c = (if \<not> isalpha c \<or> islower c then c else c + OFFSET)"

definition toupper :: "int \<Rightarrow> int" where
  "toupper c = (if \<not> isalpha c \<or> isupper c then c else c - OFFSET)"

definition isspace :: "int \<Rightarrow> bool" where
  "isspace c \<longleftrightarrow> c = 32"

lemmas ctype_defs = isdigit_def isalpha_def iscntrl_def isalnum_def isxdigit_def islower_def
  isupper_def tolower_def toupper_def OFFSET_def isspace_def

lemma tolower_toupper: "isalpha c \<Longrightarrow> tolower (toupper c) = tolower c"
  by (auto simp: ctype_defs)

lemma toupper_tolower: "isalpha c \<Longrightarrow> toupper (tolower c) = toupper c"
  by (auto simp: ctype_defs)

lemma toupper_idem [simp]: "toupper (toupper c) = toupper c"
  by (auto simp: ctype_defs)

lemma tolower_idem [simp]: "tolower (tolower c) = tolower c"
  by (auto simp: ctype_defs)

lemma isupper_toupper: "isalpha c \<Longrightarrow> isupper (toupper c)"
  by (auto simp: ctype_defs)

lemma islower_tolower: "isalpha c \<Longrightarrow> islower (tolower c)"
  by (auto simp: ctype_defs)

text \<open>The hexadecimal digits in lower case are not accepted.\<close>

lemma isxdigit_lower: "islower c \<Longrightarrow> \<not> isxdigit c"
  by (auto simp: ctype_defs)

end
