(* ===== verification/Bitops.thy ===== *)
theory Bitops
  imports Prelude
begin

text \<open>
  The bit macros of \<^verbatim>\<open>include/kernel/bitops.h\<close> on 32-bit words. The number of a bit is a
  natural number; the macros are used with numbers below 32 only, where the shift is
  defined.
\<close>

definition bit_set :: "u32 \<Rightarrow> nat \<Rightarrow> u32" where
  "bit_set V B = V OR push_bit B 1"

definition bit_clear :: "u32 \<Rightarrow> nat \<Rightarrow> u32" where
  "bit_clear V B = V AND NOT (push_bit B 1)"

definition bit_flip :: "u32 \<Rightarrow> nat \<Rightarrow> u32" where
  "bit_flip V B = V XOR push_bit B 1"

definition bit_check :: "u32 \<Rightarrow> nat \<Rightarrow> u32" where
  "bit_check V B = V AND push_bit B 1"

definition bitmask_set :: "u32 \<Rightarrow> u32 \<Rightarrow> u32" where
  "bitmask_set V M = V OR M"

definition bitmask_clear :: "u32 \<Rightarrow> u32 \<Rightarrow> u32" where
  "bitmask_clear V M = V AND NOT M"

definition bitmask_flip :: "u32 \<Rightarrow> u32 \<Rightarrow> u32" where
  "bitmask_flip V M = V XOR M"

definition bitmask_check :: "u32 \<Rightarrow> u32 \<Rightarrow> u32" where
  "bitmask_check V M = V AND M"

function find_first_zero_loop :: "u32 \<Rightarrow> nat \<Rightarrow> nat" where
  "find_first_zero_loop v i =
     (if i < 32 then (if bit_check v i = 0 then i else find_first_zero_loop v (i + 1)) else 0)"
  by pat_completeness auto

termination find_first_zero_loop
  by (relation "measure (\<lambda>(v, i). 32 - i)") auto

definition find_first_zero :: "u32 \<Rightarrow> nat" where
  "find_first_zero v = find_first_zero_loop v 0"

function find_first_non_zero_loop :: "u32 \<Rightarrow> nat \<Rightarrow> nat" where
  "find_first_non_zero_loop v i =
     (if i < 32 then (if bit_check v i \<noteq> 0 then i else find_first_non_zero_loop v (i + 1)) else 0)"
  by pat_completeness auto

termination find_first_non_zero_loop
  by (relation "measure (\<lambda>(v, i). 32 - i)") auto

definition find_first_non_zero :: "u32 \<Rightarrow> nat" where
  "find_first_non_zero v = find_first_non_zero_loop v 0"

declare find_first_zero_loop.simps [simp del] find_first_non_zero_loop.simps [simp del]

section \<open>Reading bits\<close>

lemma bit_one_shift: "bit (2 ^ b :: u32) i \<longleftrightarrow> i = b \<and> b < 32"
  by (auto simp: bit_exp_iff)

lemma bit_check_iff [simp]: "b < 32 \<Longrightarrow> bit_check v b \<noteq> 0 \<longleftrightarrow> bit v b"
proof -
  assume b: "b < 32"
  have "bit (bit_check v b) i \<longleftrightarrow> bit v b \<and> i = b" for i
    using b by (auto simp: bit_check_def bit_and_iff bit_one_shift)
  then show ?thesis by (metis bit_0_eq bot_apply bot_bool_def bit_eqI)
qed

lemma bit_check_eq0_iff [simp]: "b < 32 \<Longrightarrow> bit_check v b = 0 \<longleftrightarrow> \<not> bit v b"
  using bit_check_iff [of b v] by blast

lemma bit_bit_set [simp]: "b < 32 \<Longrightarrow> bit (bit_set v b) i \<longleftrightarrow> i = b \<or> bit v i"
  by (auto simp: bit_set_def bit_or_iff bit_one_shift)

lemma bit_bit_clear [simp]: "b < 32 \<Longrightarrow> bit (bit_clear v b) i \<longleftrightarrow> i \<noteq> b \<and> bit v i"
  by (auto simp: bit_clear_def bit_and_iff bit_not_iff bit_one_shift dest: bit_imp_le_length)

lemma bit_bit_flip [simp]: "b < 32 \<Longrightarrow> bit (bit_flip v b) i \<longleftrightarrow> (if i = b then \<not> bit v b else bit v i)"
  by (auto simp: bit_flip_def bit_xor_iff bit_one_shift)

lemma find_first_non_zero_loop_spec:
  assumes "\<forall>j<i. \<not> bit v j" and "v \<noteq> 0" and "i \<le> 32"
  shows "find_first_non_zero_loop v i < 32 \<and> bit v (find_first_non_zero_loop v i)
    \<and> (\<forall>j < find_first_non_zero_loop v i. \<not> bit v j)"
  using assms
proof (induction v i rule: find_first_non_zero_loop.induct)
  case (1 v i)
  have "\<exists>j. bit v j" using 1 by (metis bit_eqI bit_0_eq bot_apply bot_bool_def)
  then have "i < 32" using 1 bit_imp_le_length [of v] by (cases "i = 32") auto
  then show ?case
    using 1 by (subst (1 2 3) find_first_non_zero_loop.simps) (auto simp: less_Suc_eq)
qed

lemma find_first_non_zero_spec:
  assumes "v \<noteq> 0"
  shows "find_first_non_zero v < 32" and "bit v (find_first_non_zero v)"
    and "j < find_first_non_zero v \<Longrightarrow> \<not> bit v j"
  using find_first_non_zero_loop_spec [of 0 v] assms by (auto simp: find_first_non_zero_def)

lemma find_first_zero_loop_compl:
  "find_first_zero_loop v i = find_first_non_zero_loop (NOT v) i"
proof (induction v i rule: find_first_zero_loop.induct)
  case (1 v i)
  then show ?case
    by (subst find_first_zero_loop.simps, subst find_first_non_zero_loop.simps)
       (auto simp: bit_not_iff)
qed

text \<open>A word without a zero bit gives 0, as does a word whose lowest bit is zero.\<close>

lemma find_first_zero_spec:
  assumes "v \<noteq> - 1"
  shows "find_first_zero v < 32" and "\<not> bit v (find_first_zero v)"
    and "j < find_first_zero v \<Longrightarrow> bit v j"
proof -
  have "NOT v \<noteq> 0" using assms by (metis bit.compl_zero bit.double_compl)
  note f = find_first_non_zero_spec [OF this]
  have e: "find_first_zero v = find_first_non_zero (NOT v)"
    by (simp add: find_first_zero_def find_first_non_zero_def find_first_zero_loop_compl)
  show "find_first_zero v < 32" using f(1) e by simp
  show "\<not> bit v (find_first_zero v)" using f(1,2) e by (simp add: bit_not_iff)
  show "j < find_first_zero v \<Longrightarrow> bit v j" using f(1) f(3) [of j] e by (simp add: bit_not_iff)
qed

lemma find_first_zero_full: "find_first_zero (- 1) = 0"
proof -
  have "find_first_non_zero_loop 0 i = 0" for i
  proof (induction "0 :: u32" i rule: find_first_non_zero_loop.induct)
    case (1 i)
    then show ?case by (subst find_first_non_zero_loop.simps) auto
  qed
  then show ?thesis by (simp add: find_first_zero_def find_first_zero_loop_compl)
qed

end
