(* ===== verification/Cstring.thy ===== *)
theory Cstring
  imports Ctype Bitops
begin

text \<open>
  The string and memory routines of \<^verbatim>\<open>src/kernel/misc/string.c\<close> over a byte memory: a partial
  map from 32-bit addresses to bytes. Reading or writing an address outside the map gives
  \<open>None\<close>. A loop that counts down a \<^verbatim>\<open>size_t\<close> recurses on the count, a loop that stops at a
  byte of the memory is a \<open>partial_function\<close>, whose value is \<open>None\<close> when the loop does not end.

  \<^verbatim>\<open>char\<close> is signed on the target: a byte used as a number is \<open>sint\<close>, or \<open>uint\<close> after a cast to
  \<^verbatim>\<open>unsigned char\<close>.

  \<^verbatim>\<open>itoa\<close> and \<^verbatim>\<open>to_human_size\<close>, which format numbers, are left out.

  \<open>cstr M p s\<close> says that a C string with the characters \<open>s\<close> is at \<open>p\<close>, \<open>bytes M p xs\<close> that the
  bytes \<open>xs\<close> are there.
\<close>

type_synonym cmem = "addr \<rightharpoonup> u8"

definition st :: "cmem \<Rightarrow> addr \<Rightarrow> u8 \<Rightarrow> cmem option" where
  "st M p v = (if M p = None then None else Some (M(p \<mapsto> v)))"

abbreviation (input) NUL :: u8 where
  "NUL \<equiv> 0"

section \<open>Copying and comparing with a bound\<close>

fun strncpy_copy :: "cmem \<Rightarrow> addr \<Rightarrow> addr \<Rightarrow> nat \<Rightarrow> (cmem \<times> addr \<times> nat) option" where
  "strncpy_copy M destination source 0 = Some (M, destination, 0)"
| "strncpy_copy M destination source (Suc num) = do {
     c \<leftarrow> M source;
     M \<leftarrow> st M destination c;
     if c = NUL then Some (M, destination + 1, Suc num)
     else strncpy_copy M (destination + 1) (source + 1) num
   }"

fun strncpy_pad :: "cmem \<Rightarrow> addr \<Rightarrow> nat \<Rightarrow> cmem option" where
  "strncpy_pad M destination 0 = Some M"
| "strncpy_pad M destination (Suc num) = do {
     M \<leftarrow> st M destination NUL;
     strncpy_pad M (destination + 1) num
   }"

definition strncpy :: "cmem \<Rightarrow> addr \<Rightarrow> addr \<Rightarrow> u32 \<Rightarrow> (addr \<times> cmem) option" where
  "strncpy M destination source num = do {
     (M, d, n) \<leftarrow> strncpy_copy M destination source (unat num);
     M \<leftarrow> (if n \<noteq> 0 then strncpy_pad M d (n - 1) else Some M);
     Some (destination, M)
   }"

text \<open>The loop of \<^verbatim>\<open>strncmp\<close>, entered with \<open>n\<close> not yet decremented.\<close>

fun strncmp_loop :: "cmem \<Rightarrow> addr \<Rightarrow> addr \<Rightarrow> nat \<Rightarrow> (addr \<times> addr) option" where
  "strncmp_loop M s1 s2 n =
     (if n - 1 > 0 then do {
        a \<leftarrow> M s1;
        if a = NUL then Some (s1, s2)
        else do {
          b \<leftarrow> M s2;
          if b = NUL \<or> a \<noteq> b then Some (s1, s2)
          else strncmp_loop M (s1 + 1) (s2 + 1) (n - 1)
        }
      }
      else Some (s1, s2))"

definition strncmp :: "cmem \<Rightarrow> addr \<Rightarrow> addr \<Rightarrow> u32 \<Rightarrow> int option" where
  "strncmp M s1 s2 n =
     (if n = 0 then Some 0
      else do {
        (s1, s2) \<leftarrow> strncmp_loop M s1 s2 (unat n);
        a \<leftarrow> M s1;
        b \<leftarrow> M s2;
        Some (uint a - uint b)
      })"

partial_function (option) stricmp :: "cmem \<Rightarrow> addr \<Rightarrow> addr \<Rightarrow> int option" where
  "stricmp M s1 s2 = do {
     b \<leftarrow> M s2;
     a \<leftarrow> M s1;
     if b \<noteq> NUL \<and> toupper (sint a) = toupper (sint b) then stricmp M (s1 + 1) (s2 + 1)
     else Some (toupper (sint a) - toupper (sint b))
   }"

definition fold_upper :: "u8 \<Rightarrow> int" where
  "fold_upper c = (if uint c \<ge> 65 \<and> uint c \<le> 90 then uint c - (65 - 97) else uint c)"

text \<open>\<open>n\<close> counts down with wrap-around, so that \<open>n = 0\<close> does not stop the loop.\<close>

partial_function (option) strnicmp :: "cmem \<Rightarrow> addr \<Rightarrow> addr \<Rightarrow> u32 \<Rightarrow> int option" where
  "strnicmp M s1 s2 n = do {
     a \<leftarrow> M s1;
     b \<leftarrow> M s2;
     let f = fold_upper a;
     let l = fold_upper b;
     if n - 1 \<noteq> 0 \<and> f \<noteq> 0 \<and> f = l then strnicmp M (s1 + 1) (s2 + 1) (n - 1)
     else Some (f - l)
   }"

section \<open>Searching\<close>

text \<open>The null pointer stands for \<^emph>\<open>not found\<close>.\<close>

partial_function (option) strchr :: "cmem \<Rightarrow> addr \<Rightarrow> int \<Rightarrow> addr option" where
  "strchr M s ch = do {
     c \<leftarrow> M s;
     if c \<noteq> NUL \<and> c \<noteq> word_of_int ch then strchr M (s + 1) ch
     else Some (if c = word_of_int ch then s else NULL)
   }"

text \<open>The loop \<^verbatim>\<open>while (*s++) {}\<close>: one past the terminator.\<close>

partial_function (option) skip_string :: "cmem \<Rightarrow> addr \<Rightarrow> addr option" where
  "skip_string M s = do {
     c \<leftarrow> M s;
     if c \<noteq> NUL then skip_string M (s + 1) else Some (s + 1)
   }"

partial_function (option) strrchr_back :: "cmem \<Rightarrow> addr \<Rightarrow> addr \<Rightarrow> int \<Rightarrow> addr option" where
  "strrchr_back M start s ch =
     (if s - 1 \<noteq> start then do {
        c \<leftarrow> M (s - 1);
        if c \<noteq> word_of_int ch then strrchr_back M start (s - 1) ch else Some (s - 1)
      }
      else Some (s - 1))"

definition strrchr :: "cmem \<Rightarrow> addr \<Rightarrow> int \<Rightarrow> addr option" where
  "strrchr M s ch = do {
     e \<leftarrow> skip_string M s;
     s \<leftarrow> strrchr_back M s e ch;
     c \<leftarrow> M s;
     Some (if c = word_of_int ch then s else NULL)
   }"

partial_function (option) strstr_match :: "cmem \<Rightarrow> addr \<Rightarrow> addr \<Rightarrow> addr option" where
  "strstr_match M s1 s2 = do {
     a \<leftarrow> M s1;
     if a = NUL then Some s2
     else do {
       b \<leftarrow> M s2;
       if b \<noteq> NUL \<and> a = b then strstr_match M (s1 + 1) (s2 + 1) else Some s2
     }
   }"

partial_function (option) strstr_loop :: "cmem \<Rightarrow> addr \<Rightarrow> addr \<Rightarrow> addr option" where
  "strstr_loop M cp str2 = do {
     c \<leftarrow> M cp;
     if c \<noteq> NUL then do {
       s2 \<leftarrow> strstr_match M cp str2;
       b \<leftarrow> M s2;
       if b = NUL then Some cp else strstr_loop M (cp + 1) str2
     }
     else Some NULL
   }"

definition strstr :: "cmem \<Rightarrow> addr \<Rightarrow> addr \<Rightarrow> addr option" where
  "strstr M str1 str2 = do {
     b \<leftarrow> M str2;
     if b = NUL then Some str1 else strstr_loop M str1 str2
   }"

text \<open>
  \<^verbatim>\<open>strspn\<close>, \<^verbatim>\<open>strcspn\<close>, \<^verbatim>\<open>strpbrk\<close> and \<^verbatim>\<open>strtok_r\<close> keep a set of characters in an array of 32
  bytes, indexed by \<^verbatim>\<open>c >> 3\<close>. The index is negative for a character above 127.
\<close>

definition cmap_index :: "u8 \<Rightarrow> nat option" where
  "cmap_index c = (if sint c < 0 then None else Some (nat (sint c div 8)))"

definition cmap_set :: "u8 list \<Rightarrow> u8 \<Rightarrow> u8 list option" where
  "cmap_set m c = do {
     i \<leftarrow> cmap_index c;
     Some (m[i := m ! i OR push_bit (unat (c AND 7)) 1])
   }"

definition cmap_test :: "u8 list \<Rightarrow> u8 \<Rightarrow> bool option" where
  "cmap_test m c = do {
     i \<leftarrow> cmap_index c;
     Some (m ! i AND push_bit (unat (c AND 7)) 1 \<noteq> 0)
   }"

partial_function (option) cmap_fill :: "cmem \<Rightarrow> u8 list \<Rightarrow> addr \<Rightarrow> u8 list option" where
  "cmap_fill M m ctrl = do {
     c \<leftarrow> M ctrl;
     if c \<noteq> NUL then do {
       m \<leftarrow> cmap_set m c;
       cmap_fill M m (ctrl + 1)
     }
     else Some m
   }"

definition cmap_zero :: "u8 list" where
  "cmap_zero = replicate 32 0"

partial_function (option) strspn_loop :: "cmem \<Rightarrow> u8 list \<Rightarrow> addr \<Rightarrow> u32 \<Rightarrow> u32 option" where
  "strspn_loop M m str n = do {
     c \<leftarrow> M str;
     b \<leftarrow> cmap_test m c;
     if b then strspn_loop M m (str + 1) (n + 1) else Some n
   }"

definition strspn :: "cmem \<Rightarrow> addr \<Rightarrow> addr \<Rightarrow> u32 option" where
  "strspn M str control = do {
     m \<leftarrow> cmap_fill M cmap_zero control;
     c \<leftarrow> M str;
     if c \<noteq> NUL then strspn_loop M m str 0 else Some 0
   }"

partial_function (option) strcspn_loop :: "cmem \<Rightarrow> u8 list \<Rightarrow> addr \<Rightarrow> u32 \<Rightarrow> u32 option" where
  "strcspn_loop M m str n = do {
     c \<leftarrow> M str;
     b \<leftarrow> cmap_test m c;
     if \<not> b then strcspn_loop M m (str + 1) (n + 1) else Some n
   }"

definition strcspn :: "cmem \<Rightarrow> addr \<Rightarrow> addr \<Rightarrow> u32 option" where
  "strcspn M str control = do {
     m \<leftarrow> cmap_fill M cmap_zero control;
     strcspn_loop M (m[0 := m ! 0 OR 1]) str 0
   }"

partial_function (option) strpbrk_loop :: "cmem \<Rightarrow> u8 list \<Rightarrow> addr \<Rightarrow> addr option" where
  "strpbrk_loop M m str = do {
     c \<leftarrow> M str;
     if c \<noteq> NUL then do {
       b \<leftarrow> cmap_test m c;
       if b then Some str else strpbrk_loop M m (str + 1)
     }
     else Some NULL
   }"

definition strpbrk :: "cmem \<Rightarrow> addr \<Rightarrow> addr \<Rightarrow> addr option" where
  "strpbrk M str control = do {
     m \<leftarrow> cmap_fill M cmap_zero control;
     strpbrk_loop M m str
   }"

section \<open>Blocks of memory\<close>

fun memmove_up :: "cmem \<Rightarrow> addr \<Rightarrow> addr \<Rightarrow> nat \<Rightarrow> cmem option" where
  "memmove_up M dst src 0 = Some M"
| "memmove_up M dst src (Suc n) = do {
     c \<leftarrow> M src;
     M \<leftarrow> st M dst c;
     memmove_up M (dst + 1) (src + 1) n
   }"

fun memmove_down :: "cmem \<Rightarrow> addr \<Rightarrow> addr \<Rightarrow> nat \<Rightarrow> cmem option" where
  "memmove_down M dst src 0 = Some M"
| "memmove_down M dst src (Suc n) = do {
     c \<leftarrow> M src;
     M \<leftarrow> st M dst c;
     memmove_down M (dst - 1) (src - 1) n
   }"

definition memmove :: "cmem \<Rightarrow> addr \<Rightarrow> addr \<Rightarrow> u32 \<Rightarrow> (addr \<times> cmem) option" where
  "memmove M dst src n = do {
     M \<leftarrow> (if dst \<le> src \<or> dst \<ge> src + n then memmove_up M dst src (unat n)
          else memmove_down M (dst + n - 1) (src + n - 1) (unat n));
     Some (dst, M)
   }"

fun memchr_loop :: "cmem \<Rightarrow> addr \<Rightarrow> int \<Rightarrow> nat \<Rightarrow> addr option" where
  "memchr_loop M p ch 0 = Some NULL"
| "memchr_loop M p ch (Suc n) = do {
     c \<leftarrow> M p;
     if c \<noteq> word_of_int ch then memchr_loop M (p + 1) ch n else Some p
   }"

definition memchr :: "cmem \<Rightarrow> addr \<Rightarrow> int \<Rightarrow> u32 \<Rightarrow> addr option" where
  "memchr M p ch n = memchr_loop M p ch (unat n)"

fun memset_loop :: "cmem \<Rightarrow> addr \<Rightarrow> u8 \<Rightarrow> nat \<Rightarrow> cmem option" where
  "memset_loop M dst v 0 = Some M"
| "memset_loop M dst v (Suc num) = do {
     M \<leftarrow> st M dst v;
     memset_loop M (dst + 1) v num
   }"

definition memset :: "cmem \<Rightarrow> addr \<Rightarrow> int \<Rightarrow> u32 \<Rightarrow> (addr \<times> cmem) option" where
  "memset M p v num = do {
     M \<leftarrow> memset_loop M p (word_of_int (v AND 0xFF)) (unat num);
     Some (p, M)
   }"

fun memcmp_loop :: "cmem \<Rightarrow> addr \<Rightarrow> addr \<Rightarrow> nat \<Rightarrow> (addr \<times> addr) option" where
  "memcmp_loop M dst src n =
     (if n - 1 > 0 then do {
        a \<leftarrow> M dst;
        b \<leftarrow> M src;
        if a = b then memcmp_loop M (dst + 1) (src + 1) (n - 1) else Some (dst, src)
      }
      else Some (dst, src))"

definition memcmp :: "cmem \<Rightarrow> addr \<Rightarrow> addr \<Rightarrow> u32 \<Rightarrow> int option" where
  "memcmp M dst src n =
     (if n = 0 then Some 0
      else do {
        (dst, src) \<leftarrow> memcmp_loop M dst src (unat n);
        a \<leftarrow> M dst;
        b \<leftarrow> M src;
        Some (uint a - uint b)
      })"

fun memcpy_loop :: "cmem \<Rightarrow> addr \<Rightarrow> addr \<Rightarrow> nat \<Rightarrow> cmem option" where
  "memcpy_loop M dst src 0 = Some M"
| "memcpy_loop M dst src (Suc num) = do {
     c \<leftarrow> M src;
     M \<leftarrow> st M dst c;
     memcpy_loop M (dst + 1) (src + 1) num
   }"

definition memcpy :: "cmem \<Rightarrow> addr \<Rightarrow> addr \<Rightarrow> u32 \<Rightarrow> (addr \<times> cmem) option" where
  "memcpy M dst src num = do {
     M \<leftarrow> memcpy_loop M dst src (unat num);
     Some (dst, M)
   }"

fun memccpy_loop :: "cmem \<Rightarrow> addr \<Rightarrow> addr \<Rightarrow> int \<Rightarrow> nat \<Rightarrow> (addr \<times> cmem) option" where
  "memccpy_loop M dst src c 0 = Some (NULL, M)"
| "memccpy_loop M dst src c (Suc n) = do {
     v \<leftarrow> M src;
     M \<leftarrow> st M dst v;
     if v \<noteq> word_of_int c then memccpy_loop M (dst + 1) (src + 1) c n
     else Some (dst + 1, M)
   }"

definition memccpy :: "cmem \<Rightarrow> addr \<Rightarrow> addr \<Rightarrow> int \<Rightarrow> u32 \<Rightarrow> (addr \<times> cmem) option" where
  "memccpy M dst src c n = memccpy_loop M dst src c (unat n)"

section \<open>Whole strings\<close>

partial_function (option) strlwr_loop :: "cmem \<Rightarrow> addr \<Rightarrow> cmem option" where
  "strlwr_loop M p = do {
     c \<leftarrow> M p;
     if c \<noteq> NUL then do {
       M \<leftarrow> st M p (word_of_int (tolower (sint c)));
       strlwr_loop M (p + 1)
     }
     else Some M
   }"

definition strlwr :: "cmem \<Rightarrow> addr \<Rightarrow> (addr \<times> cmem) option" where
  "strlwr M s = do { M \<leftarrow> strlwr_loop M s; Some (s, M) }"

partial_function (option) strupr_loop :: "cmem \<Rightarrow> addr \<Rightarrow> cmem option" where
  "strupr_loop M p = do {
     c \<leftarrow> M p;
     if c \<noteq> NUL then do {
       M \<leftarrow> st M p (word_of_int (toupper (sint c)));
       strupr_loop M (p + 1)
     }
     else Some M
   }"

definition strupr :: "cmem \<Rightarrow> addr \<Rightarrow> (addr \<times> cmem) option" where
  "strupr M s = do { M \<leftarrow> strupr_loop M s; Some (s, M) }"

text \<open>The loop \<^verbatim>\<open>while (*cp) { cp++; }\<close>: the address of the terminator.\<close>

partial_function (option) string_end :: "cmem \<Rightarrow> addr \<Rightarrow> addr option" where
  "string_end M p = do {
     c \<leftarrow> M p;
     if c \<noteq> NUL then string_end M (p + 1) else Some p
   }"

partial_function (option) strcpy_loop :: "cmem \<Rightarrow> addr \<Rightarrow> addr \<Rightarrow> cmem option" where
  "strcpy_loop M dst src = do {
     c \<leftarrow> M src;
     M \<leftarrow> st M dst c;
     if c \<noteq> NUL then strcpy_loop M (dst + 1) (src + 1) else Some M
   }"

definition strcpy :: "cmem \<Rightarrow> addr \<Rightarrow> addr \<Rightarrow> (addr \<times> cmem) option" where
  "strcpy M dst src = do { M \<leftarrow> strcpy_loop M dst src; Some (dst, M) }"

definition strcat :: "cmem \<Rightarrow> addr \<Rightarrow> addr \<Rightarrow> (addr \<times> cmem) option" where
  "strcat M dst src = do {
     cp \<leftarrow> string_end M dst;
     M \<leftarrow> strcpy_loop M cp src;
     Some (dst, M)
   }"

fun strncat_loop :: "cmem \<Rightarrow> addr \<Rightarrow> addr \<Rightarrow> nat \<Rightarrow> cmem option" where
  "strncat_loop M s1 s2 0 = st M s1 NUL"
| "strncat_loop M s1 s2 (Suc n) = do {
     c \<leftarrow> M s2;
     M \<leftarrow> st M s1 c;
     if c = NUL then Some M else strncat_loop M (s1 + 1) (s2 + 1) n
   }"

definition strncat :: "cmem \<Rightarrow> addr \<Rightarrow> addr \<Rightarrow> u32 \<Rightarrow> (addr \<times> cmem) option" where
  "strncat M s1 s2 n = do {
     e \<leftarrow> skip_string M s1;
     M \<leftarrow> strncat_loop M (e - 1) s2 (unat n);
     Some (s1, M)
   }"

text \<open>The swaps of \<^verbatim>\<open>strrev\<close>, also those of the digits of a number.\<close>

partial_function (option) strrev_loop :: "cmem \<Rightarrow> addr \<Rightarrow> addr \<Rightarrow> cmem option" where
  "strrev_loop M left s =
     (if left < s then do {
        ch \<leftarrow> M left;
        c \<leftarrow> M s;
        M \<leftarrow> st M left c;
        M \<leftarrow> st M s ch;
        strrev_loop M (left + 1) (s - 1)
      }
      else Some M)"

definition strrev :: "cmem \<Rightarrow> addr \<Rightarrow> (addr \<times> cmem) option" where
  "strrev M s = do {
     e \<leftarrow> skip_string M s;
     M \<leftarrow> strrev_loop M s (e - 2);
     Some (s, M)
   }"

definition strlen :: "cmem \<Rightarrow> addr \<Rightarrow> u32 option" where
  "strlen M s = do {
     eos \<leftarrow> string_end M s;
     Some (if sint (eos - s) < 0 then 0 else eos - s)
   }"

fun strnlen_loop :: "cmem \<Rightarrow> addr \<Rightarrow> nat \<Rightarrow> addr option" where
  "strnlen_loop M sc 0 = do { c \<leftarrow> M sc; Some sc }"
| "strnlen_loop M sc (Suc count) = do {
     c \<leftarrow> M sc;
     if c \<noteq> NUL then strnlen_loop M (sc + 1) count else Some sc
   }"

definition strnlen :: "cmem \<Rightarrow> addr \<Rightarrow> u32 \<Rightarrow> u32 option" where
  "strnlen M s count = do {
     sc \<leftarrow> strnlen_loop M s (unat count);
     Some (if sint (sc - s) < 0 then 0 else sc - s)
   }"

partial_function (option) strcmp_loop :: "cmem \<Rightarrow> addr \<Rightarrow> addr \<Rightarrow> int option" where
  "strcmp_loop M s1t s2t = do {
     a \<leftarrow> M s1t;
     b \<leftarrow> M s2t;
     let ret = sint a - sint b;
     if ret = 0 \<and> b \<noteq> NUL then strcmp_loop M (s1t + 1) (s2t + 1) else Some ret
   }"

definition strcmp :: "cmem \<Rightarrow> addr \<Rightarrow> addr \<Rightarrow> int option" where
  "strcmp M s1 s2 = do {
     ret \<leftarrow> strcmp_loop M s1 s2;
     Some (if ret < 0 then -1 else if ret > 0 then 1 else 0)
   }"

partial_function (option) strset_loop :: "cmem \<Rightarrow> addr \<Rightarrow> int \<Rightarrow> cmem option" where
  "strset_loop M s c = do {
     b \<leftarrow> M s;
     if b \<noteq> NUL then do { M \<leftarrow> st M s (word_of_int c); strset_loop M (s + 1) c } else Some M
   }"

definition strset :: "cmem \<Rightarrow> addr \<Rightarrow> int \<Rightarrow> (addr \<times> cmem) option" where
  "strset M s c = do { M \<leftarrow> strset_loop M s c; Some (s, M) }"

fun strnset_loop :: "cmem \<Rightarrow> addr \<Rightarrow> int \<Rightarrow> nat \<Rightarrow> (addr \<times> cmem) option" where
  "strnset_loop M s c 0 = Some (s, M)"
| "strnset_loop M s c (Suc n) = do {
     b \<leftarrow> M s;
     if b \<noteq> NUL then do { M \<leftarrow> st M s (word_of_int c); strnset_loop M (s + 1) c n }
     else Some (s, M)
   }"

definition strnset :: "cmem \<Rightarrow> addr \<Rightarrow> int \<Rightarrow> u32 \<Rightarrow> (addr \<times> cmem) option" where
  "strnset M s c n = strnset_loop M s c (unat n)"

section \<open>Tokens\<close>

text \<open>\<^verbatim>\<open>strtok_r\<close> puts the terminator into the set as well, with a \<^verbatim>\<open>do ... while\<close> loop.\<close>

partial_function (option) strtok_r_fill :: "cmem \<Rightarrow> u8 list \<Rightarrow> addr \<Rightarrow> u8 list option" where
  "strtok_r_fill M m ctrl = do {
     c \<leftarrow> M ctrl;
     m \<leftarrow> cmap_set m c;
     if c \<noteq> NUL then strtok_r_fill M m (ctrl + 1) else Some m
   }"

partial_function (option) strtok_r_skip :: "cmem \<Rightarrow> u8 list \<Rightarrow> addr \<Rightarrow> addr option" where
  "strtok_r_skip M m s = do {
     c \<leftarrow> M s;
     b \<leftarrow> cmap_test m c;
     if b \<and> c \<noteq> NUL then strtok_r_skip M m (s + 1) else Some s
   }"

partial_function (option) strtok_r_end :: "cmem \<Rightarrow> u8 list \<Rightarrow> addr \<Rightarrow> (addr \<times> cmem) option" where
  "strtok_r_end M m s = do {
     c \<leftarrow> M s;
     if c \<noteq> NUL then do {
       b \<leftarrow> cmap_test m c;
       if b then do { M \<leftarrow> st M s NUL; Some (s + 1, M) }
       else strtok_r_end M m (s + 1)
     }
     else Some (s, M)
   }"

text \<open>The result is the token, the new value of \<^verbatim>\<open>*saveptr\<close> and the memory.\<close>

definition strtok_r :: "cmem \<Rightarrow> addr \<Rightarrow> addr \<Rightarrow> addr \<Rightarrow> (addr \<times> addr \<times> cmem) option" where
  "strtok_r M str delim saveptr = do {
     m \<leftarrow> strtok_r_fill M cmap_zero delim;
     let s = (if str \<noteq> NULL then str else saveptr);
     str \<leftarrow> strtok_r_skip M m s;
     (s, M) \<leftarrow> strtok_r_end M m str;
     Some (if str = s then NULL else str, s, M)
   }"

text \<open>Is \<open>c\<close> one of the characters of \<^verbatim>\<open>delim\<close>, without and with the terminator?\<close>

partial_function (option) strtok_in :: "cmem \<Rightarrow> addr \<Rightarrow> u8 \<Rightarrow> bool option" where
  "strtok_in M spanp c = do {
     sc \<leftarrow> M spanp;
     if sc \<noteq> NUL then (if c = sc then Some True else strtok_in M (spanp + 1) c)
     else Some False
   }"

partial_function (option) strtok_stop :: "cmem \<Rightarrow> addr \<Rightarrow> u8 \<Rightarrow> bool option" where
  "strtok_stop M spanp c = do {
     sc \<leftarrow> M spanp;
     if sc = c then Some True
     else if sc \<noteq> NUL then strtok_stop M (spanp + 1) c else Some False
   }"

partial_function (option) strtok_cont :: "cmem \<Rightarrow> addr \<Rightarrow> addr \<Rightarrow> (u8 \<times> addr) option" where
  "strtok_cont M str delim = do {
     c \<leftarrow> M str;
     b \<leftarrow> strtok_in M delim c;
     if b then strtok_cont M (str + 1) delim else Some (c, str + 1)
   }"

text \<open>The loop that ends the token, shared by \<^verbatim>\<open>strtok\<close> and \<^verbatim>\<open>strsep\<close>.\<close>

partial_function (option) strtok_scan :: "cmem \<Rightarrow> addr \<Rightarrow> addr \<Rightarrow> (addr \<times> cmem) option" where
  "strtok_scan M str delim = do {
     c \<leftarrow> M str;
     b \<leftarrow> strtok_stop M delim c;
     if b then (if c = NUL then Some (NULL, M)
                else do { M \<leftarrow> st M str NUL; Some (str + 1, M) })
     else strtok_scan M (str + 1) delim
   }"

text \<open>The static variable \<^verbatim>\<open>last\<close> is an argument and a component of the result.\<close>

definition strtok :: "cmem \<Rightarrow> addr \<Rightarrow> addr \<Rightarrow> addr \<Rightarrow> (addr \<times> addr \<times> cmem) option" where
  "strtok M last_p str delim =
     (let str = (if str = NULL then last_p else str) in
      if str = NULL then Some (NULL, last_p, M)
      else do {
        (c, str) \<leftarrow> strtok_cont M str delim;
        if c = NUL then Some (NULL, NULL, M)
        else do {
          let tok = str - 1;
          (last_p, M) \<leftarrow> strtok_scan M str delim;
          Some (tok, last_p, M)
        }
      })"

definition strsep :: "cmem \<Rightarrow> addr \<Rightarrow> addr \<Rightarrow> (addr \<times> addr \<times> cmem) option" where
  "strsep M stringp delim =
     (if stringp = NULL then Some (NULL, stringp, M)
      else do {
        (s, M) \<leftarrow> strtok_scan M stringp delim;
        Some (stringp, s, M)
      })"

section \<open>Trimming, duplication and the rest\<close>

partial_function (option) trim_front :: "cmem \<Rightarrow> addr \<Rightarrow> addr option" where
  "trim_front M frontp = do {
     c \<leftarrow> M frontp;
     if isspace (uint c) then trim_front M (frontp + 1) else Some frontp
   }"

partial_function (option) trim_back :: "cmem \<Rightarrow> addr \<Rightarrow> addr \<Rightarrow> addr option" where
  "trim_back M frontp endp = do {
     c \<leftarrow> M (endp - 1);
     if isspace (uint c) \<and> endp - 1 \<noteq> frontp then trim_back M frontp (endp - 1)
     else Some (endp - 1)
   }"

partial_function (option) trim_shift :: "cmem \<Rightarrow> addr \<Rightarrow> addr \<Rightarrow> cmem option" where
  "trim_shift M endp frontp = do {
     c \<leftarrow> M frontp;
     if c \<noteq> NUL then do { M \<leftarrow> st M endp c; trim_shift M (endp + 1) (frontp + 1) }
     else st M endp NUL
   }"

definition trim :: "cmem \<Rightarrow> addr \<Rightarrow> (addr \<times> cmem) option" where
  "trim M str =
     (if str = NULL then Some (NULL, M)
      else do {
        c \<leftarrow> M str;
        if c = NUL then Some (str, M)
        else do {
          len \<leftarrow> strlen M str;
          let endp = str + len;
          frontp \<leftarrow> trim_front M str;
          endp \<leftarrow> (if endp \<noteq> frontp then trim_back M frontp endp else Some endp);
          M \<leftarrow> (if str + len - 1 \<noteq> endp then st M (endp + 1) NUL
               else if frontp \<noteq> str \<and> endp = frontp then st M str NUL
               else Some M);
          M \<leftarrow> (if frontp \<noteq> str then trim_shift M str frontp else Some M);
          Some (str, M)
        }
      })"

text \<open>
  \<open>kmalloc\<close> is a parameter: what the kernel heap answers for a length, and the memory then.
\<close>

definition strdup :: "(cmem \<Rightarrow> u32 \<Rightarrow> addr \<times> cmem) \<Rightarrow> cmem \<Rightarrow> addr \<Rightarrow> (addr \<times> cmem) option" where
  "strdup kmalloc M s = do {
     n \<leftarrow> strlen M s;
     let len = n + 1;
     let (new, M) = kmalloc M len;
     if new = NULL then Some (NULL, M)
     else do { M \<leftarrow> st M (new + len) NUL; memcpy M new s len }
   }"

definition strndup :: "(cmem \<Rightarrow> u32 \<Rightarrow> addr \<times> cmem) \<Rightarrow> cmem \<Rightarrow> addr \<Rightarrow> u32 \<Rightarrow> (addr \<times> cmem) option" where
  "strndup kmalloc M s n = do {
     len \<leftarrow> strnlen M s n;
     let (new, M) = kmalloc M len;
     if new = NULL then Some (NULL, M)
     else do { M \<leftarrow> st M (new + len) NUL; memcpy M new s len }
   }"

partial_function (option) replace_char_loop :: "cmem \<Rightarrow> addr \<Rightarrow> u8 \<Rightarrow> u8 \<Rightarrow> cmem option" where
  "replace_char_loop M current_pos find_c replace_c =
     (if current_pos \<noteq> NULL then do {
        M \<leftarrow> st M current_pos replace_c;
        p \<leftarrow> strchr M current_pos (sint find_c);
        replace_char_loop M p find_c replace_c
      }
      else Some M)"

definition replace_char :: "cmem \<Rightarrow> addr \<Rightarrow> u8 \<Rightarrow> u8 \<Rightarrow> (addr \<times> cmem) option" where
  "replace_char M str find_c replace_c = do {
     p \<leftarrow> strchr M str (sint find_c);
     M \<leftarrow> replace_char_loop M p find_c replace_c;
     Some (str, M)
   }"

text \<open>The eleven bytes that \<^verbatim>\<open>strmode\<close> writes.\<close>

definition strmode :: "u32 \<Rightarrow> u8 list" where
  "strmode mode =
     [if mode AND 0x100 \<noteq> 0 then 114 else 45, if mode AND 0x080 \<noteq> 0 then 119 else 45,
      if mode AND 0x040 \<noteq> 0 then 120 else 45, if mode AND 0x020 \<noteq> 0 then 114 else 45,
      if mode AND 0x010 \<noteq> 0 then 119 else 45, if mode AND 0x008 \<noteq> 0 then 120 else 45,
      if mode AND 0x004 \<noteq> 0 then 114 else 45, if mode AND 0x002 \<noteq> 0 then 119 else 45,
      if mode AND 0x001 \<noteq> 0 then 120 else 45, 32, 0]"

text \<open>
  \<^verbatim>\<open>dec_to_binary\<close> writes the digits into a static buffer of 33 bytes, whose old contents are
  an argument; nothing terminates the new digits.
\<close>

fun dec_to_binary_loop :: "u8 list \<Rightarrow> u32 \<Rightarrow> nat \<Rightarrow> nat \<Rightarrow> u8 list" where
  "dec_to_binary_loop buffer v i 0 = buffer"
| "dec_to_binary_loop buffer v i (Suc k) =
     dec_to_binary_loop (buffer[i := (if bit_check v (31 - (32 - Suc k)) \<noteq> 0 then 49 else 48)])
       v (i + 1) k"

definition dec_to_binary :: "u8 list \<Rightarrow> u32 \<Rightarrow> u32 \<Rightarrow> u8 list" where
  "dec_to_binary buffer v len = dec_to_binary_loop buffer v 0 (min (unat len) 32)"

end
