(* ===== verification/Cstring_Props.thy ===== *)
theory Cstring_Props
  imports Cstring
begin

text \<open>
  What the routines of \<^verbatim>\<open>src/kernel/misc/string.c\<close> do: \<open>bytes M p xs\<close> says that the bytes \<open>xs\<close> are
  at \<open>p\<close>, \<open>cstr M p s\<close> that a terminated string with the characters \<open>s\<close> is there.
\<close>

section \<open>Bytes and strings in memory\<close>

fun bytes :: "cmem \<Rightarrow> addr \<Rightarrow> u8 list \<Rightarrow> bool" where
  "bytes M p [] = True"
| "bytes M p (x # xs) = (M p = Some x \<and> bytes M (p + 1) xs)"

fun cstr :: "cmem \<Rightarrow> addr \<Rightarrow> u8 list \<Rightarrow> bool" where
  "cstr M p [] = (M p = Some 0)"
| "cstr M p (c # s) = (M p = Some c \<and> c \<noteq> 0 \<and> cstr M (p + 1) s)"

definition region :: "addr \<Rightarrow> nat \<Rightarrow> addr set" where
  "region p n = (\<lambda>i. p + of_nat i) ` {..<n}"

lemma cstr_iff: "cstr M p s \<longleftrightarrow> bytes M p (s @ [0]) \<and> 0 \<notin> set s"
  by (induction s arbitrary: p) auto

lemma bytes_append: "bytes M p (xs @ ys) \<longleftrightarrow> bytes M p xs \<and> bytes M (p + of_nat (length xs)) ys"
  by (induction xs arbitrary: p) (auto simp: algebra_simps)

lemma region_0 [simp]: "region p 0 = {}"
  by (simp add: region_def)

lemma region_Suc: "region p (Suc n) = insert p (region (p + 1) n)"
  by (auto simp: region_def lessThan_Suc_eq_insert_0 image_image algebra_simps)

lemma region_Suc_last: "region p (Suc n) = insert (p + of_nat n) (region p n)"
  by (auto simp: region_def lessThan_Suc)

lemma region_numeral: "region p (numeral n) = insert p (region (p + 1) (pred_numeral n))"
  by (simp add: numeral_eq_Suc region_Suc)

lemma replicate_numeral: "replicate (numeral n) x = x # replicate (pred_numeral n) x"
  by (simp add: numeral_eq_Suc)

lemma region_notin: "(\<And>j. j < n \<Longrightarrow> d \<noteq> p + of_nat j) \<Longrightarrow> d \<notin> region p n"
  unfolding region_def by blast

lemma region_mono: "m \<le> n \<Longrightarrow> region p m \<subseteq> region p n"
  by (auto simp: region_def)

lemma region_next_notin:
  assumes "n < 4294967296"
  shows "p \<notin> region (p + 1) n"
proof
  assume "p \<in> region (p + 1) n"
  then obtain i where i: "i < n" "p = p + 1 + of_nat i" by (auto simp: region_def)
  then have "p + of_nat (Suc i) = p" by (simp add: algebra_simps)
  then have "(of_nat (Suc i) :: addr) = 0" by (simp only: add_cancel_left_right)
  then show False
    using i(1) assms unat_of_nat_u32 [of "Suc i"] by simp
qed

lemma bytes_cong:
  "(\<And>a. a \<in> region p (length xs) \<Longrightarrow> M' a = M a) \<Longrightarrow> bytes M' p xs = bytes M p xs"
  by (induction xs arbitrary: p) (auto simp: region_Suc)

lemma cstr_cong:
  "(\<And>a. a \<in> region p (Suc (length s)) \<Longrightarrow> M' a = M a) \<Longrightarrow> cstr M' p s = cstr M p s"
  using bytes_cong [of p "s @ [0]" M' M] by (simp add: cstr_iff)

lemma bytes_mapped: "bytes M p xs \<Longrightarrow> a \<in> region p (length xs) \<Longrightarrow> M a \<noteq> None"
  by (induction xs arbitrary: p) (auto simp: region_Suc)

section \<open>Lengths\<close>

lemma string_end_ok: "cstr M p s \<Longrightarrow> string_end M p = Some (p + of_nat (length s))"
  by (induction s arbitrary: p) (auto simp: string_end.simps algebra_simps)

lemma skip_string_ok: "cstr M p s \<Longrightarrow> skip_string M p = Some (p + of_nat (length s) + 1)"
  by (induction s arbitrary: p) (auto simp: skip_string.simps algebra_simps)

lemma sint_of_nat_u32:
  assumes "n < 2147483648" shows "sint (of_nat n :: u32) = int n"
  using assms by (simp add: signed_of_nat signed_take_bit_int_eq_self)

lemma strlen_ok:
  assumes "cstr M p s" and "length s < 2147483648"
  shows "strlen M p = Some (of_nat (length s))"
  using string_end_ok [OF assms(1)] sint_of_nat_u32 [OF assms(2)] by (simp add: strlen_def)

lemma strnlen_loop_ok:
  "cstr M p s \<Longrightarrow> strnlen_loop M p n = Some (p + of_nat (min n (length s)))"
proof (induction s arbitrary: p n)
  case Nil
  then show ?case by (cases n) auto
next
  case (Cons c s)
  then show ?case by (cases n) (auto simp: algebra_simps)
qed

lemma strnlen_ok:
  assumes "cstr M p s" and "length s < 2147483648"
  shows "strnlen M p n = Some (of_nat (min (unat n) (length s)))"
  using strnlen_loop_ok [OF assms(1), of "unat n"] assms(2)
    sint_of_nat_u32 [of "min (unat n) (length s)"] by (simp add: strnlen_def)

section \<open>Comparison\<close>

text \<open>The difference of the first characters that differ, a string being followed by 0.\<close>

fun str_diff :: "(u8 \<Rightarrow> int) \<Rightarrow> u8 list \<Rightarrow> u8 list \<Rightarrow> int" where
  "str_diff f [] [] = f 0 - f 0"
| "str_diff f (a # s) [] = f a - f 0"
| "str_diff f [] (b # t) = f 0 - f b"
| "str_diff f (a # s) (b # t) = (if a = b then str_diff f s t else f a - f b)"

lemma str_diff_minus: "str_diff f t s = - str_diff f s t"
  by (induction f s t rule: str_diff.induct) auto

lemma str_diff_0_iff:
  assumes "inj f" and "0 \<notin> set s" and "0 \<notin> set t"
  shows "str_diff f s t = 0 \<longleftrightarrow> s = t"
  using assms by (induction f s t rule: str_diff.induct) (auto simp: inj_eq)

lemma inj_sint_u8: "inj (sint :: u8 \<Rightarrow> int)"
  by (rule injI) (rule signed_word_eqI)

lemma inj_uint_u8: "inj (uint :: u8 \<Rightarrow> int)"
  by (rule injI) (rule unsigned_word_eqI)

lemma strcmp_loop_ok:
  "cstr M p s \<Longrightarrow> cstr M q t \<Longrightarrow> strcmp_loop M p q = Some (str_diff sint s t)"
proof (induction "sint :: u8 \<Rightarrow> int" s t arbitrary: p q rule: str_diff.induct)
  case (1 p q)
  then show ?case by (subst strcmp_loop.simps) simp
next
  case (2 a s p q)
  then show ?case by (subst strcmp_loop.simps) simp
next
  case (3 b t p q)
  then show ?case by (subst strcmp_loop.simps) (simp add: signed_eq_0_iff)
next
  case (4 a s b t p q)
  then show ?case by (subst strcmp_loop.simps) (auto simp: Let_def dest: signed_word_eqI)
qed

lemma strcmp_ok:
  "cstr M p s \<Longrightarrow> cstr M q t \<Longrightarrow> strcmp M p q = Some (sgn (str_diff sint s t))"
  by (simp add: strcmp_def strcmp_loop_ok sgn_if)

lemma strcmp_eq_0_iff:
  assumes "cstr M p s" and "cstr M q t"
  shows "strcmp M p q = Some 0 \<longleftrightarrow> s = t"
  using strcmp_ok [OF assms] str_diff_0_iff [OF inj_sint_u8, of s t] assms
  by (simp add: cstr_iff sgn_0_0)

declare strncmp_loop.simps [simp del] memcmp_loop.simps [simp del]

text \<open>\<^verbatim>\<open>strncmp\<close> compares the first \<open>n\<close> characters.\<close>

lemma strncmp_loop_ok:
  "cstr M p s \<Longrightarrow> cstr M q t \<Longrightarrow> 0 < n \<Longrightarrow>
     (strncmp_loop M p q n \<bind> (\<lambda>(p, q). M p \<bind> (\<lambda>a. M q \<bind> (\<lambda>b. Some (uint a - uint b)))))
       = Some (str_diff uint (take n s) (take n t))"
proof (induction "uint :: u8 \<Rightarrow> int" s t arbitrary: p q n rule: str_diff.induct)
  case (1 p q n)
  then show ?case by (subst strncmp_loop.simps) simp
next
  case (2 a s p q n)
  then show ?case by (subst strncmp_loop.simps) (cases n; simp)
next
  case (3 b t p q n)
  then show ?case by (subst strncmp_loop.simps) (cases n; simp)
next
  case (4 a s b t p q n)
  then obtain m where n: "n = Suc m" by (cases n) auto
  then show ?case using 4 by (subst strncmp_loop.simps) (cases "m = 0"; auto)
qed

lemma strncmp_ok:
  assumes "cstr M p s" and "cstr M q t"
  shows "strncmp M p q n = Some (str_diff uint (take (unat n) s) (take (unat n) t))"
proof (cases "n = 0")
  case False
  then have "0 < unat n" by (simp add: unat_gt_0)
  then show ?thesis using False strncmp_loop_ok [OF assms] by (simp add: strncmp_def)
qed (simp add: strncmp_def)

lemma strncmp_eq_0_iff:
  assumes "cstr M p s" and "cstr M q t"
  shows "strncmp M p q n = Some 0 \<longleftrightarrow> take (unat n) s = take (unat n) t"
proof -
  have "0 \<notin> set (take (unat n) s)" "0 \<notin> set (take (unat n) t)"
    using assms by (auto simp: cstr_iff dest: in_set_takeD)
  then show ?thesis
    using strncmp_ok [OF assms, of n] str_diff_0_iff [OF inj_uint_u8] by simp
qed

section \<open>Searching\<close>

text \<open>The first and the last position of a character, with the terminator at the end.\<close>

lemma strchr_ok:
  assumes "cstr M p s" and "c = word_of_int ch"
  shows "strchr M p ch = Some (if c \<in> set s \<or> c = 0
    then p + of_nat (length (takeWhile (\<lambda>x. x \<noteq> c) s)) else NULL)"
  using assms
proof (induction s arbitrary: p)
  case Nil
  then show ?case by (subst strchr.simps) auto
next
  case (Cons x s)
  then show ?case by (subst strchr.simps) (auto simp: algebra_simps)
qed

lemma strrchr_back_ok:
  assumes "bytes M p xs" and "length xs \<le> 4294967295" and "xs \<noteq> []" and "c = word_of_int ch"
  shows "\<exists>i < length xs. strrchr_back M p (p + of_nat (length xs)) ch = Some (p + of_nat i)
    \<and> c \<notin> set (drop (Suc i) xs) \<and> (i \<noteq> 0 \<longrightarrow> xs ! i = c)"
  using assms
proof (induction xs rule: rev_induct)
  case (snoc x xs)
  show ?case
  proof (cases "xs = []")
    case True
    then show ?thesis by (subst strrchr_back.simps) simp
  next
    case False
    have ne: "p + of_nat (length xs) \<noteq> p"
      using False snoc.prems(2) unat_of_nat_u32 [of "length xs"] by (auto simp: add_cancel_left_right)
    have x: "M (p + of_nat (length xs)) = Some x" using snoc.prems by (simp add: bytes_append)
    have e: "strrchr_back M p (p + of_nat (length (xs @ [x]))) ch = (if x \<noteq> c
        then strrchr_back M p (p + of_nat (length xs)) ch else Some (p + of_nat (length xs)))"
      using ne x snoc.prems(4) by (subst strrchr_back.simps) (simp add: algebra_simps)
    show ?thesis
    proof (cases "x = c")
      case True
      then show ?thesis using e by (intro exI [of _ "length xs"]) (simp add: nth_append)
    next
      case ne_c: False
      obtain i where i: "i < length xs" "strrchr_back M p (p + of_nat (length xs)) ch = Some (p + of_nat i)"
        "c \<notin> set (drop (Suc i) xs)" "i \<noteq> 0 \<longrightarrow> xs ! i = c"
        using snoc.IH snoc.prems False by (auto simp: bytes_append)
      then show ?thesis using e ne_c by (intro exI [of _ i]) (auto simp: nth_append)
    qed
  qed
qed simp

lemma bytes_nth: "bytes M p xs \<Longrightarrow> i < length xs \<Longrightarrow> M (p + of_nat i) = Some (xs ! i)"
proof (induction xs arbitrary: p i)
  case (Cons x xs)
  then show ?case using Cons.IH [of "p + 1" "i - 1"] by (cases i) (auto simp: algebra_simps)
qed simp

lemma strrchr_ok:
  assumes "cstr M p s" and "length s < 4294967295" and "c = word_of_int ch" and "c \<noteq> 0"
  shows "\<exists>i. strrchr M p ch = Some (if c \<in> set s then p + of_nat i else NULL)
    \<and> (c \<in> set s \<longrightarrow> i < length s \<and> s ! i = c \<and> c \<notin> set (drop (Suc i) s))"
proof -
  have b: "bytes M p (s @ [0])" and z: "0 \<notin> set s" using assms(1) by (auto simp: cstr_iff)
  obtain i where i: "i < length (s @ [0])"
    "strrchr_back M p (p + of_nat (length (s @ [0]))) ch = Some (p + of_nat i)"
    "c \<notin> set (drop (Suc i) (s @ [0]))" "i \<noteq> 0 \<longrightarrow> (s @ [0]) ! i = c"
    using strrchr_back_ok [OF b _ _ assms(3)] assms(2) by auto
  have e: "strrchr M p ch = Some (if (s @ [0]) ! i = c then p + of_nat i else NULL)"
    using skip_string_ok [OF assms(1)] i bytes_nth [OF b i(1)] assms(3)
    by (simp add: strrchr_def algebra_simps)
  have s: "set s = set (take (Suc i) s) \<union> set (drop (Suc i) s)"
    by (metis append_take_drop_id set_append)
  show ?thesis
  proof (cases "(s @ [0]) ! i = c")
    case True
    then have "i < length s" using i(1) assms(4) by (auto simp: nth_append split: if_splits)
    then show ?thesis using e True i(3) by (intro exI [of _ i]) (auto simp: nth_append)
  next
    case False
    then have "i = 0" using i(4) by blast
    then have "c \<notin> set s" using False i(3) s assms(4) by (cases s) (auto simp: nth_append)
    then show ?thesis using e False by simp
  qed
qed

section \<open>Copying\<close>

text \<open>
  Copying upwards is right when no byte is overwritten before it is read, even if the two
  blocks overlap.
\<close>

lemma memmove_up_ok:
  assumes "bytes M s xs" and "\<forall>a \<in> region d (length xs). M a \<noteq> None"
    and "\<And>i j. i < j \<Longrightarrow> j < length xs \<Longrightarrow> d + of_nat i \<noteq> s + of_nat j"
    and "length xs \<le> 4294967296"
  shows "\<exists>M'. memmove_up M d s (length xs) = Some M' \<and> bytes M' d xs
    \<and> (\<forall>a. a \<notin> region d (length xs) \<longrightarrow> M' a = M a)"
  using assms
proof (induction xs arbitrary: M d s)
  case (Cons x xs)
  let ?M = "M(d \<mapsto> x)"
  have step: "memmove_up M d s (length (x # xs)) = memmove_up ?M (d + 1) (s + 1) (length xs)"
    using Cons.prems(1,2) by (auto simp: st_def region_Suc)
  have "d \<notin> region (s + 1) (length xs)"
    using Cons.prems(3) [of 0 "Suc j" for j] by (auto simp: region_def algebra_simps)
  then have b: "bytes ?M (s + 1) xs"
    using Cons.prems(1) by (subst bytes_cong [where M = M]) auto
  have nc: "d + 1 + of_nat i \<noteq> s + 1 + of_nat j" if "i < j" "j < length xs" for i j
    using Cons.prems(3) [of "Suc i" "Suc j"] that by (simp add: algebra_simps)
  have l: "length xs \<le> 4294967296" using Cons.prems(4) by simp
  have m: "\<forall>a \<in> region (d + 1) (length xs). ?M a \<noteq> None"
    using Cons.prems(2) by (simp add: region_Suc)
  obtain M' where M': "memmove_up ?M (d + 1) (s + 1) (length xs) = Some M'" "bytes M' (d + 1) xs"
    "\<forall>a. a \<notin> region (d + 1) (length xs) \<longrightarrow> M' a = ?M a"
    using Cons.IH [OF b m nc l] by blast
  then have "M' d = Some x" using region_next_notin [of "length xs" d] Cons.prems(4) by simp
  then show ?case using step M' by (intro exI [of _ M']) (auto simp: region_Suc)
qed simp

lemma memmove_down_ok:
  assumes "bytes M s xs" and "\<forall>a \<in> region d (length xs). M a \<noteq> None"
    and "\<And>i j. i < j \<Longrightarrow> j < length xs \<Longrightarrow> d + of_nat j \<noteq> s + of_nat i"
    and "length xs \<le> 4294967296"
  shows "\<exists>M'. memmove_down M (d + of_nat (length xs) - 1) (s + of_nat (length xs) - 1) (length xs) = Some M'
    \<and> bytes M' d xs \<and> (\<forall>a. a \<notin> region d (length xs) \<longrightarrow> M' a = M a)"
  using assms
proof (induction xs arbitrary: M rule: rev_induct)
  case (snoc x xs)
  let ?n = "length xs"
  let ?M = "M(d + of_nat ?n \<mapsto> x)"
  have "M (s + of_nat ?n) = Some x" using snoc.prems(1) by (simp add: bytes_append)
  then have step: "memmove_down M (d + of_nat (length (xs @ [x])) - 1) (s + of_nat (length (xs @ [x])) - 1)
      (length (xs @ [x])) = memmove_down ?M (d + of_nat ?n - 1) (s + of_nat ?n - 1) ?n"
    using snoc.prems(2) by (auto simp: st_def region_Suc_last algebra_simps)
  have "d + of_nat ?n \<notin> region s ?n"
    using snoc.prems(3) [of _ ?n] by (intro region_notin) simp
  then have b: "bytes ?M s xs"
    using snoc.prems(1) by (subst bytes_cong [where M = M]) (auto simp: bytes_append)
  have nc: "d + of_nat j \<noteq> s + of_nat i" if "i < j" "j < ?n" for i j
    using snoc.prems(3) [of i j] that by simp
  have l: "?n \<le> 4294967296" using snoc.prems(4) by simp
  have m: "\<forall>a \<in> region d ?n. ?M a \<noteq> None"
    using snoc.prems(2) by (simp add: region_Suc_last)
  obtain M' where M': "memmove_down ?M (d + of_nat ?n - 1) (s + of_nat ?n - 1) ?n = Some M'"
    "bytes M' d xs" "\<forall>a. a \<notin> region d ?n \<longrightarrow> M' a = ?M a"
    using snoc.IH [OF b m nc l] by blast
  have "d + of_nat ?n \<notin> region d ?n"
  proof
    assume "d + of_nat ?n \<in> region d ?n"
    then obtain i where "i < ?n" "(of_nat ?n :: addr) = of_nat i" by (auto simp: region_def)
    then show False
      using snoc.prems(4) unat_of_nat_u32 [of i] unat_of_nat_u32 [of ?n] by auto
  qed
  then show ?case
    using step M' by (intro exI [of _ M']) (auto simp: region_Suc_last bytes_append)
qed simp

lemma unat_offset:
  "unat (p :: addr) + n \<le> 4294967296 \<Longrightarrow> i < n \<Longrightarrow> unat (p + of_nat i) = unat p + i"
  by (subst unat_plus_u32) (simp_all add: unat_of_nat_u32)

lemma memmove_ok:
  assumes "bytes M src xs" and "length xs = unat n" and "\<forall>a \<in> region dst (unat n). M a \<noteq> None"
    and "unat src + unat n < 4294967296" and "unat dst + unat n \<le> 4294967296"
  shows "\<exists>M'. memmove M dst src n = Some (dst, M') \<and> bytes M' dst xs
    \<and> (\<forall>a. a \<notin> region dst (unat n) \<longrightarrow> M' a = M a)"
proof -
  have du: "unat (dst + of_nat i) = unat dst + i" if "i < unat n" for i
    using unat_offset [OF assms(5)] that by blast
  have su: "unat (src + of_nat i) = unat src + i" if "i < unat n" for i
    using unat_offset [of src "unat n"] assms(4) that by simp
  have end_src: "unat (src + n) = unat src + unat n" using assms(4) by (simp add: unat_plus_u32)
  have l: "length xs \<le> 4294967296" using assms(2) unat_u32_less [of n] by linarith
  note mapped = assms(3) [folded assms(2)]
  show ?thesis
  proof (cases "dst \<le> src \<or> dst \<ge> src + n")
    case True
    then have le: "unat dst \<le> unat src \<or> unat src + unat n \<le> unat dst"
      by (simp only: word_le_nat_alt end_src)
    have nc: "dst + of_nat i \<noteq> src + of_nat j" if "i < j" "j < length xs" for i j
    proof -
      have "i < unat n" "j < unat n" using that assms(2) by simp_all
      then have "unat (dst + of_nat i) \<noteq> unat (src + of_nat j)"
        using le that(1) du [of i] su [of j] by linarith
      then show ?thesis by (rule contrapos_nn) (rule arg_cong)
    qed
    have "memmove M dst src n = memmove_up M dst src (length xs) \<bind> (\<lambda>M. Some (dst, M))"
      using True assms(2) by (simp only: memmove_def if_True)
    then show ?thesis
      using memmove_up_ok [OF assms(1) mapped nc l] assms(2) by auto
  next
    case False
    then have le: "unat src < unat dst" by (simp add: word_le_nat_alt)
    have nc: "dst + of_nat j \<noteq> src + of_nat i" if "i < j" "j < length xs" for i j
    proof -
      have "i < unat n" "j < unat n" using that assms(2) by simp_all
      then have "unat (dst + of_nat j) \<noteq> unat (src + of_nat i)"
        using le that(1) du [of j] su [of i] by linarith
      then show ?thesis by (rule contrapos_nn) (rule arg_cong)
    qed
    have "memmove M dst src n = memmove_down M (dst + of_nat (length xs) - 1)
        (src + of_nat (length xs) - 1) (length xs) \<bind> (\<lambda>M. Some (dst, M))"
      using False by (simp add: memmove_def assms(2))
    then show ?thesis
      using memmove_down_ok [OF assms(1) mapped nc l] assms(2) by auto
  qed
qed

lemma memcpy_loop_eq: "memcpy_loop M d s n = memmove_up M d s n"
  by (induction n arbitrary: M d s) (auto cong: Option.bind_cong)

lemma region_disj_neq:
  assumes "region d m \<inter> region s n = {}" and "i < m" and "j < n"
  shows "d + of_nat i \<noteq> s + of_nat j"
  using assms by (auto simp: region_def)

lemma memcpy_ok:
  assumes "bytes M src xs" and "length xs = unat n" and "\<forall>a \<in> region dst (unat n). M a \<noteq> None"
    and "region dst (unat n) \<inter> region src (unat n) = {}"
  shows "\<exists>M'. memcpy M dst src n = Some (dst, M') \<and> bytes M' dst xs
    \<and> (\<forall>a. a \<notin> region dst (unat n) \<longrightarrow> M' a = M a)"
  using memmove_up_ok [OF assms(1), of dst] assms(2,3) region_disj_neq [OF assms(4)]
    unat_u32_less [of n]
  by (auto simp: memcpy_def memcpy_loop_eq)

lemma memset_loop_ok:
  assumes "\<forall>a \<in> region p n. M a \<noteq> None" and "n \<le> 4294967296"
  shows "\<exists>M'. memset_loop M p v n = Some M' \<and> bytes M' p (replicate n v)
    \<and> (\<forall>a. a \<notin> region p n \<longrightarrow> M' a = M a)"
  using assms
proof (induction n arbitrary: M p)
  case (Suc n)
  have m: "\<forall>a \<in> region (p + 1) n. (M(p \<mapsto> v)) a \<noteq> None" using Suc.prems(1) by (simp add: region_Suc)
  have l: "n \<le> 4294967296" using Suc.prems by simp
  obtain M' where M': "memset_loop (M(p \<mapsto> v)) (p + 1) v n = Some M'"
    "bytes M' (p + 1) (replicate n v)" "\<forall>a. a \<notin> region (p + 1) n \<longrightarrow> M' a = (M(p \<mapsto> v)) a"
    using Suc.IH [OF m l] by blast
  moreover have "M' p = Some v" using M'(3) region_next_notin [of n p] Suc.prems(2) by simp
  ultimately show ?case using Suc.prems(1) by (auto simp: st_def region_Suc)
qed simp

lemma strcpy_loop_eq:
  assumes "cstr M s xs"
    and "\<And>i j. i < j \<Longrightarrow> j \<le> length xs \<Longrightarrow> d + of_nat i \<noteq> s + of_nat j"
  shows "strcpy_loop M d s = memmove_up M d s (Suc (length xs))"
  using assms
proof (induction xs arbitrary: M d s)
  case Nil
  then show ?case by (subst strcpy_loop.simps) (simp cong: Option.bind_cong)
next
  case (Cons x xs)
  have "d \<noteq> s + 1 + of_nat j" if "j < Suc (length xs)" for j
    using Cons.prems(2) [of 0 "Suc j"] that by (simp add: algebra_simps)
  then have "d \<notin> region (s + 1) (Suc (length xs))" by (rule region_notin)
  then have "cstr (M(d \<mapsto> x)) (s + 1) xs"
    using Cons.prems(1) by (subst cstr_cong [where M = M]) auto
  moreover have "d + 1 + of_nat i \<noteq> s + 1 + of_nat j" if "i < j" "j \<le> length xs" for i j
    using Cons.prems(2) [of "Suc i" "Suc j"] that by (simp add: algebra_simps)
  ultimately have "strcpy_loop (M(d \<mapsto> x)) (d + 1) (s + 1)
      = memmove_up (M(d \<mapsto> x)) (d + 1) (s + 1) (Suc (length xs))"
    using Cons.IH by blast
  then show ?case
    using Cons.prems(1) by (subst strcpy_loop.simps) (simp add: st_def)
qed

lemma strcpy_loop_ok:
  assumes "cstr M s xs" and "\<forall>a \<in> region d (Suc (length xs)). M a \<noteq> None"
    and "region d (Suc (length xs)) \<inter> region s (Suc (length xs)) = {}"
    and "length xs < 4294967296"
  shows "\<exists>M'. strcpy_loop M d s = Some M' \<and> cstr M' d xs
    \<and> (\<forall>a. a \<notin> region d (Suc (length xs)) \<longrightarrow> M' a = M a)"
  using memmove_up_ok [of M s "xs @ [0]" d] strcpy_loop_eq [OF assms(1), of d]
    region_disj_neq [OF assms(3)] assms
  by (auto simp: cstr_iff)

lemma strncpy_pad_eq: "strncpy_pad M d n = memset_loop M d 0 n"
  by (induction n arbitrary: M d) (auto cong: Option.bind_cong)

lemma bytes_frame:
  assumes "bytes M p xs" and "\<forall>a. a \<notin> A \<longrightarrow> M' a = M a" and "region p (length xs) \<inter> A = {}"
  shows "bytes M' p xs"
  using assms by (subst bytes_cong [where M = M]) auto

lemma cstr_frame:
  assumes "cstr M p s" and "\<forall>a. a \<notin> A \<longrightarrow> M' a = M a" and "region p (Suc (length s)) \<inter> A = {}"
  shows "cstr M' p s"
  using assms by (subst cstr_cong [where M = M]) auto

lemma strcat_ok:
  assumes d: "cstr M d xs" and s: "cstr M s ys" and len: "length ys < 4294967296"
    and room: "\<forall>a \<in> region (d + of_nat (length xs)) (Suc (length ys)). M a \<noteq> None"
    and disj: "region (d + of_nat (length xs)) (Suc (length ys)) \<inter> region s (Suc (length ys)) = {}"
      "region (d + of_nat (length xs)) (Suc (length ys)) \<inter> region d (length xs) = {}"
  shows "\<exists>M'. strcat M d s = Some (d, M') \<and> cstr M' d (xs @ ys) \<and> cstr M' s ys"
proof -
  obtain M' where M': "strcpy_loop M (d + of_nat (length xs)) s = Some M'"
    "cstr M' (d + of_nat (length xs)) ys"
    "\<forall>a. a \<notin> region (d + of_nat (length xs)) (Suc (length ys)) \<longrightarrow> M' a = M a"
    using strcpy_loop_ok [OF s room disj(1) len] by blast
  have "bytes M d xs" using d by (simp add: cstr_iff bytes_append)
  then have "bytes M' d xs" using bytes_frame [OF _ M'(3)] disj(2) by blast
  moreover have "cstr M' s ys" using cstr_frame [OF s M'(3)] disj(1) by blast
  moreover have "0 \<notin> set xs" using d by (simp add: cstr_iff)
  ultimately show ?thesis
    using M'(1,2) string_end_ok [OF d] by (auto simp: strcat_def cstr_iff bytes_append)
qed

lemma strncpy_copy_ok:
  assumes "cstr M s xs" and "\<forall>a \<in> region d n. M a \<noteq> None" and "n \<le> 4294967296"
    and "region d n \<inter> region s (Suc (length xs)) = {}"
  shows "\<exists>M'. strncpy_copy M d s n
      = Some (M', d + of_nat (min n (Suc (length xs))), n - length xs)
    \<and> bytes M' d (take n (xs @ [0])) \<and> (\<forall>a. a \<notin> region d (min n (Suc (length xs))) \<longrightarrow> M' a = M a)"
  using assms
proof (induction n arbitrary: M d s xs)
  case (Suc n)
  have m: "M d \<noteq> None" using Suc.prems(2) by (simp add: region_Suc)
  show ?case
  proof (cases xs)
    case Nil
    then show ?thesis using Suc.prems m by (auto simp: st_def region_Suc)
  next
    case (Cons x ys)
    let ?M = "M(d \<mapsto> x)" and ?k = "min n (Suc (length ys))"
    have ds: "d \<notin> region (s + 1) (Suc (length ys))"
      using Suc.prems(4) Cons by (auto simp: region_Suc)
    have c: "cstr ?M (s + 1) ys" using Suc.prems(1) Cons ds by (subst cstr_cong [where M = M]) auto
    have mm: "\<forall>a \<in> region (d + 1) n. ?M a \<noteq> None" using Suc.prems(2) by (simp add: region_Suc)
    have dj: "region (d + 1) n \<inter> region (s + 1) (Suc (length ys)) = {}"
      using Suc.prems(4) Cons by (auto simp: region_Suc)
    have l: "n \<le> 4294967296" using Suc.prems(3) by simp
    obtain M' where M': "strncpy_copy ?M (d + 1) (s + 1) n = Some (M', d + 1 + of_nat ?k, n - length ys)"
      "bytes M' (d + 1) (take n (ys @ [0]))" "\<forall>a. a \<notin> region (d + 1) ?k \<longrightarrow> M' a = ?M a"
      using Suc.IH [OF c mm l dj] by blast
    have "M' d = Some x"
      using M'(3) region_next_notin [of n d] region_mono [of ?k n "d + 1"] Suc.prems(3) by auto
    then show ?thesis
      using M' Suc.prems(1) m Cons by (auto simp: st_def region_Suc algebra_simps)
  qed
qed simp

lemma region_append: "region p (m + n) = region p m \<union> region (p + of_nat m) n"
  by (induction m arbitrary: p) (auto simp: region_Suc algebra_simps)

lemma region_split_disjoint:
  assumes "m + n \<le> 4294967296"
  shows "region p m \<inter> region (p + of_nat m) n = {}"
proof -
  have "p + of_nat i \<noteq> p + of_nat m + of_nat j" if "i < m" "j < n" for i j
  proof
    assume "p + of_nat i = p + of_nat m + of_nat j"
    then have "(of_nat i :: addr) = of_nat (m + j)" by (simp add: add.assoc)
    then show False
      using that assms unat_of_nat_u32 [of i] unat_of_nat_u32 [of "m + j"] by simp
  qed
  then show ?thesis by (auto simp: region_def)
qed

lemma strncpy_ok:
  assumes "cstr M s xs" and "\<forall>a \<in> region d (unat n). M a \<noteq> None"
    and "region d (unat n) \<inter> region s (Suc (length xs)) = {}"
  shows "\<exists>M'. strncpy M d s n = Some (d, M') \<and> bytes M' d (take (unat n) (xs @ replicate (unat n) 0))
    \<and> (\<forall>a. a \<notin> region d (unat n) \<longrightarrow> M' a = M a)"
proof -
  let ?n = "unat n" and ?k = "min (unat n) (Suc (length xs))"
  have n: "?n \<le> 4294967296" by (simp add: less_imp_le)
  obtain M1 where M1: "strncpy_copy M d s ?n = Some (M1, d + of_nat ?k, ?n - length xs)"
    "bytes M1 d (take ?n (xs @ [0]))" "\<forall>a. a \<notin> region d ?k \<longrightarrow> M1 a = M a"
    using strncpy_copy_ok [OF assms(1,2) n assms(3)] by blast
  show ?thesis
  proof (cases "?n \<le> length xs")
    case True
    then show ?thesis using M1 by (auto simp: strncpy_def)
  next
    case False
    define k where "k = Suc (length xs)"
    define r where "r = ?n - k"
    have kr: "?n = k + r" and min: "?k = k" and rem: "?n - length xs = Suc r"
      using False by (auto simp: k_def r_def)
    have dn: "region d ?n = region d k \<union> region (d + of_nat k) r"
      unfolding kr by (rule region_append)
    have dj: "region d k \<inter> region (d + of_nat k) r = {}"
      using kr n by (intro region_split_disjoint) simp
    have M1': "\<forall>a. a \<notin> region d k \<longrightarrow> M1 a = M a" using M1(3) unfolding min .
    have mp: "\<forall>a \<in> region (d + of_nat k) r. M1 a \<noteq> None"
    proof
      fix a assume "a \<in> region (d + of_nat k) r"
      then have "a \<in> region d ?n" "a \<notin> region d k" using dn dj by blast+
      then show "M1 a \<noteq> None" using M1' assms(2) by simp
    qed
    have "r \<le> 4294967296" using n kr by simp
    then obtain M2 where M2: "memset_loop M1 (d + of_nat k) 0 r = Some M2"
      "bytes M2 (d + of_nat k) (replicate r 0)" "\<forall>a. a \<notin> region (d + of_nat k) r \<longrightarrow> M2 a = M1 a"
      using memset_loop_ok [OF mp, of 0] by blast
    have b1: "bytes M1 d (xs @ [0])" using M1(2) False by simp
    have b2: "bytes M2 d (xs @ [0])"
      using bytes_frame [OF b1 M2(3)] dj by (simp add: k_def)
    have t: "take ?n (xs @ replicate ?n 0) = (xs @ [0]) @ replicate r (0 :: u8)"
      unfolding kr by (simp add: k_def)
    have "strncpy M d s n = Some (d, M2)"
      using M1(1) M2(1) unfolding strncpy_def rem min by (simp add: strncpy_pad_eq)
    moreover have "bytes M2 d (take ?n (xs @ replicate ?n 0))"
      unfolding t bytes_append [of _ _ "xs @ [0]"] using b2 M2(2) by (simp add: k_def)
    moreover have "\<forall>a. a \<notin> region d ?n \<longrightarrow> M2 a = M a" using M1' M2(3) dn by simp
    ultimately show ?thesis by blast
  qed
qed

section \<open>Tokens\<close>

lemma strtok_stop_ok: "cstr M d dl \<Longrightarrow> strtok_stop M d c = Some (c \<in> set dl \<or> c = 0)"
proof (induction dl arbitrary: d)
  case Nil
  then show ?case by (subst strtok_stop.simps) auto
next
  case (Cons x dl)
  then show ?case by (subst strtok_stop.simps) auto
qed

lemma strtok_scan_ok:
  assumes "cstr M p s" and "cstr M d dl"
  shows "strtok_scan M p d = (let pre = takeWhile (\<lambda>x. x \<notin> set dl) s in
     if pre = s then Some (NULL, M)
     else Some (p + of_nat (length pre) + 1, M(p + of_nat (length pre) \<mapsto> 0)))"
  using assms
proof (induction s arbitrary: p)
  case Nil
  then show ?case by (subst strtok_scan.simps) (simp add: strtok_stop_ok)
next
  case (Cons x s)
  show ?case
  proof (cases "x \<in> set dl")
    case True
    then show ?thesis
      using Cons.prems by (subst strtok_scan.simps) (simp add: strtok_stop_ok st_def)
  next
    case False
    then show ?thesis
      using Cons.prems Cons.IH [of "p + 1"]
      by (subst strtok_scan.simps) (simp add: strtok_stop_ok Let_def algebra_simps)
  qed
qed

lemma cstr_cut:
  assumes "cstr M p (pre @ y # post)" and "length (pre @ y # post) < 4294967296"
  defines "e \<equiv> p + of_nat (length pre)"
  shows "cstr (M(e \<mapsto> 0)) p pre \<and> cstr (M(e \<mapsto> 0)) (e + 1) post"
proof -
  have b: "bytes M p pre" "bytes M (e + 1) (post @ [0])" "0 \<notin> set pre" "0 \<notin> set post"
    using assms(1) by (auto simp: cstr_iff bytes_append e_def)
  have "region p (length pre) \<inter> {e} = {}"
    using region_split_disjoint [of "length pre" 1 p] assms(2)
    by (simp add: region_def lessThan_Suc e_def)
  then have "bytes (M(e \<mapsto> 0)) p pre"
    by (intro bytes_frame [OF b(1), where A = "{e}"]) auto
  moreover have "bytes (M(e \<mapsto> 0)) (e + 1) (post @ [0])"
    using region_next_notin [of "length (post @ [0])" e] assms(2)
    by (intro bytes_frame [OF b(2), where A = "{e}"]) auto
  ultimately show ?thesis using b(3,4) by (simp add: cstr_iff bytes_append e_def)
qed

section \<open>Properties\<close>

text \<open>
  C16. \<^verbatim>\<open>memmove\<close> copies a block whether or not the two blocks overlap: when the target is mapped,
  neither block wraps around the address space and the source does not reach its very end,
  the target holds the old bytes of the source afterwards and no other byte changes.
\<close>

theorem memmove_overlap:
  assumes "bytes M src xs" and "length xs = unat n" and "\<forall>a \<in> region dst (unat n). M a \<noteq> None"
    and "unat src + unat n < 4294967296" and "unat dst + unat n \<le> 4294967296"
  shows "\<exists>M'. memmove M dst src n = Some (dst, M') \<and> bytes M' dst xs
    \<and> (\<forall>a. a \<notin> region dst (unat n) \<longrightarrow> M' a = M a)"
  by (rule memmove_ok [OF assms])

theorem memmove_overlap_witness:
  "\<exists>M'. memmove [10 \<mapsto> 1, 11 \<mapsto> 2, 12 \<mapsto> 3, 13 \<mapsto> 4] 11 10 3 = Some (11, M')
     \<and> bytes M' 11 [1, 2, 3]"
  using memmove_overlap [of "[10 \<mapsto> 1, 11 \<mapsto> 2, 12 \<mapsto> 3, 13 \<mapsto> 4]" 10 "[1, 2, 3]" 3 11]
  by (simp add: region_Suc region_numeral replicate_numeral) blast

text \<open>
  C17. \<^verbatim>\<open>strcmp\<close> answers 0 for equal strings only, and the sign of the difference of the first
  two (signed) characters that differ otherwise; swapping the arguments negates the answer.
\<close>

theorem strcmp_order:
  assumes "cstr M p s" and "cstr M q t"
  shows "strcmp M p q = Some (sgn (str_diff sint s t)) \<and> (strcmp M p q = Some 0 \<longleftrightarrow> s = t)
    \<and> strcmp M q p = map_option uminus (strcmp M p q)"
  using strcmp_ok [OF assms] strcmp_ok [OF assms(2,1)] strcmp_eq_0_iff [OF assms]
    str_diff_minus [of sint t s] by (simp add: sgn_minus)

theorem strcmp_order_witness:
  "strcmp [1 \<mapsto> 97, 2 \<mapsto> 98, 3 \<mapsto> 0, 4 \<mapsto> 97, 5 \<mapsto> 200, 6 \<mapsto> 0] 1 4 = Some 1"
  using strcmp_order [of "[1 \<mapsto> 97, 2 \<mapsto> 98, 3 \<mapsto> 0, 4 \<mapsto> 97, 5 \<mapsto> 200, 6 \<mapsto> 0]" 1 "[97, 98]" 4 "[97, 200]"]
  by simp

text \<open>
  \<^verbatim>\<open>strncpy\<close> into a block that does not overlap the source writes exactly \<open>n\<close> bytes: the string
  cut at \<open>n\<close> characters, then zero bytes up to the end. It writes no other byte.
\<close>

theorem strncpy_exact:
  assumes "cstr M s xs" and "\<forall>a \<in> region d (unat n). M a \<noteq> None"
    and "region d (unat n) \<inter> region s (Suc (length xs)) = {}"
  shows "\<exists>M'. strncpy M d s n = Some (d, M') \<and> bytes M' d (take (unat n) (xs @ replicate (unat n) 0))
    \<and> (\<forall>a. a \<notin> region d (unat n) \<longrightarrow> M' a = M a)"
  by (rule strncpy_ok [OF assms])

theorem strncpy_exact_witness:
  "\<exists>M'. strncpy [1 \<mapsto> 97, 2 \<mapsto> 0, 10 \<mapsto> 9, 11 \<mapsto> 9, 12 \<mapsto> 9, 13 \<mapsto> 9] 10 1 3 = Some (10, M')
     \<and> bytes M' 10 [97, 0, 0]"
  using strncpy_exact [of "[1 \<mapsto> 97, 2 \<mapsto> 0, 10 \<mapsto> 9, 11 \<mapsto> 9, 12 \<mapsto> 9, 13 \<mapsto> 9]" 1 "[97]" 10 3]
  by (simp add: region_Suc region_numeral replicate_numeral) blast

text \<open>
  \<^verbatim>\<open>strsep\<close> cuts the string at the first character of \<^verbatim>\<open>delim\<close>: the token is what stands before
  it, and the rest of the string follows at the new value of \<^verbatim>\<open>*stringp\<close>; the separator byte
  is the only byte that changes. Without a separator the token is the whole string, no byte
  changes and \<^verbatim>\<open>*stringp\<close> becomes null.
\<close>

theorem strsep_token:
  assumes "cstr M p s" and "p \<noteq> NULL" and "cstr M d dl" and "length s < 4294967296"
  defines "pre \<equiv> takeWhile (\<lambda>x. x \<notin> set dl) s"
  shows "if pre = s then strsep M p d = Some (p, NULL, M)
    else (let e = p + of_nat (length pre) in
      strsep M p d = Some (p, e + 1, M(e \<mapsto> 0)) \<and> cstr (M(e \<mapsto> 0)) p pre
      \<and> cstr (M(e \<mapsto> 0)) (e + 1) (drop (Suc (length pre)) s))"
proof (cases "pre = s")
  case True
  then show ?thesis
    using strtok_scan_ok [OF assms(1,3)] assms(2) by (simp add: strsep_def pre_def)
next
  case False
  obtain y post where "dropWhile (\<lambda>x. x \<notin> set dl) s = y # post"
    using False takeWhile_dropWhile_id [of "\<lambda>x. x \<notin> set dl" s]
    by (cases "dropWhile (\<lambda>x. x \<notin> set dl) s") (auto simp: pre_def)
  then have s: "s = pre @ y # post"
    using takeWhile_dropWhile_id [of "\<lambda>x. x \<notin> set dl" s] by (simp add: pre_def)
  have "drop (Suc (length pre)) s = post" by (subst s) simp
  moreover have "strtok_scan M p d
      = Some (p + of_nat (length pre) + 1, M(p + of_nat (length pre) \<mapsto> 0))"
    using strtok_scan_ok [OF assms(1,3), folded pre_def] False by (simp only: Let_def if_False)
  ultimately show ?thesis
    using False assms(2) cstr_cut [of M p pre y post] assms(1,4) s
    by (simp only: Let_def strsep_def if_False) simp
qed

theorem strsep_token_witness:
  "let M = [1 \<mapsto> 97, 2 \<mapsto> 58, 3 \<mapsto> 98, 4 \<mapsto> 0, 8 \<mapsto> 58, 9 \<mapsto> 0] in
     strsep M 1 8 = Some (1, 3, M(2 \<mapsto> 0)) \<and> cstr (M(2 \<mapsto> 0)) 1 [97] \<and> cstr (M(2 \<mapsto> 0)) 3 [98]"
  using strsep_token [of "[1 \<mapsto> 97, 2 \<mapsto> 58, 3 \<mapsto> 98, 4 \<mapsto> 0, 8 \<mapsto> 58, 9 \<mapsto> 0]" 1 "[97, 58, 98]" 8 "[58]"]
  by simp

end
