(* ===== verification/Klist.thy ===== *)
theory Klist
  imports Prelude
begin

text \<open>
  The doubly linked list of \<^verbatim>\<open>src/kernel/lib/list.c\<close>: nodes in a heap, a \<^verbatim>\<open>list_t\<close> with the two ends
  and the number of nodes. The structure \<^verbatim>\<open>list_t\<close> is passed and returned by value; a list that
  is not null is what the \<^verbatim>\<open>assert\<close> at the start of each operation asks for. The address that
  \<^verbatim>\<open>kmalloc\<close> answers for a new node is an argument \<open>node\<close>.

  \<open>klist h L xs\<close> says that \<open>L\<close> is well formed with the nodes and values \<open>xs\<close>. The operations keep
  this as long as the list does not lose its last node; \<open>klist_last_removed\<close> below is what
  happens then.
\<close>

section \<open>Nodes, lists and operations\<close>

record listnode =
  ln_value :: addr
  ln_prev :: addr
  ln_next :: addr

record list_struct =
  l_head :: addr
  l_tail :: addr
  l_size :: u32

type_synonym node_heap = "addr \<rightharpoonup> listnode"

text \<open>The null pointer points to no node.\<close>

definition node_at :: "node_heap \<Rightarrow> addr \<Rightarrow> listnode option" where
  "node_at h p = (if p = NULL then None else h p)"

definition upd_node :: "node_heap \<Rightarrow> addr \<Rightarrow> (listnode \<Rightarrow> listnode) \<Rightarrow> node_heap option" where
  "upd_node h p f = do { nd \<leftarrow> node_at h p; Some (h(p \<mapsto> f nd)) }"

definition node_alloc :: "node_heap \<Rightarrow> addr \<Rightarrow> node_heap option" where
  "node_alloc h node =
     (if node = NULL then None else Some (h(node \<mapsto> \<lparr>ln_value = 0, ln_prev = 0, ln_next = 0\<rparr>)))"

definition node_dealloc :: "node_heap \<Rightarrow> addr \<Rightarrow> node_heap option" where
  "node_dealloc h node = do { c_assert (node \<noteq> NULL); Some (h(node := None)) }"

definition list_create :: "list_struct" where
  "list_create = \<lparr>l_head = NULL, l_tail = NULL, l_size = 0\<rparr>"

definition list_size :: "list_struct \<Rightarrow> u32" where
  "list_size L = l_size L"

definition list_empty :: "list_struct \<Rightarrow> bool" where
  "list_empty L \<longleftrightarrow> l_size L = 0"

definition list_insert_front ::
  "node_heap \<Rightarrow> list_struct \<Rightarrow> addr \<Rightarrow> addr \<Rightarrow> (addr \<times> node_heap \<times> list_struct) option" where
  "list_insert_front h L v node = do {
     c_assert (v \<noteq> NULL);
     h \<leftarrow> node_alloc h node;
     h \<leftarrow> upd_node h (l_head L) (\<lambda>nd. nd\<lparr>ln_prev := node\<rparr>);
     h \<leftarrow> upd_node h node (\<lambda>nd. nd\<lparr>ln_next := l_head L\<rparr>);
     h \<leftarrow> upd_node h node (\<lambda>nd. nd\<lparr>ln_value := v\<rparr>);
     let L = (if l_head L = NULL then L\<lparr>l_tail := node\<rparr> else L);
     Some (node, h, L\<lparr>l_head := node, l_size := l_size L + 1\<rparr>)
   }"

definition list_insert_back ::
  "node_heap \<Rightarrow> list_struct \<Rightarrow> addr \<Rightarrow> addr \<Rightarrow> (addr \<times> node_heap \<times> list_struct) option" where
  "list_insert_back h L v node = do {
     c_assert (v \<noteq> NULL);
     h \<leftarrow> node_alloc h node;
     h \<leftarrow> upd_node h node (\<lambda>nd. nd\<lparr>ln_prev := l_tail L\<rparr>);
     h \<leftarrow> (if l_tail L \<noteq> NULL then upd_node h (l_tail L) (\<lambda>nd. nd\<lparr>ln_next := node\<rparr>) else Some h);
     h \<leftarrow> upd_node h node (\<lambda>nd. nd\<lparr>ln_value := v\<rparr>);
     let L = (if l_head L = NULL then L\<lparr>l_head := node\<rparr> else L);
     Some (node, h, L\<lparr>l_tail := node, l_size := l_size L + 1\<rparr>)
   }"

definition list_remove_front ::
  "node_heap \<Rightarrow> list_struct \<Rightarrow> (addr \<times> node_heap \<times> list_struct) option" where
  "list_remove_front h L =
     (if l_head L = NULL then Some (NULL, h, L)
      else do {
        let node = l_head L;
        nd \<leftarrow> node_at h node;
        let L = L\<lparr>l_head := ln_next nd\<rparr>;
        h \<leftarrow> (if l_head L \<noteq> NULL then upd_node h (l_head L) (\<lambda>nd. nd\<lparr>ln_prev := NULL\<rparr>) else Some h);
        h \<leftarrow> node_dealloc h node;
        Some (ln_value nd, h, L\<lparr>l_size := l_size L - 1\<rparr>)
      })"

definition list_remove_back ::
  "node_heap \<Rightarrow> list_struct \<Rightarrow> (addr \<times> node_heap \<times> list_struct) option" where
  "list_remove_back h L =
     (if l_head L = NULL then Some (NULL, h, L)
      else do {
        let node = l_tail L;
        nd \<leftarrow> node_at h node;
        let L = L\<lparr>l_tail := ln_prev nd\<rparr>;
        h \<leftarrow> (if l_tail L \<noteq> NULL then upd_node h (l_tail L) (\<lambda>nd. nd\<lparr>ln_next := NULL\<rparr>) else Some h);
        h \<leftarrow> node_dealloc h node;
        Some (ln_value nd, h, L\<lparr>l_size := l_size L - 1\<rparr>)
      })"

definition list_remove_node ::
  "node_heap \<Rightarrow> list_struct \<Rightarrow> addr \<Rightarrow> (addr \<times> node_heap \<times> list_struct) option" where
  "list_remove_node h L node = do {
     c_assert (node \<noteq> NULL);
     if l_head L = node then list_remove_front h L
     else if l_tail L = node then list_remove_back h L
     else do {
       nd \<leftarrow> node_at h node;
       h \<leftarrow> upd_node h (ln_next nd) (\<lambda>n. n\<lparr>ln_prev := ln_prev nd\<rparr>);
       nd' \<leftarrow> node_at h node;
       h \<leftarrow> upd_node h (ln_prev nd') (\<lambda>n. n\<lparr>ln_next := ln_next nd'\<rparr>);
       let L = L\<lparr>l_size := l_size L - 1\<rparr>;
       h \<leftarrow> node_dealloc h node;
       Some (ln_value nd, h, L)
     }
   }"

text \<open>The loop of \<^verbatim>\<open>listnode_foreach\<close>, with a body that looks at the node's value and may leave it.\<close>

partial_function (option) listnode_foreach ::
  "(addr \<Rightarrow> addr \<Rightarrow> 's \<Rightarrow> 'a + 's) \<Rightarrow> node_heap \<Rightarrow> addr \<Rightarrow> 's \<Rightarrow> ('a + 's) option" where
  "listnode_foreach body h it s =
     (if it \<noteq> NULL then do {
        nd \<leftarrow> node_at h it;
        case body it (ln_value nd) s of
          Inl r \<Rightarrow> Some (Inl r)
        | Inr s' \<Rightarrow> listnode_foreach body h (ln_next nd) s'
      }
      else Some (Inr s))"

definition list_find :: "node_heap \<Rightarrow> list_struct \<Rightarrow> addr \<Rightarrow> addr option" where
  "list_find h L v = do {
     r \<leftarrow> listnode_foreach (\<lambda>it x s. if x = v then Inl it else Inr s) h (l_head L) ();
     Some (case r of Inl it \<Rightarrow> it | Inr _ \<Rightarrow> NULL)
   }"

definition list_push_back ::
  "node_heap \<Rightarrow> list_struct \<Rightarrow> addr \<Rightarrow> addr \<Rightarrow> (node_heap \<times> list_struct) option" where
  "list_push_back h L v node = do {
     c_assert (v \<noteq> NULL);
     (_, h, L) \<leftarrow> list_insert_back h L v node;
     Some (h, L)
   }"

definition list_pop_back ::
  "node_heap \<Rightarrow> list_struct \<Rightarrow> (addr \<times> node_heap \<times> list_struct) option" where
  "list_pop_back h L =
     (if l_head L = NULL then Some (NULL, h, L)
      else do {
        let node = l_tail L;
        nd \<leftarrow> node_at h node;
        let L = L\<lparr>l_tail := ln_prev nd\<rparr>;
        h \<leftarrow> (if l_tail L \<noteq> NULL then upd_node h (l_tail L) (\<lambda>nd. nd\<lparr>ln_next := NULL\<rparr>) else Some h);
        Some (node, h, L\<lparr>l_size := l_size L - 1\<rparr>)
      })"

definition list_pop_front ::
  "node_heap \<Rightarrow> list_struct \<Rightarrow> (addr \<times> node_heap \<times> list_struct) option" where
  "list_pop_front h L =
     (if l_head L = NULL then Some (NULL, h, L)
      else do {
        let node = l_head L;
        nd \<leftarrow> node_at h node;
        Some (node, h, L\<lparr>l_head := ln_next nd, l_size := l_size L - 1\<rparr>)
      })"

definition list_push_front ::
  "node_heap \<Rightarrow> list_struct \<Rightarrow> addr \<Rightarrow> addr \<Rightarrow> (node_heap \<times> list_struct) option" where
  "list_push_front h L v node = do {
     c_assert (v \<noteq> NULL);
     (_, h, L) \<leftarrow> list_insert_front h L v node;
     Some (h, L)
   }"

definition list_peek_front :: "node_heap \<Rightarrow> list_struct \<Rightarrow> addr option" where
  "list_peek_front h L =
     (if l_head L = NULL then Some NULL else do { nd \<leftarrow> node_at h (l_head L); Some (ln_value nd) })"

definition list_peek_back :: "node_heap \<Rightarrow> list_struct \<Rightarrow> addr option" where
  "list_peek_back h L =
     (if l_tail L = NULL then Some NULL else do { nd \<leftarrow> node_at h (l_tail L); Some (ln_value nd) })"

definition list_get_index_of_value :: "node_heap \<Rightarrow> list_struct \<Rightarrow> addr \<Rightarrow> int option" where
  "list_get_index_of_value h L v = do {
     c_assert (v \<noteq> NULL);
     r \<leftarrow> listnode_foreach (\<lambda>it x idx. if x = v then Inl idx else Inr (idx + 1)) h (l_head L) 0;
     Some (case r of Inl idx \<Rightarrow> idx | Inr _ \<Rightarrow> -1)
   }"

definition list_get_node_by_index :: "node_heap \<Rightarrow> list_struct \<Rightarrow> u32 \<Rightarrow> addr option" where
  "list_get_node_by_index h L index =
     (if index \<ge> list_size L then Some NULL
      else do {
        r \<leftarrow> listnode_foreach (\<lambda>it x curr. if index = curr then Inl it else Inr (curr + 1)) h (l_head L) 0;
        Some (case r of Inl it \<Rightarrow> it | Inr _ \<Rightarrow> NULL)
      })"

definition list_remove_by_index ::
  "node_heap \<Rightarrow> list_struct \<Rightarrow> u32 \<Rightarrow> (addr \<times> node_heap \<times> list_struct) option" where
  "list_remove_by_index h L index = do {
     node \<leftarrow> list_get_node_by_index h L index;
     if node \<noteq> NULL then list_remove_node h L node else Some (NULL, h, L)
   }"

partial_function (option) list_destroy_loop :: "node_heap \<Rightarrow> addr \<Rightarrow> node_heap option" where
  "list_destroy_loop h node =
     (if node \<noteq> NULL then do {
        nd \<leftarrow> node_at h node;
        h \<leftarrow> node_dealloc h node;
        list_destroy_loop h (ln_next nd)
      }
      else Some h)"

definition list_destroy :: "node_heap \<Rightarrow> list_struct \<Rightarrow> node_heap option" where
  "list_destroy h L = list_destroy_loop h (l_head L)"

definition list_merge ::
  "node_heap \<Rightarrow> list_struct \<Rightarrow> list_struct \<Rightarrow> (node_heap \<times> list_struct) option" where
  "list_merge h target source = do {
     (h, target) \<leftarrow> (if l_tail target \<noteq> NULL
       then do { h \<leftarrow> upd_node h (l_tail target) (\<lambda>nd. nd\<lparr>ln_next := l_head source\<rparr>); Some (h, target) }
       else Some (h, target\<lparr>l_head := l_head source\<rparr>));
     let target = (if l_tail source \<noteq> NULL then target\<lparr>l_tail := l_tail source\<rparr> else target);
     Some (h, target\<lparr>l_size := l_size target + l_size source\<rparr>)
   }"

section \<open>Well formed lists\<close>

text \<open>
  \<open>dlseg h p a xs q b\<close>: the nodes and values \<open>xs\<close> are chained from \<open>a\<close>, whose predecessor is \<open>p\<close>,
  to the node \<open>q\<close>, whose successor is \<open>b\<close>.
\<close>

fun dlseg :: "node_heap \<Rightarrow> addr \<Rightarrow> addr \<Rightarrow> (addr \<times> addr) list \<Rightarrow> addr \<Rightarrow> addr \<Rightarrow> bool" where
  "dlseg h p a [] q b = (a = b \<and> p = q)"
| "dlseg h p a ((n, v) # xs) q b = (a = n \<and> n \<noteq> NULL \<and> (case h n of None \<Rightarrow> False
     | Some nd \<Rightarrow> ln_value nd = v \<and> ln_prev nd = p \<and> dlseg h n (ln_next nd) xs q b))"

definition klist :: "node_heap \<Rightarrow> list_struct \<Rightarrow> (addr \<times> addr) list \<Rightarrow> bool" where
  "klist h L xs \<longleftrightarrow> dlseg h NULL (l_head L) xs (l_tail L) NULL \<and> distinct (map fst xs)
     \<and> l_size L = of_nat (length xs)"

lemma dlseg_append:
  "dlseg h p a (xs @ ys) q b \<longleftrightarrow> (\<exists>m c. dlseg h p a xs m c \<and> dlseg h m c ys q b)"
  by (induction xs arbitrary: p a) (fastforce split: option.splits)+

lemma dlseg_frame:
  "(\<And>n. n \<in> fst ` set xs \<Longrightarrow> h' n = h n) \<Longrightarrow> dlseg h' p a xs q b = dlseg h p a xs q b"
  by (induction xs arbitrary: p a) (auto split: option.splits)

lemma dlseg_upd [simp]: "n \<notin> fst ` set xs \<Longrightarrow> dlseg (h(n := v)) p a xs q b = dlseg h p a xs q b"
  by (rule dlseg_frame) auto

lemma dlseg_snoc:
  "dlseg h p a (xs @ [(n, v)]) q b \<longleftrightarrow> q = n \<and> n \<noteq> NULL \<and> (case h n of None \<Rightarrow> False
     | Some nd \<Rightarrow> ln_value nd = v \<and> ln_next nd = b \<and> dlseg h p a xs (ln_prev nd) n)"
  by (auto simp: dlseg_append split: option.splits)

lemma dlseg_null_head: "dlseg h p NULL xs q b \<Longrightarrow> xs = []"
  by (cases xs) auto

lemma dlseg_nodes_nonnull: "dlseg h p a xs q b \<Longrightarrow> n \<in> fst ` set xs \<Longrightarrow> n \<noteq> NULL \<and> h n \<noteq> None"
proof (induction xs arbitrary: p a)
  case (Cons x xs)
  obtain m v nd where x: "x = (m, v)" "a = m" "m \<noteq> NULL" "h m = Some nd" "dlseg h m (ln_next nd) xs q b"
    using Cons.prems(1) by (cases x) (auto split: option.splits)
  then show ?case using Cons.IH [OF x(5)] Cons.prems(2) by auto
qed simp

fun foreach_list :: "(addr \<Rightarrow> addr \<Rightarrow> 's \<Rightarrow> 'a + 's) \<Rightarrow> (addr \<times> addr) list \<Rightarrow> 's \<Rightarrow> 'a + 's" where
  "foreach_list body [] s = Inr s"
| "foreach_list body ((n, v) # xs) s =
     (case body n v s of Inl r \<Rightarrow> Inl r | Inr s' \<Rightarrow> foreach_list body xs s')"

lemma listnode_foreach_ok:
  "dlseg h p a xs q NULL \<Longrightarrow> listnode_foreach body h a s = Some (foreach_list body xs s)"
proof (induction body xs s arbitrary: p a rule: foreach_list.induct)
  case (1 body s)
  then show ?case by (subst listnode_foreach.simps) simp
next
  case (2 body n v xs s)
  then show ?case
    by (subst listnode_foreach.simps) (auto simp: node_at_def split: option.splits sum.splits)
qed

section \<open>What the operations do\<close>

lemma klist_create: "klist h list_create []"
  by (simp add: klist_def list_create_def)

lemma list_insert_back_ok:
  assumes "klist h L xs" and "v \<noteq> NULL" and "node \<noteq> NULL" and "h node = None"
  shows "\<exists>h' L'. list_insert_back h L v node = Some (node, h', L') \<and> klist h' L' (xs @ [(node, v)])
    \<and> (\<forall>n. n \<noteq> node \<and> n \<notin> fst ` set xs \<longrightarrow> h' n = h n)"
proof (cases xs rule: rev_cases)
  case Nil
  then show ?thesis
    using assms by (simp add: klist_def list_insert_back_def node_alloc_def upd_node_def node_at_def)
next
  case (snoc ys y)
  obtain t w where y: "y = (t, w)" by force
  have seg: "dlseg h NULL (l_head L) (ys @ [(t, w)]) (l_tail L) NULL" and dist: "distinct (map fst (ys @ [(t, w)]))"
    using assms(1) snoc y by (auto simp: klist_def)
  then obtain nd where t: "l_tail L = t" "t \<noteq> NULL" "h t = Some nd" "ln_value nd = w" "ln_next nd = NULL"
    "dlseg h NULL (l_head L) ys (ln_prev nd) t"
    by (auto simp: dlseg_snoc split: option.splits)
  have nt: "node \<noteq> t" and nys: "node \<notin> fst ` set ys"
    using assms(4) t(3) dlseg_nodes_nonnull [OF t(6), of node] by auto
  have hd: "l_head L \<noteq> NULL" using seg dlseg_null_head by fastforce
  show ?thesis
    using assms(1,2,3) t nt nys hd dist snoc y
    by (simp add: list_insert_back_def node_alloc_def upd_node_def node_at_def klist_def)
       (simp add: dlseg_append)
qed

lemma list_remove_front_ok:
  assumes "klist h L ((n, v) # ys)" and "ys \<noteq> []"
  shows "\<exists>h' L'. list_remove_front h L = Some (v, h', L') \<and> klist h' L' ys \<and> h' n = None"
proof -
  obtain m w zs where ys: "ys = (m, w) # zs" using assms(2) by (metis neq_Nil_conv surj_pair)
  obtain nd md where n: "l_head L = n" "n \<noteq> NULL" "h n = Some nd" "ln_value nd = v" "ln_next nd = m"
    "m \<noteq> NULL" "h m = Some md" "ln_value md = w" "dlseg h m (ln_next md) zs (l_tail L) NULL"
    and "distinct (n # m # map fst zs)" "l_size L = of_nat (length zs) + 2"
    using assms(1) ys by (auto simp: klist_def algebra_simps split: option.splits)
  then show ?thesis
    using ys by (auto simp: list_remove_front_def node_at_def upd_node_def node_dealloc_def klist_def)
qed

lemma list_remove_back_ok:
  assumes "klist h L (xs @ [(n, v)])" and "xs \<noteq> []"
  shows "\<exists>h' L'. list_remove_back h L = Some (v, h', L') \<and> klist h' L' xs \<and> h' n = None"
proof -
  obtain m w zs where xs: "xs = zs @ [(m, w)]" using assms(2) by (metis rev_exhaust surj_pair)
  have seg: "dlseg h NULL (l_head L) ((zs @ [(m, w)]) @ [(n, v)]) (l_tail L) NULL"
    and rest: "distinct (map fst zs)" "n \<noteq> m" "m \<notin> fst ` set zs" "n \<notin> fst ` set zs"
      "l_size L = of_nat (length zs) + 2"
    using assms(1) xs by (auto simp: klist_def algebra_simps)
  obtain nd md where n: "l_tail L = n" "n \<noteq> NULL" "h n = Some nd" "ln_value nd = v" "ln_prev nd = m"
    "m \<noteq> NULL" "h m = Some md" "ln_value md = w" "dlseg h NULL (l_head L) zs (ln_prev md) m"
    using seg unfolding dlseg_snoc by (auto split: option.splits)
  have "l_head L \<noteq> NULL" using seg dlseg_null_head by fastforce
  then show ?thesis
    using xs n rest
    by (auto simp: list_remove_back_def node_at_def upd_node_def node_dealloc_def klist_def dlseg_snoc)
qed

lemma list_remove_middle_ok:
  assumes "klist h L (xs @ (n, v) # ys)" and "xs \<noteq> []" and "ys \<noteq> []"
  shows "\<exists>h' L'. list_remove_node h L n = Some (v, h', L') \<and> klist h' L' (xs @ ys) \<and> h' n = None"
proof -
  obtain p u as where xs: "xs = as @ [(p, u)]" using assms(2) by (metis rev_exhaust surj_pair)
  obtain m w bs where ys: "ys = (m, w) # bs" using assms(3) by (metis neq_Nil_conv surj_pair)
  have seg: "dlseg h NULL (l_head L) (as @ (p, u) # (n, v) # (m, w) # bs) (l_tail L) NULL"
    and dist: "distinct (map fst as)" "distinct (map fst bs)" "fst ` set as \<inter> fst ` set bs = {}"
      "p \<noteq> n" "p \<noteq> m" "n \<noteq> m" "{p, n, m} \<inter> (fst ` set as \<union> fst ` set bs) = {}"
    and sz: "l_size L = of_nat (length as + length bs) + 3"
    using assms(1) xs ys by (auto simp: klist_def algebra_simps)
  from seg obtain pd nd md where pn: "dlseg h NULL (l_head L) as (ln_prev pd) p" "p \<noteq> NULL" "h p = Some pd"
    "ln_value pd = u" "ln_next pd = n" "n \<noteq> NULL" "h n = Some nd" "ln_value nd = v" "ln_prev nd = p"
    "ln_next nd = m" "m \<noteq> NULL" "h m = Some md" "ln_value md = w" "ln_prev md = n"
    "dlseg h m (ln_next md) bs (l_tail L) NULL"
    by (auto simp: dlseg_append split: option.splits)
  have "l_head L \<noteq> n"
    using pn(1,2) dist by (cases as) (auto split: option.splits)
  moreover have "l_tail L \<noteq> n"
    using pn(15) dist(6,7) by (cases bs rule: rev_cases) (auto simp: dlseg_append split: option.splits)
  ultimately have "list_remove_node h L n = Some (v, (h(m \<mapsto> md\<lparr>ln_prev := p\<rparr>, p \<mapsto> pd\<lparr>ln_next := m\<rparr>))(n := None),
      L\<lparr>l_size := l_size L - 1\<rparr>)"
    using pn dist by (simp add: list_remove_node_def node_at_def upd_node_def node_dealloc_def)
  moreover have "klist ((h(m \<mapsto> md\<lparr>ln_prev := p\<rparr>, p \<mapsto> pd\<lparr>ln_next := m\<rparr>))(n := None))
      (L\<lparr>l_size := l_size L - 1\<rparr>) (as @ (p, u) # (m, w) # bs)"
    using pn dist sz by (auto simp: klist_def dlseg_append)
  ultimately show ?thesis using xs ys by simp
qed

lemma klist_head: "klist h L ((n, v) # xs) \<Longrightarrow> l_head L = n"
  by (simp add: klist_def)

lemma klist_tail: "klist h L (xs @ [(n, v)]) \<Longrightarrow> l_tail L = n"
  by (simp add: klist_def dlseg_snoc)

section \<open>Properties\<close>

text \<open>
  C18. Removing a node from a list that has another node returns the value of the node, frees the
  node and leaves a well formed list with the other nodes in their order, whether the node
  was the first one, the last one or one in between.
\<close>

theorem list_remove_node_spec:
  assumes "klist h L (xs @ (n, v) # ys)" and "xs @ ys \<noteq> []"
  shows "\<exists>h' L'. list_remove_node h L n = Some (v, h', L') \<and> klist h' L' (xs @ ys) \<and> h' n = None"
proof -
  have n0: "n \<noteq> NULL" using assms(1) dlseg_nodes_nonnull [of h NULL _ _ _ NULL n] by (fastforce simp: klist_def)
  consider "xs = []" | "xs \<noteq> []" "ys = []" | "xs \<noteq> []" "ys \<noteq> []" by blast
  then show ?thesis
  proof cases
    case 1
    then show ?thesis
      using assms n0 klist_head [of h L n v ys] list_remove_front_ok [of h L n v ys]
      by (simp add: list_remove_node_def)
  next
    case 2
    have "l_head L \<noteq> n"
      using assms(1) 2 by (cases xs) (auto simp: klist_def)
    then show ?thesis
      using 2 assms n0 klist_tail [of h L xs n v] list_remove_back_ok [of h L xs n v]
      by (simp add: list_remove_node_def)
  next
    case 3
    then show ?thesis using list_remove_middle_ok [OF assms(1)] by blast
  qed
qed

theorem list_remove_node_spec_witness:
  "\<exists>h' L'. list_remove_node [1 \<mapsto> \<lparr>ln_value = 10, ln_prev = 0, ln_next = 2\<rparr>,
         2 \<mapsto> \<lparr>ln_value = 20, ln_prev = 1, ln_next = 3\<rparr>, 3 \<mapsto> \<lparr>ln_value = 30, ln_prev = 2, ln_next = 0\<rparr>]
       \<lparr>l_head = 1, l_tail = 3, l_size = 3\<rparr> 2 = Some (20, h', L') \<and> klist h' L' [(1, 10), (3, 30)]
     \<and> h' 2 = None"
  using list_remove_node_spec [of "[1 \<mapsto> \<lparr>ln_value = 10, ln_prev = 0, ln_next = 2\<rparr>,
         2 \<mapsto> \<lparr>ln_value = 20, ln_prev = 1, ln_next = 3\<rparr>, 3 \<mapsto> \<lparr>ln_value = 30, ln_prev = 2, ln_next = 0\<rparr>]"
       "\<lparr>l_head = 1, l_tail = 3, l_size = 3\<rparr>" "[(1, 10)]" 2 20 "[(3, 30)]"]
  by (simp add: klist_def)

text \<open>
  C19. When the only node of a list is removed, \<^verbatim>\<open>list_remove_front\<close> leaves the tail of the list
  pointing to the freed node: the next \<^verbatim>\<open>list_insert_back\<close> writes through that pointer.
\<close>

theorem list_last_node_dangling:
  assumes "klist h L [(n, v)]" and "node \<noteq> n"
  shows "\<exists>h' L'. list_remove_node h L n = Some (v, h', L') \<and> l_size L' = 0 \<and> l_head L' = NULL
    \<and> l_tail L' = n \<and> h' n = None \<and> list_insert_back h' L' w node = None"
proof -
  obtain nd where "h n = Some nd" "n \<noteq> NULL" "l_head L = n" "l_tail L = n" "ln_value nd = v"
    "ln_next nd = NULL" "l_size L = 1"
    using assms(1) by (auto simp: klist_def split: option.splits)
  then have "list_remove_node h L n = Some (v, h(n := None), L\<lparr>l_head := NULL, l_size := 0\<rparr>)"
    and "list_insert_back (h(n := None)) (L\<lparr>l_head := NULL, l_size := 0\<rparr>) w node = None"
    and "l_tail L = n"
    using assms(2)
    by (simp_all add: list_remove_node_def list_remove_front_def node_at_def node_dealloc_def
        list_insert_back_def node_alloc_def upd_node_def)
  then show ?thesis by simp
qed

theorem list_last_node_dangling_witness:
  "\<exists>h' L'. list_remove_node [1 \<mapsto> \<lparr>ln_value = 10, ln_prev = 0, ln_next = 0\<rparr>]
       \<lparr>l_head = 1, l_tail = 1, l_size = 1\<rparr> 1 = Some (10, h', L')
     \<and> l_size L' = 0 \<and> list_insert_back h' L' 20 2 = None"
  using list_last_node_dangling [of "[1 \<mapsto> \<lparr>ln_value = 10, ln_prev = 0, ln_next = 0\<rparr>]"
       "\<lparr>l_head = 1, l_tail = 1, l_size = 1\<rparr>" 1 10 2 20]
  by (auto simp: klist_def)

end
