(* ===== verification/Hashmap.thy ===== *)
theory Hashmap
  imports Cstring_Props Klist
begin

text \<open>
  The chained hash table of \<^verbatim>\<open>src/kernel/lib/hashmap.c\<close>. A bucket is the list of its entries in the
  order of the chain. The keys are of any type: addresses for tables keyed by integers or by
  pointers, the characters of a string where only the contents matter. The function
  pointers of the structure for hashing, comparing and duplicating keys are fields of the record; the one that frees a key is left out,
  like the release of memory in general.

  The locale \<open>hash_keys\<close> is what the table relies on from these functions; \<open>hm_lookup\<close> is the
  table as a partial map. The lemmas show that the operations are those of a map, and where
  \<^verbatim>\<open>hashmap_remove\<close> runs off the end of a chain.
\<close>

section \<open>The table and its operations\<close>

record 'k hashmap_entry =
  he_key :: 'k
  he_value :: addr

record 'k hashmap =
  hash_func :: "'k \<Rightarrow> u32"
  hash_comp :: "'k \<Rightarrow> 'k \<Rightarrow> bool"
  hash_key_dup :: "'k \<Rightarrow> 'k"
  hm_size :: u32
  hm_entries :: "'k hashmap_entry list list"

definition hashmap_int_hash :: "addr \<Rightarrow> u32" where
  "hashmap_int_hash key = key"

definition hashmap_int_comp :: "addr \<Rightarrow> addr \<Rightarrow> bool" where
  "hashmap_int_comp a b \<longleftrightarrow> sint a = sint b"

partial_function (option) hashmap_str_hash_loop :: "cmem \<Rightarrow> addr \<Rightarrow> u32 \<Rightarrow> u32 option" where
  "hashmap_str_hash_loop M key hash = do {
     c \<leftarrow> M key;
     if c \<noteq> 0 then hashmap_str_hash_loop M (key + 1)
       (word_of_int (sint c) + push_bit 6 hash + push_bit 16 hash - hash)
     else Some hash
   }"

definition hashmap_str_hash :: "cmem \<Rightarrow> addr \<Rightarrow> u32 option" where
  "hashmap_str_hash M key = hashmap_str_hash_loop M key 0"

definition hashmap_str_comp :: "cmem \<Rightarrow> addr \<Rightarrow> addr \<Rightarrow> bool option" where
  "hashmap_str_comp M a b = do { r \<leftarrow> strcmp M a b; Some (r = 0) }"

definition hashmap_do_not_duplicate :: "'k \<Rightarrow> 'k" where
  "hashmap_do_not_duplicate v = v"

definition hashmap_create ::
  "u32 \<Rightarrow> ('k \<Rightarrow> u32) \<Rightarrow> ('k \<Rightarrow> 'k \<Rightarrow> bool) \<Rightarrow> ('k \<Rightarrow> 'k) \<Rightarrow> 'k hashmap" where
  "hashmap_create n hash_fun comp_fun dupe_fun =
     \<lparr>hash_func = hash_fun, hash_comp = comp_fun, hash_key_dup = dupe_fun, hm_size = n,
      hm_entries = replicate (unat n) []\<rparr>"

text \<open>The index of a bucket; a table of size 0 divides by zero.\<close>

definition bucket_of :: "'k hashmap \<Rightarrow> 'k \<Rightarrow> nat option" where
  "bucket_of m key = (if hm_size m = 0 then None else Some (unat (hash_func m key mod hm_size m)))"

text \<open>The \<^verbatim>\<open>do ... while\<close> loop of \<^verbatim>\<open>hashmap_set\<close>, then the new entry at the end of the chain.\<close>

fun set_chain :: "'k hashmap \<Rightarrow> 'k \<Rightarrow> addr \<Rightarrow> 'k hashmap_entry list \<Rightarrow> addr \<times> 'k hashmap_entry list" where
  "set_chain m key v [] = (NULL, [\<lparr>he_key = hash_key_dup m key, he_value = v\<rparr>])"
| "set_chain m key v (x # xs) =
     (if hash_comp m (he_key x) key then (he_value x, x\<lparr>he_value := v\<rparr> # xs)
      else (let (old, ys) = set_chain m key v xs in (old, x # ys)))"

definition hashmap_set :: "'k hashmap \<Rightarrow> 'k \<Rightarrow> addr \<Rightarrow> (addr \<times> 'k hashmap) option" where
  "hashmap_set m key v = do {
     i \<leftarrow> bucket_of m key;
     let (old, b) = set_chain m key v (hm_entries m ! i);
     Some (old, m\<lparr>hm_entries := (hm_entries m)[i := b]\<rparr>)
   }"

fun get_chain :: "'k hashmap \<Rightarrow> 'k \<Rightarrow> 'k hashmap_entry list \<Rightarrow> addr" where
  "get_chain m key [] = NULL"
| "get_chain m key (x # xs) = (if hash_comp m (he_key x) key then he_value x else get_chain m key xs)"

definition hashmap_get :: "'k hashmap \<Rightarrow> 'k \<Rightarrow> addr option" where
  "hashmap_get m key = do { i \<leftarrow> bucket_of m key; Some (get_chain m key (hm_entries m ! i)) }"

text \<open>
  The second loop of \<^verbatim>\<open>hashmap_remove\<close> starts with the entry after the first one without asking
  whether there is one: the empty chain is the null pointer, which it reads.
\<close>

fun remove_chain_tail ::
  "'k hashmap \<Rightarrow> 'k \<Rightarrow> 'k hashmap_entry list \<Rightarrow> (addr \<times> 'k hashmap_entry list) option" where
  "remove_chain_tail m key [] = None"
| "remove_chain_tail m key (x # xs) =
     (if hash_comp m (he_key x) key then Some (he_value x, xs)
      else if xs = [] then Some (NULL, [x])
      else do { (out, ys) \<leftarrow> remove_chain_tail m key xs; Some (out, x # ys) })"

definition remove_chain ::
  "'k hashmap \<Rightarrow> 'k \<Rightarrow> 'k hashmap_entry list \<Rightarrow> (addr \<times> 'k hashmap_entry list) option" where
  "remove_chain m key b = (case b of
       [] \<Rightarrow> Some (NULL, [])
     | x # xs \<Rightarrow>
         if hash_comp m (he_key x) key then Some (he_value x, xs)
         else do { (out, ys) \<leftarrow> remove_chain_tail m key xs; Some (out, x # ys) })"

definition hashmap_remove :: "'k hashmap \<Rightarrow> 'k \<Rightarrow> (addr \<times> 'k hashmap) option" where
  "hashmap_remove m key = do {
     i \<leftarrow> bucket_of m key;
     (out, b) \<leftarrow> remove_chain m key (hm_entries m ! i);
     Some (out, m\<lparr>hm_entries := (hm_entries m)[i := b]\<rparr>)
   }"

definition hashmap_is_empty :: "'k hashmap \<Rightarrow> bool" where
  "hashmap_is_empty m \<longleftrightarrow> list_all (\<lambda>b. b = []) (hm_entries m)"

definition hashmap_has :: "'k hashmap \<Rightarrow> 'k \<Rightarrow> bool option" where
  "hashmap_has m key = do {
     i \<leftarrow> bucket_of m key;
     Some (list_ex (\<lambda>x. hash_comp m (he_key x) key) (hm_entries m ! i))
   }"

text \<open>
  The lists of \<^verbatim>\<open>hashmap_keys\<close> and \<^verbatim>\<open>hashmap_values\<close>. \<open>nodes\<close> are the addresses that \<^verbatim>\<open>kmalloc\<close>
  answers for the nodes, in turn.
\<close>

fun insert_all ::
  "node_heap \<Rightarrow> list_struct \<Rightarrow> addr list \<Rightarrow> addr list \<Rightarrow> (node_heap \<times> list_struct) option" where
  "insert_all h l [] nodes = Some (h, l)"
| "insert_all h l (v # vs) [] = None"
| "insert_all h l (v # vs) (n # nodes) = do {
     (_, h, l) \<leftarrow> list_insert_back h l v n;
     insert_all h l vs nodes
   }"

definition hashmap_keys ::
  "node_heap \<Rightarrow> addr hashmap \<Rightarrow> addr list \<Rightarrow> (node_heap \<times> list_struct) option" where
  "hashmap_keys h m nodes = insert_all h list_create (map he_key (concat (hm_entries m))) nodes"

definition hashmap_values ::
  "node_heap \<Rightarrow> 'k hashmap \<Rightarrow> addr list \<Rightarrow> (node_heap \<times> list_struct) option" where
  "hashmap_values h m nodes = insert_all h list_create (map he_value (concat (hm_entries m))) nodes"

section \<open>The table as a partial map\<close>

definition chain_lookup :: "('k \<Rightarrow> 'k \<Rightarrow> bool) \<Rightarrow> 'k hashmap_entry list \<Rightarrow> 'k \<Rightarrow> addr option" where
  "chain_lookup same b k = map_option he_value (find (\<lambda>x. same (he_key x) k) b)"

definition hm_lookup :: "'k hashmap \<Rightarrow> 'k \<Rightarrow> addr option" where
  "hm_lookup m k = chain_lookup (hash_comp m) (hm_entries m ! unat (hash_func m k mod hm_size m)) k"

text \<open>A table that can be used: at least one bucket, and no bucket with two entries for a key.\<close>

definition chain_ok :: "('k \<Rightarrow> 'k \<Rightarrow> bool) \<Rightarrow> 'k hashmap_entry list \<Rightarrow> bool" where
  "chain_ok same b \<longleftrightarrow> sorted_wrt (\<lambda>x y. \<not> same (he_key x) (he_key y)) b"

definition hm_ok :: "'k hashmap \<Rightarrow> bool" where
  "hm_ok m \<longleftrightarrow> hm_size m \<noteq> 0 \<and> length (hm_entries m) = unat (hm_size m)
     \<and> list_all (chain_ok (hash_comp m)) (hm_entries m)"

text \<open>What a C caller sees of a lookup: the null pointer when there is no entry.\<close>

definition ptr_of :: "addr option \<Rightarrow> addr" where
  "ptr_of r = (case r of None \<Rightarrow> NULL | Some v \<Rightarrow> v)"

section \<open>What the table relies on from its keys\<close>

locale hash_keys =
  fixes hash :: "'k \<Rightarrow> u32"
    and same :: "'k \<Rightarrow> 'k \<Rightarrow> bool"
    and dup :: "'k \<Rightarrow> 'k"
  assumes same_refl: "same a a"
    and same_sym: "same a b \<Longrightarrow> same b a"
    and same_trans: "same a b \<Longrightarrow> same b c \<Longrightarrow> same a c"
    and same_hash: "same a b \<Longrightarrow> hash a = hash b"
    and same_dup: "same (dup a) a"
begin

lemma same_cong: "same a b \<Longrightarrow> same a c \<longleftrightarrow> same b c"
  by (blast intro: same_sym same_trans)

lemma same_cong_right: "same a b \<Longrightarrow> same c a \<longleftrightarrow> same c b"
  by (blast intro: same_sym same_trans)

lemma same_dup_iff: "same (dup a) b \<longleftrightarrow> same a b"
  by (rule same_cong) (rule same_dup)

lemma set_chain_old:
  "hash_comp m = same \<Longrightarrow> fst (set_chain m k v b) = ptr_of (chain_lookup same b k)"
  by (induction b) (auto simp: chain_lookup_def ptr_of_def case_prod_beta Let_def)

lemma set_chain_lookup:
  "hash_comp m = same \<Longrightarrow> hash_key_dup m = dup \<Longrightarrow>
     chain_lookup same (snd (set_chain m k v b)) k' = (if same k k' then Some v else chain_lookup same b k')"
proof (induction b)
  case Nil
  then show ?case by (simp add: chain_lookup_def same_dup_iff)
next
  case (Cons x b)
  then show ?case
    using same_cong [of "he_key x" k k'] same_cong_right [of k k' "he_key x"] by (auto simp: chain_lookup_def case_prod_beta Let_def)
qed

lemma set_chain_keys:
  "hash_comp m = same \<Longrightarrow> hash_key_dup m = dup \<Longrightarrow> y \<in> set (snd (set_chain m k v b)) \<Longrightarrow>
     (\<exists>z \<in> set b. he_key y = he_key z) \<or> same k (he_key y)"
proof (induction b)
  case Nil
  then show ?case using same_sym [OF same_dup, of k] by simp
qed (auto simp: case_prod_beta Let_def split: if_splits)

lemma set_chain_ok:
  "hash_comp m = same \<Longrightarrow> hash_key_dup m = dup \<Longrightarrow> chain_ok same b \<Longrightarrow>
     chain_ok same (snd (set_chain m k v b))"
proof (induction b)
  case (Cons x b)
  show ?case
  proof (cases "same (he_key x) k")
    case True
    then show ?thesis using Cons.prems by (simp add: chain_ok_def)
  next
    case False
    have "\<not> same (he_key x) (he_key y)" if "y \<in> set (snd (set_chain m k v b))" for y
      using set_chain_keys [OF Cons.prems(1,2) that] Cons.prems(3) False same_sym same_trans
      unfolding chain_ok_def by (metis sorted_wrt.simps(2))
    then show ?thesis
      using Cons False by (auto simp: chain_ok_def case_prod_beta Let_def)
  qed
qed (simp add: chain_ok_def)

lemma get_chain_lookup: "hash_comp m = same \<Longrightarrow> get_chain m k b = ptr_of (chain_lookup same b k)"
  by (induction b) (auto simp: chain_lookup_def ptr_of_def)

text \<open>What is left of a chain when the entry of a key is taken out.\<close>

lemma chain_lookup_filter:
  "chain_lookup same (filter (\<lambda>x. \<not> same (he_key x) k) b) k'
     = (if same k k' then None else chain_lookup same b k')"
proof (induction b)
  case (Cons x b)
  then show ?case
    using same_cong [of "he_key x" k k'] same_cong_right [of k k' "he_key x"] by (auto simp: chain_lookup_def)
qed (simp add: chain_lookup_def)

lemma chain_ok_others:
  assumes "chain_ok same (x # b)" and "same (he_key x) k"
  shows "filter (\<lambda>x. \<not> same (he_key x) k) b = b"
  using assms same_sym same_trans unfolding chain_ok_def
  by (intro filter_True) (metis sorted_wrt.simps(2))

lemma remove_chain_tail_ok:
  "hash_comp m = same \<Longrightarrow> chain_ok same b \<Longrightarrow> b \<noteq> [] \<Longrightarrow>
     remove_chain_tail m k b = Some (ptr_of (chain_lookup same b k), filter (\<lambda>x. \<not> same (he_key x) k) b)"
proof (induction b)
  case (Cons x b)
  show ?case
  proof (cases "same (he_key x) k")
    case True
    then show ?thesis
      using Cons.prems chain_ok_others [of x b k] by (simp add: chain_lookup_def ptr_of_def)
  next
    case False
    then show ?thesis using Cons by (auto simp: chain_ok_def chain_lookup_def ptr_of_def)
  qed
qed simp

lemma remove_chain_ok:
  assumes "hash_comp m = same" and "chain_ok same b"
  shows "remove_chain m k b = (if length b = 1 \<and> \<not> same (he_key (hd b)) k then None
    else Some (ptr_of (chain_lookup same b k), filter (\<lambda>x. \<not> same (he_key x) k) b))"
proof (cases b)
  case (Cons x xs)
  show ?thesis
  proof (cases "same (he_key x) k")
    case True
    then show ?thesis
      using assms Cons chain_ok_others [of x xs k]
      by (simp add: remove_chain_def chain_lookup_def ptr_of_def)
  next
    case False
    then show ?thesis
      using assms Cons remove_chain_tail_ok [of m xs k]
      by (cases "xs = []") (auto simp: remove_chain_def chain_ok_def chain_lookup_def)
  qed
qed (simp add: remove_chain_def chain_lookup_def ptr_of_def)

lemma chain_ok_filter: "chain_ok same b \<Longrightarrow> chain_ok same (filter P b)"
  by (simp add: chain_ok_def sorted_wrt_filter)

end

subsection \<open>Keys that are integers and keys that are strings\<close>

interpretation int_keys: hash_keys hashmap_int_hash hashmap_int_comp hashmap_do_not_duplicate
  by unfold_locales (auto simp: hashmap_int_hash_def hashmap_int_comp_def hashmap_do_not_duplicate_def
      intro: signed_word_eqI)

text \<open>The hash of a string as a function of its characters.\<close>

fun sdbm :: "u32 \<Rightarrow> u8 list \<Rightarrow> u32" where
  "sdbm hash [] = hash"
| "sdbm hash (c # s) = sdbm (word_of_int (sint c) + push_bit 6 hash + push_bit 16 hash - hash) s"

interpretation str_keys: hash_keys "sdbm 0" "(=)" hashmap_do_not_duplicate
  by unfold_locales (auto simp: hashmap_do_not_duplicate_def)

lemma hashmap_str_hash_loop_ok:
  "cstr M p s \<Longrightarrow> hashmap_str_hash_loop M p hash = Some (sdbm hash s)"
proof (induction s arbitrary: p hash)
  case Nil
  then show ?case by (subst hashmap_str_hash_loop.simps) simp
next
  case (Cons c s)
  then show ?case by (subst hashmap_str_hash_loop.simps) simp
qed

section \<open>Properties\<close>

lemma bucket_in_range:
  assumes "hm_ok m"
  shows "bucket_of m k = Some (unat (hash_func m k mod hm_size m))"
    and "unat (hash_func m k mod hm_size m) < length (hm_entries m)"
  using assms by (auto simp: bucket_of_def hm_ok_def unat_mod unat_gt_0)

lemma hm_ok_update:
  assumes "hm_ok m" and "chain_ok (hash_comp m) b"
  shows "hm_ok (m\<lparr>hm_entries := (hm_entries m)[i := b]\<rparr>)"
  using assms by (auto simp: hm_ok_def list_all_iff dest!: set_update_subset_insert [THEN subsetD])

lemma hm_ok_bucket:
  "hm_ok m \<Longrightarrow> i < length (hm_entries m) \<Longrightarrow> chain_ok (hash_comp m) (hm_entries m ! i)"
  by (simp add: hm_ok_def list_all_length)

text \<open>Replacing the bucket of \<open>k\<close> changes lookups in that bucket only.\<close>

lemma hm_lookup_update:
  assumes "hm_ok m"
  shows "hm_lookup (m\<lparr>hm_entries := (hm_entries m)[unat (hash_func m k mod hm_size m) := b]\<rparr>) k'
    = (if unat (hash_func m k' mod hm_size m) = unat (hash_func m k mod hm_size m)
       then chain_lookup (hash_comp m) b k' else hm_lookup m k')"
  using bucket_in_range(2) [OF assms] by (auto simp: hm_lookup_def nth_list_update)

text \<open>
  C8. \<^verbatim>\<open>hashmap_set\<close> is map update: it returns what the key was bound to before (null if nothing),
  binds the key, keeps every other binding and the well-formedness of the table, and
  \<^verbatim>\<open>hashmap_get\<close> finds exactly the bindings. A key that is present is no failure: its value is overwritten and the old
  value is returned, where the header promises an error and a pointer to the existing entry.
\<close>

theorem hashmap_set_get:
  assumes "hash_keys (hash_func m) (hash_comp m) (hash_key_dup m)" and "hm_ok m"
  shows "\<exists>m'. hashmap_set m k v = Some (ptr_of (hm_lookup m k), m') \<and> hm_ok m'
    \<and> (\<forall>k'. hm_lookup m' k' = (if hash_comp m k k' then Some v else hm_lookup m k'))
    \<and> (\<forall>k'. hashmap_get m' k' = Some (ptr_of (if hash_comp m k k' then Some v else hm_lookup m k')))"
proof -
  note keys = assms(1)
  let ?i = "unat (hash_func m k mod hm_size m)"
  let ?b = "hm_entries m ! ?i"
  let ?m = "m\<lparr>hm_entries := (hm_entries m)[?i := snd (set_chain m k v ?b)]\<rparr>"
  have set: "hashmap_set m k v = Some (ptr_of (hm_lookup m k), ?m)"
    using bucket_in_range [OF assms(2), of k] hash_keys.set_chain_old [OF keys refl, of k v ?b]
    by (simp add: hashmap_set_def hm_lookup_def case_prod_beta)
  have ok: "hm_ok ?m"
    using assms(2) bucket_in_range(2) [OF assms(2)]
    by (intro hm_ok_update hash_keys.set_chain_ok [OF keys refl refl] hm_ok_bucket)
  have look: "hm_lookup ?m k' = (if hash_comp m k k' then Some v else hm_lookup m k')" for k'
    unfolding hm_lookup_update [OF assms(2)] hash_keys.set_chain_lookup [OF keys refl refl]
    using hash_keys.same_hash [OF keys, of k k'] by (auto simp: hm_lookup_def)
  moreover have "hashmap_get ?m k' = Some (ptr_of (hm_lookup ?m k'))" for k'
    using bucket_in_range [OF ok, of k'] hash_keys.get_chain_lookup [OF keys, of ?m k']
    by (simp add: hashmap_get_def hm_lookup_def)
  ultimately show ?thesis using set ok by auto
qed

theorem hashmap_set_get_witness:
  "\<exists>m'. hashmap_set (hashmap_create 4 hashmap_int_hash hashmap_int_comp hashmap_do_not_duplicate) 6 77
      = Some (0, m') \<and> hashmap_get m' 6 = Some 77 \<and> hashmap_get m' 2 = Some 0"
proof -
  let ?m = "hashmap_create 4 hashmap_int_hash hashmap_int_comp (hashmap_do_not_duplicate :: addr \<Rightarrow> addr)"
  have "hash_keys (hash_func ?m) (hash_comp ?m) (hash_key_dup ?m)"
    using int_keys.hash_keys_axioms by (simp add: hashmap_create_def)
  moreover have "hm_ok ?m" by (simp add: hm_ok_def hashmap_create_def list_all_iff chain_ok_def)
  moreover have "hm_lookup ?m k = None" for k
    using bucket_in_range(2) [OF \<open>hm_ok ?m\<close>, of k]
    by (simp add: hm_lookup_def hashmap_create_def chain_lookup_def)
  ultimately show ?thesis
    using hashmap_set_get [of ?m 6 77]
    by (auto simp: ptr_of_def) (auto simp: hashmap_create_def hashmap_int_comp_def)
qed

text \<open>
  C20. \<^verbatim>\<open>hashmap_remove\<close> takes the binding of the key out of the map and returns its value (null if
  there is none), except when the bucket of the key holds exactly one entry and that entry
  is for another key: then the function reads through a null pointer.
\<close>

theorem hashmap_remove_spec:
  fixes m :: "'k hashmap" and k :: 'k
  assumes "hash_keys (hash_func m) (hash_comp m) (hash_key_dup m)" and "hm_ok m"
  defines "b \<equiv> hm_entries m ! unat (hash_func m k mod hm_size m)"
  shows "if length b = 1 \<and> \<not> hash_comp m (he_key (hd b)) k then hashmap_remove m k = None
    else (\<exists>m'. hashmap_remove m k = Some (ptr_of (hm_lookup m k), m') \<and> hm_ok m'
      \<and> (\<forall>k'. hm_lookup m' k' = (if hash_comp m k k' then None else hm_lookup m k')))"
proof -
  note keys = assms(1)
  let ?i = "unat (hash_func m k mod hm_size m)"
  have cok: "chain_ok (hash_comp m) b"
    unfolding b_def using assms(2) bucket_in_range(2) [OF assms(2)] by (rule hm_ok_bucket)
  note rem = hash_keys.remove_chain_ok [OF keys refl cok, of k]
  let ?b = "filter (\<lambda>x. \<not> hash_comp m (he_key x) k) b"
  let ?m = "m\<lparr>hm_entries := (hm_entries m)[?i := ?b]\<rparr>"
  show ?thesis
  proof (cases "length b = 1 \<and> \<not> hash_comp m (he_key (hd b)) k")
    case True
    then show ?thesis
      using rem bucket_in_range(1) [OF assms(2), of k] by (simp add: hashmap_remove_def b_def)
  next
    case False
    have "remove_chain m k b = Some (ptr_of (chain_lookup (hash_comp m) b k), ?b)"
      using rem False by (simp only: if_False)
    then have "hashmap_remove m k = Some (ptr_of (hm_lookup m k), ?m)"
      using bucket_in_range(1) [OF assms(2), of k]
      by (simp add: hashmap_remove_def b_def hm_lookup_def)
    moreover have "hm_ok ?m"
      using assms(2) hash_keys.chain_ok_filter [OF keys cok] by (rule hm_ok_update)
    moreover have "hm_lookup ?m k' = (if hash_comp m k k' then None else hm_lookup m k')" for k'
      unfolding hm_lookup_update [OF assms(2)] hash_keys.chain_lookup_filter [OF keys]
      using hash_keys.same_hash [OF keys, of k k'] by (auto simp: hm_lookup_def b_def)
    ultimately show ?thesis using False by auto
  qed
qed

theorem hashmap_remove_spec_witness:
  "hashmap_remove (hashmap_create 4 hashmap_int_hash hashmap_int_comp hashmap_do_not_duplicate
      \<lparr>hm_entries := [[], [], [\<lparr>he_key = 6, he_value = 77\<rparr>], []]\<rparr>) 2 = None"
proof -
  let ?m = "hashmap_create 4 hashmap_int_hash hashmap_int_comp (hashmap_do_not_duplicate :: addr \<Rightarrow> addr)
      \<lparr>hm_entries := [[], [], [\<lparr>he_key = 6, he_value = 77\<rparr>], []]\<rparr>"
  have "hash_keys (hash_func ?m) (hash_comp ?m) (hash_key_dup ?m)"
    using int_keys.hash_keys_axioms by (simp add: hashmap_create_def)
  moreover have "hm_ok ?m" by (simp add: hm_ok_def hashmap_create_def chain_ok_def)
  moreover have "unat (hash_func ?m 2 mod hm_size ?m) = 2"
    by (simp add: hashmap_create_def hashmap_int_hash_def)
  ultimately show ?thesis
    using hashmap_remove_spec [of ?m 2] by (simp add: hashmap_create_def hashmap_int_comp_def)
qed

text \<open>
  On terminated strings \<^verbatim>\<open>hashmap_str_comp\<close> decides equality of the strings, and
  \<^verbatim>\<open>hashmap_str_hash\<close> returns a number that depends on the characters only, so that equal
  keys fall into the same bucket wherever they are stored.
\<close>

theorem hashmap_str_keys:
  assumes "cstr M p s" and "cstr M q t"
  shows "hashmap_str_comp M p q = Some (s = t) \<and> hashmap_str_hash M p = Some (sdbm 0 s)
    \<and> hashmap_str_hash M q = Some (sdbm 0 t)"
  using strcmp_ok [OF assms] strcmp_eq_0_iff [OF assms] hashmap_str_hash_loop_ok [OF assms(1), of 0]
    hashmap_str_hash_loop_ok [OF assms(2), of 0]
  by (auto simp: hashmap_str_comp_def hashmap_str_hash_def)

theorem hashmap_str_keys_witness:
  "hashmap_str_comp [1 \<mapsto> 97, 2 \<mapsto> 0, 8 \<mapsto> 97, 9 \<mapsto> 0] 1 8 = Some True"
  using hashmap_str_keys [of "[1 \<mapsto> 97, 2 \<mapsto> 0, 8 \<mapsto> 97, 9 \<mapsto> 0]" 1 "[97]" 8 "[97]"] by simp

end
