(* ===== verification/Pmm.thy ===== *)
theory Pmm
  imports Bitops
begin

text \<open>
  The physical memory manager of \<^verbatim>\<open>src/kernel/memory/pmm.c\<close>: one bit per frame of 4096 bytes, set
  when the frame is in use. The static variables of the file are the record \<open>pmm\<close>; an index
  outside the bitmap and \<^verbatim>\<open>arch_fatal\<close> are \<open>None\<close>.

  \<open>frame_free s f\<close> is the view of a client: which frames are available. The lemmas show that the
  searches find the lowest free frame and the lowest run of free frames, what allocating and
  freeing do to that view, and which frames are available after the initialisation.
\<close>

section \<open>State and operations\<close>

record pmm =
  memsize :: u32
  frames_bitmap :: "u32 list"
  max_frames :: u32
  used_frames :: u32
  frames_bitmap_size :: u32
  lowest_available :: u32

definition FRAME_SHIFT :: nat where
  "FRAME_SHIFT = 12"

definition FRAME_SIZE :: u32 where
  "FRAME_SIZE = 4096"

definition FRAME_MASK :: u32 where
  "FRAME_MASK = NOT (FRAME_SIZE - 1)"

definition FRAME_INDEX :: "u32 \<Rightarrow> u32" where
  "FRAME_INDEX b = drop_bit 5 b"

definition FRAME_OFFSET :: "u32 \<Rightarrow> u32" where
  "FRAME_OFFSET b = b AND 0x1F"

definition word_at :: "pmm \<Rightarrow> u32 \<Rightarrow> u32 option" where
  "word_at s i = (if unat i < length (frames_bitmap s) then Some (frames_bitmap s ! unat i) else None)"

definition pmm_frame_set :: "pmm \<Rightarrow> u32 \<Rightarrow> pmm option" where
  "pmm_frame_set s frame = do {
     let index = FRAME_INDEX frame;
     let offset = FRAME_OFFSET frame;
     w \<leftarrow> word_at s index;
     Some (s\<lparr>frames_bitmap := (frames_bitmap s)[unat index := w OR push_bit (unat offset) 1]\<rparr>)
   }"

definition pmm_frame_seta :: "pmm \<Rightarrow> u32 \<Rightarrow> pmm option" where
  "pmm_frame_seta s frame_addr = do {
     let frame = drop_bit FRAME_SHIFT frame_addr;
     let index = FRAME_INDEX frame;
     let offset = FRAME_OFFSET frame;
     w \<leftarrow> word_at s index;
     Some (s\<lparr>frames_bitmap := (frames_bitmap s)[unat index := w OR push_bit (unat offset) 1]\<rparr>)
   }"

definition pmm_frame_unset :: "pmm \<Rightarrow> u32 \<Rightarrow> pmm option" where
  "pmm_frame_unset s frame = do {
     let index = FRAME_INDEX frame;
     let offset = FRAME_OFFSET frame;
     w \<leftarrow> word_at s index;
     let s = s\<lparr>frames_bitmap := (frames_bitmap s)[unat index := w AND NOT (push_bit (unat offset) 1)]\<rparr>;
     Some (if frame < lowest_available s then s\<lparr>lowest_available := frame\<rparr> else s)
   }"

definition pmm_frame_unseta :: "pmm \<Rightarrow> u32 \<Rightarrow> pmm option" where
  "pmm_frame_unseta s frame_addr = do {
     let frame = drop_bit FRAME_SHIFT frame_addr;
     let index = FRAME_INDEX frame;
     let offset = FRAME_OFFSET frame;
     w \<leftarrow> word_at s index;
     let s = s\<lparr>frames_bitmap := (frames_bitmap s)[unat index := w AND NOT (push_bit (unat offset) 1)]\<rparr>;
     Some (if frame < lowest_available s then s\<lparr>lowest_available := frame\<rparr> else s)
   }"

definition pmm_frame_test :: "pmm \<Rightarrow> u32 \<Rightarrow> bool option" where
  "pmm_frame_test s frame = do {
     w \<leftarrow> word_at s (FRAME_INDEX frame);
     Some (w AND push_bit (unat (FRAME_OFFSET frame)) 1 \<noteq> 0)
   }"

text \<open>The inner loop of \<^verbatim>\<open>pmm_first_free_frame\<close>: the bits \<open>j\<close> on, \<open>k\<close> of them.\<close>

fun first_zero_bit :: "u32 \<Rightarrow> nat \<Rightarrow> nat \<Rightarrow> nat option" where
  "first_zero_bit w j 0 = None"
| "first_zero_bit w j (Suc k) = (if w AND push_bit j 1 = 0 then Some j else first_zero_bit w (j + 1) k)"

text \<open>The outer loop: the words \<open>i\<close> on, \<open>k\<close> of them.\<close>

fun first_free_loop :: "pmm \<Rightarrow> u32 \<Rightarrow> nat \<Rightarrow> u32 option" where
  "first_free_loop s i 0 = Some 0"
| "first_free_loop s i (Suc k) = do {
     w \<leftarrow> word_at s i;
     case (if w \<noteq> -1 then first_zero_bit w 0 32 else None) of
       Some j \<Rightarrow> Some (push_bit 5 i + of_nat j)
     | None \<Rightarrow> first_free_loop s (i + 1) k
   }"

definition pmm_first_free_frame :: "pmm \<Rightarrow> u32 option" where
  "pmm_first_free_frame s =
     first_free_loop s (FRAME_INDEX (lowest_available s))
       (unat (FRAME_INDEX (max_frames s)) - unat (FRAME_INDEX (lowest_available s)))"

partial_function (option) nfree_loop :: "pmm \<Rightarrow> u32 \<Rightarrow> u32 \<Rightarrow> u32 \<Rightarrow> u32 option" where
  "nfree_loop s n i avail =
     (if i < max_frames s then do {
        w \<leftarrow> word_at s (FRAME_INDEX i);
        if w \<noteq> -1 then do {
          t \<leftarrow> pmm_frame_test s i;
          if t then nfree_loop s n (i + 1) 0
          else if avail + 1 = n then Some (i + 1 - n)
          else nfree_loop s n (i + 1) (avail + 1)
        }
        else nfree_loop s n (i + 32) 0
      }
      else Some 0)"

definition pmm_first_nfree_frames :: "pmm \<Rightarrow> u32 \<Rightarrow> u32 option" where
  "pmm_first_nfree_frames s n =
     (if n = 0 then Some 0
      else if n = 1 then pmm_first_free_frame s
      else nfree_loop s n 0 0)"

definition pmm_mark_frame_used :: "pmm \<Rightarrow> u32 \<Rightarrow> pmm option" where
  "pmm_mark_frame_used s frame = do {
     s \<leftarrow> pmm_frame_set s frame;
     Some (s\<lparr>used_frames := used_frames s + 1\<rparr>)
   }"

definition pmm_allocate_frame :: "pmm \<Rightarrow> (u32 \<times> pmm) option" where
  "pmm_allocate_frame s =
     (if max_frames s \<le> used_frames s then None
      else do {
        frame \<leftarrow> pmm_first_free_frame s;
        if frame = 0 then None
        else do { s \<leftarrow> pmm_mark_frame_used s frame; Some (frame, s) }
      })"

definition pmm_allocate_frame_addr :: "pmm \<Rightarrow> (u32 \<times> pmm) option" where
  "pmm_allocate_frame_addr s = do {
     (frame, s) \<leftarrow> pmm_allocate_frame s;
     Some (push_bit FRAME_SHIFT frame, s)
   }"

fun mark_frames_used :: "pmm \<Rightarrow> u32 \<Rightarrow> nat \<Rightarrow> pmm option" where
  "mark_frames_used s frame 0 = Some s"
| "mark_frames_used s frame (Suc k) = do {
     s \<leftarrow> pmm_mark_frame_used s frame;
     mark_frames_used s (frame + 1) k
   }"

definition pmm_allocate_frames :: "pmm \<Rightarrow> u32 \<Rightarrow> (u32 \<times> pmm) option" where
  "pmm_allocate_frames s n =
     (if n = 0 then Some (0, s)
      else if max_frames s \<le> used_frames s then None
      else do {
        start_frame \<leftarrow> pmm_first_nfree_frames s n;
        if start_frame = 0 then None
        else do { s \<leftarrow> mark_frames_used s start_frame (unat n); Some (start_frame, s) }
      })"

definition pmm_allocate_frames_addr :: "pmm \<Rightarrow> u32 \<Rightarrow> (u32 \<times> pmm) option" where
  "pmm_allocate_frames_addr s n = do {
     (start_frame, s) \<leftarrow> pmm_allocate_frames s n;
     Some (push_bit FRAME_SHIFT start_frame, s)
   }"

definition pmm_free_frame :: "pmm \<Rightarrow> u32 \<Rightarrow> pmm option" where
  "pmm_free_frame s frame_addr = pmm_frame_unseta (s\<lparr>used_frames := used_frames s - 1\<rparr>) frame_addr"

definition pmm_init_test :: "pmm \<Rightarrow> u32 list \<Rightarrow> u32 \<Rightarrow> pmm" where
  "pmm_init_test s frames_list n = s\<lparr>frames_bitmap := frames_list, max_frames := n * 32\<rparr>"

fun unset_frames :: "pmm \<Rightarrow> u32 \<Rightarrow> nat \<Rightarrow> pmm option" where
  "unset_frames s frame 0 = Some s"
| "unset_frames s frame (Suc k) = do {
     s \<leftarrow> pmm_frame_unset s frame;
     unset_frames s (frame + 1) k
   }"

fun set_frames :: "pmm \<Rightarrow> u32 \<Rightarrow> nat \<Rightarrow> pmm option" where
  "set_frames s frame 0 = Some s"
| "set_frames s frame (Suc k) = do {
     s \<leftarrow> pmm_frame_set s frame;
     set_frames s (frame + 1) k
   }"

definition pmm_init_region :: "pmm \<Rightarrow> u32 \<Rightarrow> u32 \<Rightarrow> pmm option" where
  "pmm_init_region s addr len =
     unset_frames s (addr div FRAME_SIZE) (unat (drop_bit FRAME_SHIFT (len AND FRAME_MASK)))"

definition pmm_deinit_region :: "pmm \<Rightarrow> u32 \<Rightarrow> u32 \<Rightarrow> pmm option" where
  "pmm_deinit_region s addr len =
     set_frames s (addr div FRAME_SIZE) (unat (drop_bit FRAME_SHIFT (len AND FRAME_MASK)))"

definition get_total_frames :: "pmm \<Rightarrow> u32" where
  "get_total_frames s = max_frames s"

definition get_used_frames :: "pmm \<Rightarrow> u32" where
  "get_used_frames s = used_frames s"

subsection \<open>Initialisation\<close>

text \<open>
  The fields of \<^verbatim>\<open>boot_info_t\<close> that \<^verbatim>\<open>pmm_init\<close> reads, and the entries of the multiboot memory
  map, whose 64-bit addresses and lengths are truncated when they are passed on.
\<close>

record pmm_boot_info =
  highest_address :: u32
  bootloader_phy_end :: u32
  kernel_phy_start :: u32
  kernel_phy_end :: u32
  kernel_end :: u32
  kernel_size :: u32
  video_phy_start :: u32
  video_phy_end :: u32

record multiboot_memory_map =
  mm_addr :: u64
  mm_len :: u64
  mm_type :: u32

definition PAGE_ALIGN :: "u32 \<Rightarrow> u32" where
  "PAGE_ALIGN addr = (addr + 4095) AND NOT 4095"

fun init_regions :: "pmm \<Rightarrow> multiboot_memory_map list \<Rightarrow> pmm option" where
  "init_regions s [] = Some s"
| "init_regions s (e # es) = do {
     s \<leftarrow> (if mm_type e = 1 then pmm_init_region s (ucast (mm_addr e)) (ucast (mm_len e)) else Some s);
     init_regions s es
   }"

text \<open>The nested loops that count the set bits of the first \<^verbatim>\<open>FRAME_INDEX(max_frames)\<close> words.\<close>

fun count_bits :: "u32 \<Rightarrow> nat \<Rightarrow> nat \<Rightarrow> u32 \<Rightarrow> u32" where
  "count_bits w j 0 acc = acc"
| "count_bits w j (Suc k) acc = count_bits w (j + 1) k (if w AND push_bit j 1 \<noteq> 0 then acc + 1 else acc)"

fun count_used :: "pmm \<Rightarrow> u32 \<Rightarrow> nat \<Rightarrow> u32 \<Rightarrow> u32 option" where
  "count_used s i 0 acc = Some acc"
| "count_used s i (Suc k) acc = do {
     w \<leftarrow> word_at s i;
     count_used s (i + 1) k (count_bits w 0 32 acc)
   }"

definition pmm_init :: "pmm \<Rightarrow> pmm_boot_info \<Rightarrow> multiboot_memory_map list \<Rightarrow> pmm option" where
  "pmm_init s b mmap = do {
     let s = s\<lparr>memsize := highest_address b\<rparr>;
     let addressable_phy = PAGE_ALIGN (kernel_phy_end b);
     let s = s\<lparr>max_frames := drop_bit FRAME_SHIFT (memsize s) + 1\<rparr>;
     let s = s\<lparr>frames_bitmap_size := (FRAME_INDEX (max_frames s - 1) + 1) * 4\<rparr>;
     let s = s\<lparr>frames_bitmap := replicate (unat (frames_bitmap_size s) div 4) (-1)\<rparr>;
     let addressable_phy = addressable_phy + frames_bitmap_size s;
     s \<leftarrow> init_regions s mmap;
     s \<leftarrow> pmm_frame_set s 0;
     s \<leftarrow> pmm_deinit_region s 0 (bootloader_phy_end b);
     s \<leftarrow> pmm_deinit_region s (kernel_phy_start b) (kernel_size b);
     s \<leftarrow> pmm_deinit_region s (kernel_phy_end b) (addressable_phy - kernel_phy_end b);
     s \<leftarrow> pmm_deinit_region s (video_phy_start b) (video_phy_end b - video_phy_start b);
     u \<leftarrow> count_used s 0 (unat (FRAME_INDEX (max_frames s))) (used_frames s);
     Some (s\<lparr>used_frames := u\<rparr>)
   }"

section \<open>The view of a client\<close>

definition bm_used :: "u32 list \<Rightarrow> nat \<Rightarrow> bool" where
  "bm_used bm f \<longleftrightarrow> bit (bm ! (f div 32)) (f mod 32)"

text \<open>Frame \<open>f\<close> is under the control of the manager and available.\<close>

definition frame_free :: "pmm \<Rightarrow> nat \<Rightarrow> bool" where
  "frame_free s f \<longleftrightarrow> f < 32 * length (frames_bitmap s) \<and> \<not> bm_used (frames_bitmap s) f"

lemma unat_FRAME_INDEX: "unat (FRAME_INDEX f) = unat f div 32"
  by (simp add: FRAME_INDEX_def drop_bit_eq_div unat_div)

lemma unat_FRAME_OFFSET: "unat (FRAME_OFFSET f) = unat f mod 32"
proof -
  have "FRAME_OFFSET f = take_bit 5 f" by (simp add: FRAME_OFFSET_def take_bit_eq_mask mask_eq_exp_minus_1)
  then show ?thesis by (simp add: take_bit_eq_mod unat_mod)
qed

lemma in_range_iff: "f div 32 < n \<longleftrightarrow> f < 32 * (n :: nat)"
  by (simp add: less_mult_imp_div_less div_less_iff_less_mult mult.commute)

lemma pmm_frame_test_ok:
  "unat f < 32 * length (frames_bitmap s) \<Longrightarrow> pmm_frame_test s f = Some (\<not> frame_free s (unat f))"
  using bit_check_iff [of "unat f mod 32" "frames_bitmap s ! (unat f div 32)"]
  by (simp add: pmm_frame_test_def word_at_def unat_FRAME_INDEX unat_FRAME_OFFSET frame_free_def
      bm_used_def in_range_iff bit_check_def)

text \<open>Changing one bit of the bitmap.\<close>

lemma bm_used_update:
  assumes "f div 32 < length bm"
  shows "bm_used (bm[f div 32 := bit_set (bm ! (f div 32)) (f mod 32)]) g \<longleftrightarrow> g = f \<or> bm_used bm g"
    and "bm_used (bm[f div 32 := bit_clear (bm ! (f div 32)) (f mod 32)]) g \<longleftrightarrow> g \<noteq> f \<and> bm_used bm g"
proof -
  have eq: "g = f \<longleftrightarrow> g div 32 = f div 32 \<and> g mod 32 = f mod 32" by (metis div_mult_mod_eq)
  show "bm_used (bm[f div 32 := bit_set (bm ! (f div 32)) (f mod 32)]) g \<longleftrightarrow> g = f \<or> bm_used bm g"
    using assms eq by (cases "g div 32 = f div 32") (auto simp: bm_used_def)
  show "bm_used (bm[f div 32 := bit_clear (bm ! (f div 32)) (f mod 32)]) g \<longleftrightarrow> g \<noteq> f \<and> bm_used bm g"
    using assms eq by (cases "g div 32 = f div 32") (auto simp: bm_used_def)
qed

lemma pmm_frame_set_ok:
  assumes "unat f < 32 * length (frames_bitmap s)"
  shows "\<exists>bm. pmm_frame_set s f = Some (s\<lparr>frames_bitmap := bm\<rparr>) \<and> length bm = length (frames_bitmap s)
    \<and> (\<forall>g. bm_used bm g \<longleftrightarrow> g = unat f \<or> bm_used (frames_bitmap s) g)"
  using assms bm_used_update(1) [of "unat f" "frames_bitmap s"]
  by (intro exI [of _ "(frames_bitmap s)[unat f div 32 := bit_set (frames_bitmap s ! (unat f div 32)) (unat f mod 32)]"])
     (simp add: pmm_frame_set_def word_at_def unat_FRAME_INDEX unat_FRAME_OFFSET in_range_iff bit_set_def)

lemma pmm_frame_unset_ok:
  assumes "unat f < 32 * length (frames_bitmap s)"
  shows "\<exists>bm. pmm_frame_unset s f = Some (s\<lparr>frames_bitmap := bm, lowest_available := min f (lowest_available s)\<rparr>)
    \<and> length bm = length (frames_bitmap s)
    \<and> (\<forall>g. bm_used bm g \<longleftrightarrow> g \<noteq> unat f \<and> bm_used (frames_bitmap s) g)"
  using assms bm_used_update(2) [of "unat f" "frames_bitmap s"]
  by (intro exI [of _ "(frames_bitmap s)[unat f div 32 := bit_clear (frames_bitmap s ! (unat f div 32)) (unat f mod 32)]"])
     (auto simp: pmm_frame_unset_def word_at_def unat_FRAME_INDEX unat_FRAME_OFFSET in_range_iff
      bit_clear_def Let_def min_def)

section \<open>The searches\<close>

text \<open>
  The state the manager keeps: the bitmap has one bit for every frame, and no frame below
  \<^verbatim>\<open>lowest_available\<close> is available. The number of frames of a 32-bit machine is at most \<open>2^20\<close>.
\<close>

definition pmm_ok :: "pmm \<Rightarrow> bool" where
  "pmm_ok s \<longleftrightarrow> 0 < unat (max_frames s) \<and> unat (max_frames s) \<le> 1048576
     \<and> length (frames_bitmap s) = (unat (max_frames s) + 31) div 32
     \<and> (\<forall>f < unat (lowest_available s). \<not> frame_free s f)"

lemma first_zero_bit_find: "j + k \<le> 32 \<Longrightarrow> first_zero_bit w j k = find (\<lambda>i. \<not> bit w i) [j..<j + k]"
proof (induction k arbitrary: j)
  case (Suc k)
  have "[j..<j + Suc k] = j # [Suc j..<Suc j + k]" by (simp add: upt_conv_Cons)
  then show ?case using Suc bit_check_eq0_iff [of j w] by (simp add: bit_check_def)
qed simp

lemma word_bits_find:
  assumes "i < length (frames_bitmap s)"
  shows "find (frame_free s) [32 * i..<32 * i + 32]
    = map_option (\<lambda>j. 32 * i + j) (find (\<lambda>j. \<not> bit (frames_bitmap s ! i) j) [0..<32])"
proof -
  have "[32 * i..<32 * i + 32] = map (\<lambda>j. 32 * i + j) [0..<32]"
    using map_add_upt [of "32 * i" 32] by (simp add: add.commute)
  moreover have "frame_free s (32 * i + j) \<longleftrightarrow> \<not> bit (frames_bitmap s ! i) j" if "j < 32" for j
    using that assms by (simp add: frame_free_def bm_used_def)
  then have "find (\<lambda>j. frame_free s (32 * i + j)) [0..<32] = find (\<lambda>j. \<not> bit (frames_bitmap s ! i) j) [0..<32]"
    by (intro find_cong) auto
  ultimately show ?thesis by (simp add: find_map comp_def)
qed

lemma first_free_loop_ok:
  assumes "unat i + k \<le> length (frames_bitmap s)" and "length (frames_bitmap s) \<le> 32768"
  shows "first_free_loop s i k = Some (case find (frame_free s) [32 * unat i..<32 * (unat i + k)] of
     None \<Rightarrow> 0 | Some f \<Rightarrow> of_nat f)"
  using assms
proof (induction k arbitrary: i)
  case (Suc k)
  let ?I = "unat i" and ?w = "frames_bitmap s ! unat i"
  have w: "word_at s i = Some ?w" using Suc.prems by (simp add: word_at_def)
  have I: "unat (i + 1) = ?I + 1" using Suc.prems by (intro unat_Suc_u32) linarith
  have split: "[32 * ?I..<32 * (?I + Suc k)] = [32 * ?I..<32 * ?I + 32] @ [32 * unat (i + 1)..<32 * (unat (i + 1) + k)]"
    unfolding I using upt_add_eq_append [of "32 * ?I" "32 * ?I + 32" "32 * k"]
    by (simp add: algebra_simps)
  have bits: "first_zero_bit ?w 0 32 = find (\<lambda>j. \<not> bit ?w j) [0..<32]"
    using first_zero_bit_find [of 0 32 ?w] by simp
  have full: "find (\<lambda>j. \<not> bit ?w j) [0..<32] = None" if "?w = -1"
    using that by (simp add: find_upt_None_iff bit_minus_1_iff)
  have num: "push_bit 5 i + of_nat j = (of_nat (32 * ?I + j) :: u32)" for j
    by (simp add: push_bit_eq_mult mult.commute)
  have IH: "first_free_loop s (i + 1) k = Some (case find (frame_free s)
      [32 * unat (i + 1)..<32 * (unat (i + 1) + k)] of None \<Rightarrow> 0 | Some f \<Rightarrow> of_nat f)"
    using Suc.IH [of "i + 1"] Suc.prems I by simp
  have fb: "find (frame_free s) [32 * ?I..<32 * ?I + 32]
      = map_option (\<lambda>j. 32 * ?I + j) (find (\<lambda>j. \<not> bit ?w j) [0..<32])"
    using word_bits_find [of ?I s] Suc.prems by simp
  show ?case
    unfolding split find_append fb using w bits full num IH
    by (cases "?w = -1") (auto split: option.splits)
qed simp

lemma pmm_ok_length:
  assumes "pmm_ok s"
  shows "length (frames_bitmap s) \<le> 32768" and "unat (max_frames s) div 32 \<le> length (frames_bitmap s)"
    and "unat (max_frames s) \<le> 32 * length (frames_bitmap s)"
  using assms unfolding pmm_ok_def by linarith+

lemma pmm_first_free_frame_ok:
  assumes "pmm_ok s"
  shows "pmm_first_free_frame s = Some (case find (frame_free s) [0..<32 * (unat (max_frames s) div 32)] of
     None \<Rightarrow> 0 | Some f \<Rightarrow> of_nat f)"
proof -
  let ?L = "unat (FRAME_INDEX (lowest_available s))" and ?N = "unat (max_frames s) div 32"
  have la: "\<not> frame_free s f" if "f < 32 * ?L" for f
    using that assms by (auto simp: pmm_ok_def unat_FRAME_INDEX)
  have none: "find (frame_free s) [0..<m] = None" if "m \<le> 32 * ?L" for m
    using la that by (simp add: find_upt_None_iff)
  show ?thesis
  proof (cases "?L \<le> ?N")
    case True
    have "[0..<32 * ?N] = [0..<32 * ?L] @ [32 * ?L..<32 * ?N]"
      using upt_add_eq_append [of 0 "32 * ?L" "32 * (?N - ?L)"] True by (simp add: algebra_simps)
    then have "find (frame_free s) [0..<32 * ?N] = find (frame_free s) [32 * ?L..<32 * ?N]"
      using none [of "32 * ?L"] by (simp add: find_append)
    then show ?thesis
      using first_free_loop_ok [of "FRAME_INDEX (lowest_available s)" "?N - ?L" s] True
        pmm_ok_length [OF assms]
      by (simp add: pmm_first_free_frame_def unat_FRAME_INDEX [of "max_frames s"])
  next
    case False
    then show ?thesis
      using none [of "32 * ?N"] by (simp add: pmm_first_free_frame_def unat_FRAME_INDEX [of "max_frames s"])
  qed
qed

text \<open>A run of \<open>n\<close> available frames from \<open>q\<close> on.\<close>

definition free_run :: "pmm \<Rightarrow> nat \<Rightarrow> nat \<Rightarrow> bool" where
  "free_run s n q \<longleftrightarrow> q + n \<le> unat (max_frames s) \<and> (\<forall>k<n. frame_free s (q + k))"

lemma free_run_member: "free_run s n q \<Longrightarrow> q \<le> g \<Longrightarrow> g < q + n \<Longrightarrow> frame_free s g"
  unfolding free_run_def by (metis add_less_cancel_left le_iff_add)

lemma full_word_used:
  "frames_bitmap s ! (g div 32) = - 1 \<Longrightarrow> \<not> frame_free s g"
  by (simp add: frame_free_def bm_used_def bit_minus_1_iff)

text \<open>
  The loop invariant: the last \<open>avail\<close> frames before \<open>i\<close> are available, no run starts earlier,
  and a full word is only entered at its first frame.
\<close>

definition nfree_inv :: "pmm \<Rightarrow> nat \<Rightarrow> nat \<Rightarrow> nat \<Rightarrow> bool" where
  "nfree_inv s n i avail \<longleftrightarrow> avail < n \<and> avail \<le> i
     \<and> (\<forall>g. i - avail \<le> g \<and> g < i \<longrightarrow> frame_free s g)
     \<and> (\<forall>q. free_run s n q \<longrightarrow> i - avail \<le> q)
     \<and> (i mod 32 = 0 \<or> frames_bitmap s ! (i div 32) \<noteq> - 1)"

lemma nfree_inv_used:
  assumes "nfree_inv s n i avail" and "\<not> frame_free s i" and "frames_bitmap s ! (i div 32) \<noteq> - 1"
  shows "nfree_inv s n (i + 1) 0"
proof -
  have "i + 1 \<le> q" if "free_run s n q" for q
  proof (rule ccontr)
    assume c: "\<not> i + 1 \<le> q"
    have "i - avail \<le> q" "avail < n" using assms(1) that by (auto simp: nfree_inv_def)
    then show False using free_run_member [OF that, of i] assms(2) c by linarith
  qed
  moreover have "(i + 1) mod 32 = 0 \<or> frames_bitmap s ! ((i + 1) div 32) \<noteq> - 1"
    using assms(3) by (metis Suc_eq_plus1 div_Suc)
  ultimately show ?thesis using assms(1) by (simp add: nfree_inv_def)
qed

lemma nfree_inv_full:
  assumes "nfree_inv s n i avail" and "frames_bitmap s ! (i div 32) = - 1"
  shows "nfree_inv s n (i + 32) 0"
proof -
  have "i mod 32 = 0" using assms by (simp add: nfree_inv_def)
  then obtain k where k: "i = 32 * k" by (auto dest: mod_0_imp_dvd elim: dvdE)
  have used: "\<not> frame_free s g" if "i \<le> g" "g < i + 32" for g
  proof -
    have "g div 32 = i div 32" using that k by (simp add: div_nat_eqI)
    then show ?thesis using full_word_used [of s g] assms(2) by simp
  qed
  have "i + 32 \<le> q" if q: "free_run s n q" for q
  proof (rule ccontr)
    assume c: "\<not> i + 32 \<le> q"
    have "i - avail \<le> q" "avail < n" using assms(1) q by (simp_all add: nfree_inv_def)
    then have "q \<le> max i q" "max i q < q + n" "i \<le> max i q" "max i q < i + 32"
      using c by linarith+
    then show False using free_run_member [OF q] used by blast
  qed
  then show ?thesis using assms(1) k by (simp add: nfree_inv_def)
qed

lemma nfree_inv_free:
  assumes "nfree_inv s n i avail" and "frame_free s i" and "avail + 1 \<noteq> n"
    and "frames_bitmap s ! (i div 32) \<noteq> - 1"
  shows "nfree_inv s n (i + 1) (avail + 1)"
proof -
  have "(i + 1) mod 32 = 0 \<or> frames_bitmap s ! ((i + 1) div 32) \<noteq> - 1"
    using assms(4) by (metis Suc_eq_plus1 div_Suc)
  then show ?thesis using assms(1-3) by (auto simp: nfree_inv_def less_Suc_eq)
qed

lemma nfree_inv_done:
  assumes "nfree_inv s n i avail" and "frame_free s i" and "avail + 1 = n" and "i < unat (max_frames s)"
  shows "free_run s n (i - avail) \<and> (LEAST q. free_run s n q) = i - avail"
proof -
  have "i - avail \<le> q" if "free_run s n q" for q using assms(1) that by (simp add: nfree_inv_def)
  moreover have "frame_free s (i - avail + k)" if "k < n" for k
  proof (cases "k = avail")
    case True
    then show ?thesis using assms(1,2) by (simp add: nfree_inv_def)
  next
    case False
    then have "i - avail \<le> i - avail + k" "i - avail + k < i"
      using that assms(1,3) by (auto simp: nfree_inv_def)
    then show ?thesis using assms(1) unfolding nfree_inv_def by blast
  qed
  then have "free_run s n (i - avail)"
    using assms(1,3,4) by (simp add: free_run_def nfree_inv_def)
  ultimately show ?thesis by (auto intro: Least_equality)
qed

lemma nfree_loop_ok:
  assumes "pmm_ok s" and "nfree_inv s (unat n) (unat i) (unat avail)"
    and "unat i \<le> unat (max_frames s) + 31"
  shows "nfree_loop s n i avail = Some (if \<exists>q. free_run s (unat n) q
     then of_nat (LEAST q. free_run s (unat n) q) else 0)"
  using assms(2,3)
proof (induction "unat (max_frames s) + 32 - unat i" arbitrary: i avail rule: less_induct)
  case less
  let ?I = "unat i" and ?A = "unat avail" and ?N = "unat n"
  let ?goal = "Some (if \<exists>q. free_run s ?N q then of_nat (LEAST q. free_run s ?N q) else 0)"
  have small: "?I \<le> 1048607" using less.prems(2) assms(1) by (simp add: pmm_ok_def)
  have i1: "unat (i + 1) = ?I + 1" and i32: "unat (i + 32) = ?I + 32" and a1: "unat (avail + 1) = ?A + 1"
    using small less.prems(1) by (auto simp: nfree_inv_def unat_plus_u32 unat_Suc_u32)
  show ?case
  proof (cases "i < max_frames s")
    case False
    then have ge: "unat (max_frames s) \<le> ?I" by (simp add: word_less_nat_alt)
    have "\<not> free_run s ?N q" for q
    proof
      assume q: "free_run s ?N q"
      then have "q + ?N \<le> ?I" using ge unfolding free_run_def by linarith
      moreover have "?I - ?A \<le> q" "?A < ?N" using less.prems(1) q unfolding nfree_inv_def by blast+
      ultimately show False by linarith
    qed
    then show ?thesis using False by (subst nfree_loop.simps) auto
  next
    case True
    then have lt: "?I < unat (max_frames s)" by (simp add: word_less_nat_alt)
    then have rng: "?I < 32 * length (frames_bitmap s)" using pmm_ok_length(3) [OF assms(1)] by linarith
    let ?w = "frames_bitmap s ! (?I div 32)"
    have w: "word_at s (FRAME_INDEX i) = Some ?w"
      using rng by (simp add: word_at_def unat_FRAME_INDEX in_range_iff)
    have step: "nfree_loop s n i avail = (if ?w \<noteq> -1 then
        (if \<not> frame_free s ?I then nfree_loop s n (i + 1) 0
         else if avail + 1 = n then Some (i + 1 - n) else nfree_loop s n (i + 1) (avail + 1))
        else nfree_loop s n (i + 32) 0)"
      using True w pmm_frame_test_ok [OF rng] by (subst nfree_loop.simps) simp
    have IH: "nfree_loop s n (i + d) a = ?goal" if "nfree_inv s ?N (unat (i + d)) (unat a)"
      "unat (i + d) = ?I + unat d" "unat d \<in> {1, 32}" for d a
      using that less.hyps [of "i + d" a] lt by auto
    consider "?w = -1" | "?w \<noteq> -1" "\<not> frame_free s ?I"
      | "?w \<noteq> -1" "frame_free s ?I" "avail + 1 = n" | "?w \<noteq> -1" "frame_free s ?I" "avail + 1 \<noteq> n" by blast
    then show ?thesis
    proof cases
      case 1
      then show ?thesis using step IH [of 32 0] nfree_inv_full [OF less.prems(1)] i32 by simp
    next
      case 2
      then show ?thesis using step IH [of 1 0] nfree_inv_used [OF less.prems(1)] i1 by simp
    next
      case 3
      then have n: "?A + 1 = ?N" using a1 by auto
      have "i + 1 - n = i - avail" using 3(3) by auto
      moreover have "?A \<le> ?I" using less.prems(1) by (simp add: nfree_inv_def)
      then have "i - avail = of_nat (?I - ?A)" by (simp add: of_nat_diff)
      ultimately show ?thesis
        using step 3 nfree_inv_done [OF less.prems(1) 3(2) n lt] by auto
    next
      case 4
      then have "?A + 1 \<noteq> ?N" using a1 by (simp add: u32_eq_iff)
      then show ?thesis
        using step 4 IH [of 1 "avail + 1"] nfree_inv_free [OF less.prems(1)] i1 a1 by simp
    qed
  qed
qed

section \<open>Marking frames\<close>

lemma set_frames_ok:
  assumes "unat f + k \<le> 32 * length (frames_bitmap s)" and "length (frames_bitmap s) \<le> 32768"
  shows "\<exists>bm. set_frames s f k = Some (s\<lparr>frames_bitmap := bm\<rparr>) \<and> length bm = length (frames_bitmap s)
    \<and> (\<forall>g. bm_used bm g \<longleftrightarrow> (unat f \<le> g \<and> g < unat f + k) \<or> bm_used (frames_bitmap s) g)"
  using assms
proof (induction k arbitrary: s f)
  case (Suc k)
  have rng: "unat f < 32 * length (frames_bitmap s)" using Suc.prems by simp
  obtain bm where bm: "pmm_frame_set s f = Some (s\<lparr>frames_bitmap := bm\<rparr>)"
    "length bm = length (frames_bitmap s)" "\<forall>g. bm_used bm g \<longleftrightarrow> g = unat f \<or> bm_used (frames_bitmap s) g"
    using pmm_frame_set_ok [OF rng] by blast
  have f1: "unat (f + 1) = unat f + 1" using Suc.prems by (intro unat_Suc_u32) linarith
  then obtain bm2 where bm2: "set_frames (s\<lparr>frames_bitmap := bm\<rparr>) (f + 1) k = Some (s\<lparr>frames_bitmap := bm2\<rparr>)"
    "length bm2 = length bm" "\<forall>g. bm_used bm2 g \<longleftrightarrow> (unat f + 1 \<le> g \<and> g < unat f + 1 + k) \<or> bm_used bm g"
    using Suc.IH [of "f + 1" "s\<lparr>frames_bitmap := bm\<rparr>"] Suc.prems bm(2) by auto
  have "(unat f \<le> g \<and> g < unat f + Suc k) \<longleftrightarrow> g = unat f \<or> (unat f + 1 \<le> g \<and> g < unat f + 1 + k)" for g
    by auto
  then show ?case using bm bm2 by (auto intro!: exI [of _ bm2])
next
  case 0
  then show ?case by (intro exI [of _ "frames_bitmap s"]) auto
qed

lemma unset_lowest:
  "lowest_available s = 0 \<Longrightarrow> s\<lparr>frames_bitmap := bm, lowest_available := min f (lowest_available s)\<rparr> = s\<lparr>frames_bitmap := bm\<rparr>"
  by (cases s) simp

lemma unset_frames_ok:
  assumes "unat f + k \<le> 32 * length (frames_bitmap s)" and "length (frames_bitmap s) \<le> 32768"
    and "lowest_available s = 0"
  shows "\<exists>bm. unset_frames s f k = Some (s\<lparr>frames_bitmap := bm\<rparr>) \<and> length bm = length (frames_bitmap s)
    \<and> (\<forall>g. bm_used bm g \<longleftrightarrow> \<not> (unat f \<le> g \<and> g < unat f + k) \<and> bm_used (frames_bitmap s) g)"
  using assms
proof (induction k arbitrary: s f)
  case (Suc k)
  have rng: "unat f < 32 * length (frames_bitmap s)" using Suc.prems by simp
  obtain bm where bm: "pmm_frame_unset s f = Some (s\<lparr>frames_bitmap := bm\<rparr>)"
    "length bm = length (frames_bitmap s)" "\<forall>g. bm_used bm g \<longleftrightarrow> g \<noteq> unat f \<and> bm_used (frames_bitmap s) g"
    using pmm_frame_unset_ok [OF rng] unfolding unset_lowest [OF Suc.prems(3)] by blast
  have f1: "unat (f + 1) = unat f + 1" using Suc.prems by (intro unat_Suc_u32) linarith
  then obtain bm2 where bm2: "unset_frames (s\<lparr>frames_bitmap := bm\<rparr>) (f + 1) k = Some (s\<lparr>frames_bitmap := bm2\<rparr>)"
    "length bm2 = length bm"
    "\<forall>g. bm_used bm2 g \<longleftrightarrow> \<not> (unat f + 1 \<le> g \<and> g < unat f + 1 + k) \<and> bm_used bm g"
    using Suc.IH [of "f + 1" "s\<lparr>frames_bitmap := bm\<rparr>"] Suc.prems bm(2) by auto
  have "(unat f \<le> g \<and> g < unat f + Suc k) \<longleftrightarrow> g = unat f \<or> (unat f + 1 \<le> g \<and> g < unat f + 1 + k)" for g
    by auto
  then show ?case using bm bm2 by (auto intro!: exI [of _ bm2])
next
  case 0
  then show ?case by (intro exI [of _ "frames_bitmap s"]) auto
qed

lemma set_frames_used:
  "set_frames (s\<lparr>used_frames := u\<rparr>) f k = map_option (\<lambda>t. t\<lparr>used_frames := u\<rparr>) (set_frames s f k)"
proof (induction k arbitrary: s f)
  case (Suc k)
  have "pmm_frame_set (s\<lparr>used_frames := u\<rparr>) f = map_option (\<lambda>t. t\<lparr>used_frames := u\<rparr>) (pmm_frame_set s f)"
    by (simp add: pmm_frame_set_def word_at_def Let_def)
  then show ?case using Suc by (cases "pmm_frame_set s f") simp_all
qed simp

lemma pmm_frame_set_used: "pmm_frame_set s f = Some t \<Longrightarrow> used_frames t = used_frames s"
  by (auto simp: pmm_frame_set_def Let_def split: Option.bind_splits)

lemma mark_frames_used_eq:
  "mark_frames_used s f k
     = map_option (\<lambda>t. t\<lparr>used_frames := used_frames s + of_nat k\<rparr>) (set_frames s f k)"
proof (induction k arbitrary: s f)
  case (Suc k)
  show ?case
  proof (cases "pmm_frame_set s f")
    case (Some t)
    then show ?thesis
      using Suc.IH [of "t\<lparr>used_frames := used_frames t + 1\<rparr>" "f + 1"] pmm_frame_set_used [OF Some]
      by (simp add: pmm_mark_frame_used_def set_frames_used option.map_comp comp_def algebra_simps)
  qed (simp add: pmm_mark_frame_used_def)
qed (simp)

lemma mark_frames_used_ok:
  assumes "unat f + k \<le> 32 * length (frames_bitmap s)" and "length (frames_bitmap s) \<le> 32768"
  shows "\<exists>bm. mark_frames_used s f k = Some (s\<lparr>frames_bitmap := bm, used_frames := used_frames s + of_nat k\<rparr>)
    \<and> length bm = length (frames_bitmap s)
    \<and> (\<forall>g. bm_used bm g \<longleftrightarrow> (unat f \<le> g \<and> g < unat f + k) \<or> bm_used (frames_bitmap s) g)"
  using set_frames_ok [OF assms] by (auto simp: mark_frames_used_eq)

section \<open>Properties\<close>

lemma pmm_ok_marked:
  assumes "pmm_ok s" and "length bm = length (frames_bitmap s)"
    and "\<And>g. bm_used (frames_bitmap s) g \<Longrightarrow> bm_used bm g"
  shows "pmm_ok (s\<lparr>frames_bitmap := bm, used_frames := u\<rparr>)"
  using assms by (auto simp: pmm_ok_def frame_free_def)

text \<open>
  C21. When there is an available frame among those the search looks at (the frames of the full
  words of the bitmap), frame 0 is in use and the counter leaves room, \<^verbatim>\<open>pmm_allocate_frame\<close>
  returns the lowest available frame, marks it and nothing else, and counts it.
\<close>

theorem pmm_allocate_frame_lowest:
  assumes "pmm_ok s" and "used_frames s < max_frames s" and "\<not> frame_free s 0"
    and "frame_free s g" and "g < 32 * (unat (max_frames s) div 32)"
  shows "\<exists>f s'. pmm_allocate_frame s = Some (of_nat f, s') \<and> 0 < f \<and> f \<le> g \<and> frame_free s f
    \<and> (\<forall>h < f. \<not> frame_free s h) \<and> (\<forall>h. frame_free s' h \<longleftrightarrow> h \<noteq> f \<and> frame_free s h)
    \<and> used_frames s' = used_frames s + 1 \<and> pmm_ok s'"
proof -
  obtain f where f: "find (frame_free s) [0..<32 * (unat (max_frames s) div 32)] = Some f"
    using assms(4,5) by (cases "find (frame_free s) [0..<32 * (unat (max_frames s) div 32)]")
      (auto simp: find_upt_None_iff)
  then have ff: "frame_free s f" "\<forall>h < f. \<not> frame_free s h" by (auto simp: find_upt_Some_iff)
  have fg: "f \<le> g" using assms(4) ff(2) by (meson not_le)
  have f0: "0 < f" using ff(1) assms(3) by (cases f) auto
  have u: "unat (of_nat f :: u32) = f"
    using fg assms(1,5) by (intro unat_of_nat_u32) (auto simp: pmm_ok_def)
  have "(of_nat f :: u32) \<noteq> 0" using u f0 by auto
  moreover have "unat (of_nat f :: u32) < 32 * length (frames_bitmap s)" using u ff(1) by (simp add: frame_free_def)
  ultimately obtain bm where bm: "pmm_frame_set s (of_nat f) = Some (s\<lparr>frames_bitmap := bm\<rparr>)"
    "length bm = length (frames_bitmap s)" "\<forall>h. bm_used bm h \<longleftrightarrow> h = f \<or> bm_used (frames_bitmap s) h"
    and nz: "(of_nat f :: u32) \<noteq> 0"
    using pmm_frame_set_ok [of "of_nat f" s] unfolding u by blast
  let ?s = "s\<lparr>frames_bitmap := bm, used_frames := used_frames s + 1\<rparr>"
  have "\<not> max_frames s \<le> used_frames s" using assms(2) by simp
  then have "pmm_allocate_frame s = Some (of_nat f, ?s)"
    using pmm_first_free_frame_ok [OF assms(1)] f nz bm(1)
    by (simp add: pmm_allocate_frame_def pmm_mark_frame_used_def)
  moreover have "\<forall>h. frame_free ?s h \<longleftrightarrow> h \<noteq> f \<and> frame_free s h"
    using bm(2,3) by (auto simp: frame_free_def)
  moreover have "pmm_ok ?s" using pmm_ok_marked [OF assms(1) bm(2)] bm(3) by blast
  ultimately show ?thesis using f0 fg ff by (intro exI [of _ f] exI [of _ ?s]) simp
qed

theorem pmm_allocate_frame_lowest_witness:
  "\<exists>f s'. pmm_allocate_frame \<lparr>memsize = 0, frames_bitmap = [0xFFFFFFF3, 0], max_frames = 64, used_frames = 30,
       frames_bitmap_size = 8, lowest_available = 0\<rparr> = Some (of_nat f, s') \<and> f \<le> 2 \<and> 0 < f"
  using pmm_allocate_frame_lowest [of "\<lparr>memsize = 0, frames_bitmap = [0xFFFFFFF3, 0], max_frames = 64,
       used_frames = 30, frames_bitmap_size = 8, lowest_available = 0\<rparr>" 2]
  by (auto simp: pmm_ok_def frame_free_def bm_used_def)

text \<open>
  C22. For at least two frames \<^verbatim>\<open>pmm_allocate_frames\<close> succeeds exactly when there is a run of that
  many available frames below \<^verbatim>\<open>max_frames\<close> and the counter leaves room. It then returns the
  lowest such run, marks its frames and no other, and counts them.
\<close>

theorem pmm_allocate_frames_lowest:
  assumes "pmm_ok s" and "used_frames s < max_frames s" and "\<not> frame_free s 0" and "2 \<le> unat n"
  shows "if \<exists>q. free_run s (unat n) q
    then (\<exists>q s'. pmm_allocate_frames s n = Some (of_nat q, s') \<and> free_run s (unat n) q
      \<and> (\<forall>p < q. \<not> free_run s (unat n) p)
      \<and> (\<forall>h. frame_free s' h \<longleftrightarrow> frame_free s h \<and> \<not> (q \<le> h \<and> h < q + unat n))
      \<and> used_frames s' = used_frames s + n \<and> pmm_ok s')
    else pmm_allocate_frames s n = None"
proof -
  let ?N = "unat n"
  have n: "n \<noteq> 0" "n \<noteq> 1" using assms(4) by auto
  have "nfree_inv s ?N (unat (0 :: u32)) (unat (0 :: u32))"
    using assms(4) by (simp add: nfree_inv_def)
  then have loop: "pmm_first_nfree_frames s n
      = Some (if \<exists>q. free_run s ?N q then of_nat (LEAST q. free_run s ?N q) else 0)"
    using nfree_loop_ok [OF assms(1)] n by (simp add: pmm_first_nfree_frames_def)
  show ?thesis
  proof (cases "\<exists>q. free_run s ?N q")
    case False
    then show ?thesis using loop n assms(2) by (simp add: pmm_allocate_frames_def)
  next
    case True
    define q where "q = (LEAST q. free_run s ?N q)"
    have run: "free_run s ?N q" unfolding q_def using True by (rule LeastI_ex)
    have least: "\<not> free_run s ?N p" if "p < q" for p using that not_less_Least unfolding q_def by blast
    have "frame_free s q" using free_run_member [OF run, of q] assms(4) by simp
    then have q0: "q \<noteq> 0" using assms(3) by (cases "q = 0") auto
    have rng: "q + ?N \<le> unat (max_frames s)" using run by (simp add: free_run_def)
    have "q < 4294967296" using rng unat_u32_less [of "max_frames s"] by linarith
    then have u: "unat (of_nat q :: u32) = q" by (rule unat_of_nat_u32)
    have len: "unat (of_nat q :: u32) + ?N \<le> 32 * length (frames_bitmap s)"
      using rng u pmm_ok_length(3) [OF assms(1)] by linarith
    obtain bm where bm: "mark_frames_used s (of_nat q) ?N
        = Some (s\<lparr>frames_bitmap := bm, used_frames := used_frames s + of_nat ?N\<rparr>)"
      "length bm = length (frames_bitmap s)"
      "\<forall>h. bm_used bm h \<longleftrightarrow> (q \<le> h \<and> h < q + ?N) \<or> bm_used (frames_bitmap s) h"
      using mark_frames_used_ok [OF len pmm_ok_length(1) [OF assms(1)]] unfolding u by blast
    let ?s = "s\<lparr>frames_bitmap := bm, used_frames := used_frames s + n\<rparr>"
    have nz: "(of_nat q :: u32) \<noteq> 0" using u q0 by auto
    have "\<not> max_frames s \<le> used_frames s" using assms(2) by simp
    then have "pmm_allocate_frames s n = Some (of_nat q, ?s)"
      using loop [folded q_def] True n nz bm(1) by (simp add: pmm_allocate_frames_def)
    moreover have "\<forall>h. frame_free ?s h \<longleftrightarrow> frame_free s h \<and> \<not> (q \<le> h \<and> h < q + ?N)"
      using bm(2,3) by (auto simp: frame_free_def)
    moreover have "pmm_ok ?s" using pmm_ok_marked [OF assms(1) bm(2)] bm(3) by blast
    ultimately have "pmm_allocate_frames s n = Some (of_nat q, ?s) \<and> free_run s ?N q
      \<and> (\<forall>p < q. \<not> free_run s ?N p)
      \<and> (\<forall>h. frame_free ?s h \<longleftrightarrow> frame_free s h \<and> \<not> (q \<le> h \<and> h < q + ?N))
      \<and> used_frames ?s = used_frames s + n \<and> pmm_ok ?s"
      using run least by simp
    then show ?thesis unfolding if_P [OF True] by blast
  qed
qed

theorem pmm_allocate_frames_lowest_witness:
  "\<exists>q s'. pmm_allocate_frames \<lparr>memsize = 0, frames_bitmap = [0xFFFFFFF3, 0], max_frames = 64, used_frames = 30,
       frames_bitmap_size = 8, lowest_available = 0\<rparr> 2 = Some (of_nat q, s')"
proof -
  let ?s = "\<lparr>memsize = 0, frames_bitmap = [0xFFFFFFF3, 0], max_frames = 64, used_frames = 30,
       frames_bitmap_size = 8, lowest_available = 0\<rparr>"
  have "free_run ?s 2 2"
    by (auto simp: free_run_def frame_free_def bm_used_def less_2_cases_iff)
  then show ?thesis
    using pmm_allocate_frames_lowest [of ?s 2]
    by (auto simp: pmm_ok_def frame_free_def bm_used_def split: if_splits)
qed

lemma pmm_frame_unseta_eq: "pmm_frame_unseta s a = pmm_frame_unset s (drop_bit FRAME_SHIFT a)"
  by (simp add: pmm_frame_unseta_def pmm_frame_unset_def Let_def)

lemma frame_addr_inverse:
  assumes "f < 1048576"
  shows "drop_bit FRAME_SHIFT (push_bit FRAME_SHIFT (of_nat f :: u32)) = of_nat f"
proof -
  have "unat (of_nat f * 4096 :: u32) = f * 4096"
    using assms unat_of_nat_u32 [of "f * 4096"] by simp
  then have "unat (drop_bit FRAME_SHIFT (push_bit FRAME_SHIFT (of_nat f :: u32))) = f"
    using assms by (simp add: FRAME_SHIFT_def push_bit_eq_mult drop_bit_eq_div unat_div)
  then show ?thesis using assms by (simp add: u32_eq_iff unat_of_nat_u32)
qed

lemma pmm_allocate_frame_shape:
  assumes "pmm_ok s" and "pmm_allocate_frame s = Some (w, s')"
  obtains f bm where "w = of_nat f" "s' = s\<lparr>frames_bitmap := bm, used_frames := used_frames s + 1\<rparr>"
    "length bm = length (frames_bitmap s)" "\<forall>h. bm_used bm h \<longleftrightarrow> h = f \<or> bm_used (frames_bitmap s) h"
    "frame_free s f" "f < 1048576" "\<forall>h < f. \<not> frame_free s h"
proof -
  have ff: "pmm_first_free_frame s = Some w" "w \<noteq> 0" "pmm_mark_frame_used s w = Some s'"
    using assms(2) by (auto simp: pmm_allocate_frame_def split: if_splits Option.bind_splits)
  then obtain f where f: "find (frame_free s) [0..<32 * (unat (max_frames s) div 32)] = Some f" "w = of_nat f"
    using pmm_first_free_frame_ok [OF assms(1)] by (auto split: option.splits)
  then have lo: "frame_free s f" "\<forall>h < f. \<not> frame_free s h" "f < 32 * (unat (max_frames s) div 32)"
    by (auto simp: find_upt_Some_iff)
  then have b: "f < 1048576" using assms(1) unfolding pmm_ok_def by linarith
  then have u: "unat w = f" using f(2) by (simp add: unat_of_nat_u32)
  obtain bm where "pmm_frame_set s w = Some (s\<lparr>frames_bitmap := bm\<rparr>)" "length bm = length (frames_bitmap s)"
    "\<forall>h. bm_used bm h \<longleftrightarrow> h = f \<or> bm_used (frames_bitmap s) h"
    using pmm_frame_set_ok [of w s] lo(1) u by (auto simp: frame_free_def)
  then show ?thesis using that [of f bm] f(2) ff(3) lo b by (simp add: pmm_mark_frame_used_def)
qed

text \<open>
  Freeing the frame that \<^verbatim>\<open>pmm_allocate_frame_addr\<close> returned gives the state back as far as a
  client can see: the same frames are available and the counter has its old value.
\<close>

theorem pmm_allocate_free:
  assumes "pmm_ok s" and "pmm_allocate_frame_addr s = Some (a, s1)"
  shows "\<exists>s2. pmm_free_frame s1 a = Some s2 \<and> (\<forall>h. frame_free s2 h \<longleftrightarrow> frame_free s h)
    \<and> used_frames s2 = used_frames s \<and> pmm_ok s2"
proof -
  obtain w where w: "pmm_allocate_frame s = Some (w, s1)" "a = push_bit FRAME_SHIFT w"
    using assms(2) by (auto simp: pmm_allocate_frame_addr_def split: Option.bind_splits)
  obtain f bm where f: "w = of_nat f" "s1 = s\<lparr>frames_bitmap := bm, used_frames := used_frames s + 1\<rparr>"
    "length bm = length (frames_bitmap s)" "\<forall>h. bm_used bm h \<longleftrightarrow> h = f \<or> bm_used (frames_bitmap s) h"
    "frame_free s f" "f < 1048576" "\<forall>h < f. \<not> frame_free s h"
    using pmm_allocate_frame_shape [OF assms(1) w(1)] by blast
  have a: "drop_bit FRAME_SHIFT a = of_nat f" using frame_addr_inverse [OF f(6)] w(2) f(1) by simp
  let ?s1 = "s1\<lparr>used_frames := used_frames s\<rparr>"
  have u: "unat (of_nat f :: u32) = f" using f(6) by (simp add: unat_of_nat_u32)
  then obtain bm2 where bm2: "pmm_frame_unset ?s1 (of_nat f)
      = Some (?s1\<lparr>frames_bitmap := bm2, lowest_available := min (of_nat f) (lowest_available s)\<rparr>)"
    "length bm2 = length bm" "\<forall>h. bm_used bm2 h \<longleftrightarrow> h \<noteq> f \<and> bm_used bm h"
    using pmm_frame_unset_ok [of "of_nat f" ?s1] f(2,3,5) by (auto simp: frame_free_def)
  let ?s2 = "?s1\<lparr>frames_bitmap := bm2, lowest_available := min (of_nat f) (lowest_available s)\<rparr>"
  have "pmm_free_frame s1 a = Some ?s2"
    using bm2(1) f(2) a by (simp add: pmm_free_frame_def pmm_frame_unseta_eq)
  moreover have free: "frame_free ?s2 h \<longleftrightarrow> frame_free s h" for h
    using bm2(2,3) f(3,4,5) by (auto simp: frame_free_def)
  moreover have "\<forall>h < unat (min (of_nat f) (lowest_available s)). \<not> frame_free s h"
    using assms(1) f(7) u by (auto simp: pmm_ok_def min_def)
  then have "pmm_ok ?s2"
    using assms(1) free f(2,3) bm2(2) by (simp add: pmm_ok_def)
  ultimately show ?thesis using f(2) by auto
qed

lemma first_zero_bit_numeral: "first_zero_bit w j (numeral k)
    = (if w AND push_bit j 1 = 0 then Some j else first_zero_bit w (j + 1) (pred_numeral k))"
  by (simp add: numeral_eq_Suc)

lemma first_free_loop_numeral: "first_free_loop s i (numeral k) = do {
     w \<leftarrow> word_at s i;
     case (if w \<noteq> -1 then first_zero_bit w 0 32 else None) of
       Some j \<Rightarrow> Some (push_bit 5 i + of_nat j)
     | None \<Rightarrow> first_free_loop s (i + 1) (pred_numeral k)
   }"
  by (simp add: numeral_eq_Suc [of k])

theorem pmm_allocate_free_witness:
  "\<exists>a s1 s2. pmm_allocate_frame_addr \<lparr>memsize = 0, frames_bitmap = [0xFFFFFFF3, 0], max_frames = 64,
       used_frames = 30, frames_bitmap_size = 8, lowest_available = 0\<rparr> = Some (a, s1)
     \<and> pmm_free_frame s1 a = Some s2 \<and> used_frames s2 = 30 \<and> frame_free s2 2"
proof -
  let ?s = "\<lparr>memsize = 0, frames_bitmap = [0xFFFFFFF3, 0], max_frames = 64, used_frames = 30,
       frames_bitmap_size = 8, lowest_available = 0\<rparr>"
  let ?s1 = "\<lparr>memsize = 0, frames_bitmap = [0xFFFFFFF7, 0], max_frames = 64, used_frames = 31,
       frames_bitmap_size = 8, lowest_available = 0\<rparr>"
  have "pmm_allocate_frame_addr ?s = Some (0x2000, ?s1)"
    by (simp add: pmm_allocate_frame_addr_def pmm_allocate_frame_def pmm_first_free_frame_def
        pmm_mark_frame_used_def pmm_frame_set_def FRAME_INDEX_def FRAME_OFFSET_def FRAME_SHIFT_def
        word_at_def first_free_loop_numeral first_zero_bit_numeral)
  moreover have "pmm_ok ?s" and "frame_free ?s 2"
    by (auto simp: pmm_ok_def frame_free_def bm_used_def)
  ultimately show ?thesis using pmm_allocate_free [of ?s "0x2000" ?s1] by auto
qed

section \<open>Initialisation\<close>

text \<open>The frames that the two region functions visit: both the address and the length are rounded down.\<close>

definition in_region :: "u32 \<Rightarrow> u32 \<Rightarrow> nat \<Rightarrow> bool" where
  "in_region a len f \<longleftrightarrow> unat (a div FRAME_SIZE) \<le> f
     \<and> f < unat (a div FRAME_SIZE) + unat (drop_bit FRAME_SHIFT (len AND FRAME_MASK))"

definition region_fits :: "nat \<Rightarrow> u32 \<Rightarrow> u32 \<Rightarrow> bool" where
  "region_fits n a len \<longleftrightarrow> unat (a div FRAME_SIZE) + unat (drop_bit FRAME_SHIFT (len AND FRAME_MASK)) \<le> n"

text \<open>A frame that is visited for the memory map.\<close>

definition usable :: "multiboot_memory_map list \<Rightarrow> nat \<Rightarrow> bool" where
  "usable mmap f \<longleftrightarrow> list_ex (\<lambda>e. mm_type e = 1 \<and> in_region (ucast (mm_addr e)) (ucast (mm_len e)) f) mmap"

definition mmap_fits :: "nat \<Rightarrow> multiboot_memory_map list \<Rightarrow> bool" where
  "mmap_fits n mmap \<longleftrightarrow>
     list_all (\<lambda>e. mm_type e = 1 \<longrightarrow> region_fits n (ucast (mm_addr e)) (ucast (mm_len e))) mmap"

text \<open>The regions that \<^verbatim>\<open>pmm_init\<close> takes away again.\<close>

definition reserved :: "pmm_boot_info \<Rightarrow> u32 \<Rightarrow> (u32 \<times> u32) list" where
  "reserved b bitmap_size =
     [(0, bootloader_phy_end b), (kernel_phy_start b, kernel_size b),
      (kernel_phy_end b, PAGE_ALIGN (kernel_phy_end b) + bitmap_size - kernel_phy_end b),
      (video_phy_start b, video_phy_end b - video_phy_start b)]"

lemma pmm_deinit_region_ok:
  assumes "region_fits (32 * length (frames_bitmap s)) a len" and "length (frames_bitmap s) \<le> 32768"
  shows "\<exists>bm. pmm_deinit_region s a len = Some (s\<lparr>frames_bitmap := bm\<rparr>) \<and> length bm = length (frames_bitmap s)
    \<and> (\<forall>g. bm_used bm g \<longleftrightarrow> in_region a len g \<or> bm_used (frames_bitmap s) g)"
  using set_frames_ok [of "a div FRAME_SIZE" "unat (drop_bit FRAME_SHIFT (len AND FRAME_MASK))" s] assms
  by (simp add: pmm_deinit_region_def region_fits_def in_region_def)

lemma pmm_init_region_ok:
  assumes "region_fits (32 * length (frames_bitmap s)) a len" and "length (frames_bitmap s) \<le> 32768"
    and "lowest_available s = 0"
  shows "\<exists>bm. pmm_init_region s a len = Some (s\<lparr>frames_bitmap := bm\<rparr>) \<and> length bm = length (frames_bitmap s)
    \<and> (\<forall>g. bm_used bm g \<longleftrightarrow> \<not> in_region a len g \<and> bm_used (frames_bitmap s) g)"
  using unset_frames_ok [of "a div FRAME_SIZE" "unat (drop_bit FRAME_SHIFT (len AND FRAME_MASK))" s] assms
  by (simp add: pmm_init_region_def region_fits_def in_region_def)

lemma init_regions_ok:
  assumes "mmap_fits (32 * length (frames_bitmap s)) mmap" and "length (frames_bitmap s) \<le> 32768"
    and "lowest_available s = 0"
  shows "\<exists>bm. init_regions s mmap = Some (s\<lparr>frames_bitmap := bm\<rparr>) \<and> length bm = length (frames_bitmap s)
    \<and> (\<forall>g. bm_used bm g \<longleftrightarrow> \<not> usable mmap g \<and> bm_used (frames_bitmap s) g)"
  using assms
proof (induction mmap arbitrary: s)
  case Nil
  then show ?case by (intro exI [of _ "frames_bitmap s"]) (simp add: usable_def)
next
  case (Cons e es)
  have fits: "mmap_fits (32 * length (frames_bitmap s)) es" using Cons.prems(1) by (simp add: mmap_fits_def)
  show ?case
  proof (cases "mm_type e = 1")
    case True
    then have "region_fits (32 * length (frames_bitmap s)) (ucast (mm_addr e)) (ucast (mm_len e))"
      using Cons.prems(1) by (simp add: mmap_fits_def)
    then obtain bm where bm: "pmm_init_region s (ucast (mm_addr e)) (ucast (mm_len e)) = Some (s\<lparr>frames_bitmap := bm\<rparr>)"
      "length bm = length (frames_bitmap s)"
      "\<forall>g. bm_used bm g \<longleftrightarrow> \<not> in_region (ucast (mm_addr e)) (ucast (mm_len e)) g \<and> bm_used (frames_bitmap s) g"
      using pmm_init_region_ok Cons.prems(2,3) by blast
    then obtain bm2 where "init_regions (s\<lparr>frames_bitmap := bm\<rparr>) es = Some (s\<lparr>frames_bitmap := bm2\<rparr>)"
      "length bm2 = length bm" "\<forall>g. bm_used bm2 g \<longleftrightarrow> \<not> usable es g \<and> bm_used bm g"
      using Cons.IH [of "s\<lparr>frames_bitmap := bm\<rparr>"] fits Cons.prems(2,3) by auto
    then show ?thesis using True bm by (intro exI [of _ bm2]) (auto simp: usable_def)
  next
    case False
    then show ?thesis using Cons.IH [of s] fits Cons.prems(2,3) by (simp add: usable_def)
  qed
qed

fun deinit_regions :: "pmm \<Rightarrow> (u32 \<times> u32) list \<Rightarrow> pmm option" where
  "deinit_regions s [] = Some s"
| "deinit_regions s ((a, len) # rs) = do { s \<leftarrow> pmm_deinit_region s a len; deinit_regions s rs }"

lemma deinit_regions_ok:
  assumes "list_all (\<lambda>(a, len). region_fits (32 * length (frames_bitmap s)) a len) rs"
    and "length (frames_bitmap s) \<le> 32768"
  shows "\<exists>bm. deinit_regions s rs = Some (s\<lparr>frames_bitmap := bm\<rparr>) \<and> length bm = length (frames_bitmap s)
    \<and> (\<forall>g. bm_used bm g \<longleftrightarrow> list_ex (\<lambda>(a, len). in_region a len g) rs \<or> bm_used (frames_bitmap s) g)"
  using assms
proof (induction rs arbitrary: s)
  case Nil
  then show ?case by (intro exI [of _ "frames_bitmap s"]) simp
next
  case (Cons r rs)
  obtain a len where r: "r = (a, len)" by force
  then obtain bm where bm: "pmm_deinit_region s a len = Some (s\<lparr>frames_bitmap := bm\<rparr>)"
    "length bm = length (frames_bitmap s)" "\<forall>g. bm_used bm g \<longleftrightarrow> in_region a len g \<or> bm_used (frames_bitmap s) g"
    using pmm_deinit_region_ok [of s a len] Cons.prems by auto
  then obtain bm2 where "deinit_regions (s\<lparr>frames_bitmap := bm\<rparr>) rs = Some (s\<lparr>frames_bitmap := bm2\<rparr>)"
    "length bm2 = length bm"
    "\<forall>g. bm_used bm2 g \<longleftrightarrow> list_ex (\<lambda>(a, len). in_region a len g) rs \<or> bm_used bm g"
    using Cons.IH [of "s\<lparr>frames_bitmap := bm\<rparr>"] Cons.prems by auto
  then show ?case using r bm by (intro exI [of _ bm2]) auto
qed

text \<open>The counting loops.\<close>

lemma count_bits_ok:
  "j + k \<le> 32 \<Longrightarrow> count_bits w j k acc = acc + of_nat (length (filter (bit w) [j..<j + k]))"
proof (induction k arbitrary: j acc)
  case (Suc k)
  have "[j..<j + Suc k] = j # [Suc j..<Suc j + k]" by (simp add: upt_conv_Cons)
  then show ?case using Suc bit_check_iff [of j w] by (simp add: bit_check_def algebra_simps)
qed simp

lemma count_used_ok:
  assumes "unat i + k \<le> length (frames_bitmap s)" and "length (frames_bitmap s) \<le> 32768"
  shows "count_used s i k acc
    = Some (acc + of_nat (length (filter (bm_used (frames_bitmap s)) [32 * unat i..<32 * (unat i + k)])))"
  using assms
proof (induction k arbitrary: i acc)
  case (Suc k)
  let ?I = "unat i" and ?w = "frames_bitmap s ! unat i" and ?P = "bm_used (frames_bitmap s)"
  have I: "unat (i + 1) = ?I + 1" using Suc.prems by (intro unat_Suc_u32) linarith
  have split: "[32 * ?I..<32 * (?I + Suc k)] = [32 * ?I..<32 * ?I + 32] @ [32 * unat (i + 1)..<32 * (unat (i + 1) + k)]"
    unfolding I using upt_add_eq_append [of "32 * ?I" "32 * ?I + 32" "32 * k"] by (simp add: algebra_simps)
  have "[32 * ?I..<32 * ?I + 32] = map (\<lambda>j. 32 * ?I + j) [0..<32]"
    using map_add_upt [of "32 * ?I" 32] by (simp add: add.commute)
  moreover have "filter (?P \<circ> (\<lambda>j. 32 * ?I + j)) [0..<32] = filter (bit ?w) [0..<32]"
    by (intro filter_cong) (auto simp: bm_used_def)
  ultimately have "length (filter ?P [32 * ?I..<32 * ?I + 32]) = length (filter (bit ?w) [0..<32])"
    by (simp add: filter_map)
  then show ?case
    unfolding split using Suc.IH [of "i + 1"] Suc.prems I count_bits_ok [of 0 32 ?w acc]
    by (simp add: word_at_def algebra_simps del: upt_Suc)
qed simp

text \<open>The number of words of the bitmap for a highest address.\<close>

definition bitmap_words :: "u32 \<Rightarrow> nat" where
  "bitmap_words hi = unat hi div 131072 + 1"

definition bitmap_bytes :: "u32 \<Rightarrow> u32" where
  "bitmap_bytes hi = of_nat (4 * bitmap_words hi)"

lemma bitmap_words_le: "bitmap_words hi \<le> 32768"
  using unat_u32_less [of hi] unfolding bitmap_words_def by linarith

lemma init_sizes:
  fixes hi :: u32
  defines "m \<equiv> drop_bit FRAME_SHIFT hi + 1"
  shows "unat m = unat hi div 4096 + 1" and "(FRAME_INDEX (m - 1) + 1) * 4 = bitmap_bytes hi"
    and "unat (bitmap_bytes hi) div 4 = bitmap_words hi"
proof -
  have d: "unat (drop_bit FRAME_SHIFT hi) = unat hi div 4096"
    by (simp add: FRAME_SHIFT_def drop_bit_eq_div unat_div)
  moreover have "unat hi div 4096 + 1 < 4294967296" using unat_u32_less [of hi] by linarith
  ultimately show "unat m = unat hi div 4096 + 1" unfolding m_def by (simp add: unat_Suc_u32)
  have "unat (FRAME_INDEX (m - 1)) = unat hi div 131072"
    using d by (simp add: m_def unat_FRAME_INDEX div_mult2_eq [symmetric])
  moreover have "unat hi div 131072 < 4294967296" using unat_u32_less [of hi] by linarith
  ultimately have "FRAME_INDEX (m - 1) = of_nat (unat hi div 131072)"
    by (simp add: u32_eq_iff unat_of_nat_u32)
  then show "(FRAME_INDEX (m - 1) + 1) * 4 = bitmap_bytes hi"
    by (simp add: bitmap_bytes_def bitmap_words_def)
  show "unat (bitmap_bytes hi) div 4 = bitmap_words hi"
    using bitmap_words_le [of hi] by (simp add: bitmap_bytes_def unat_of_nat_u32 del: of_nat_mult)
qed

lemma pmm_init_frames:
  assumes "lowest_available s0 = 0" and "used_frames s0 = 0"
    and "mmap_fits (32 * bitmap_words (highest_address b)) mmap"
    and "list_all (\<lambda>(a, len). region_fits (32 * bitmap_words (highest_address b)) a len)
      (reserved b (bitmap_bytes (highest_address b)))"
  shows "\<exists>s. pmm_init s0 b mmap = Some s \<and> pmm_ok s
    \<and> (\<forall>f. frame_free s f \<longleftrightarrow> usable mmap f \<and> f \<noteq> 0
         \<and> \<not> list_ex (\<lambda>(a, len). in_region a len f) (reserved b (bitmap_bytes (highest_address b))))
    \<and> used_frames s
        = of_nat (length (filter (\<lambda>f. \<not> frame_free s f) [0..<32 * (unat (max_frames s) div 32)]))"
proof -
  let ?hi = "highest_address b"
  let ?m = "drop_bit FRAME_SHIFT ?hi + 1" and ?W = "bitmap_words ?hi" and ?B = "bitmap_bytes ?hi"
  let ?s1 = "s0\<lparr>memsize := ?hi, max_frames := ?m, frames_bitmap_size := ?B, frames_bitmap := replicate ?W (-1)\<rparr>"
  note sz = init_sizes [of ?hi]
  have W: "?W \<le> 32768" by (rule bitmap_words_le)
  obtain bm2 where bm2: "init_regions ?s1 mmap = Some (?s1\<lparr>frames_bitmap := bm2\<rparr>)" "length bm2 = ?W"
    "\<forall>g. bm_used bm2 g \<longleftrightarrow> \<not> usable mmap g \<and> bm_used (replicate ?W (-1)) g"
    using init_regions_ok [of ?s1 mmap] assms(1,3) W by auto
  let ?s2 = "?s1\<lparr>frames_bitmap := bm2\<rparr>"
  have W0: "0 < ?W" by (simp add: bitmap_words_def)
  then obtain bm3 where bm3: "pmm_frame_set ?s2 0 = Some (?s1\<lparr>frames_bitmap := bm3\<rparr>)" "length bm3 = ?W"
    "\<forall>g. bm_used bm3 g \<longleftrightarrow> g = 0 \<or> bm_used bm2 g"
    using pmm_frame_set_ok [of 0 ?s2] bm2(2) by auto
  let ?s3 = "?s1\<lparr>frames_bitmap := bm3\<rparr>"
  obtain bm4 where bm4: "deinit_regions ?s3 (reserved b ?B) = Some (?s1\<lparr>frames_bitmap := bm4\<rparr>)" "length bm4 = ?W"
    "\<forall>g. bm_used bm4 g \<longleftrightarrow> list_ex (\<lambda>(a, len). in_region a len g) (reserved b ?B) \<or> bm_used bm3 g"
    using deinit_regions_ok [of ?s3 "reserved b ?B"] bm3(2) assms(4) W by auto
  let ?s4 = "?s1\<lparr>frames_bitmap := bm4\<rparr>"
  let ?used = "of_nat (length (filter (bm_used bm4) [0..<32 * (unat ?m div 32)])) :: u32"
  let ?s = "?s4\<lparr>used_frames := ?used\<rparr>"
  have mW: "unat ?m div 32 \<le> ?W" "(unat ?m + 31) div 32 = ?W" "unat ?m \<le> 1048576"
    using sz(1) unat_u32_less [of ?hi] unfolding bitmap_words_def by linarith+
  have cnt: "count_used ?s4 0 (unat (FRAME_INDEX ?m)) 0 = Some ?used"
    using count_used_ok [of 0 "unat ?m div 32" ?s4 0] mW(1) bm4(2) W by (simp add: unat_FRAME_INDEX)
  have init: "pmm_init s0 b mmap = Some ?s"
  proof -
    have "pmm_init s0 b mmap = do { s \<leftarrow> init_regions ?s1 mmap; s \<leftarrow> pmm_frame_set s 0;
        s \<leftarrow> deinit_regions s (reserved b ?B);
        u \<leftarrow> count_used s 0 (unat (FRAME_INDEX (max_frames s))) (used_frames s); Some (s\<lparr>used_frames := u\<rparr>) }"
      unfolding pmm_init_def reserved_def Let_def using sz(2,3) by simp
    then show ?thesis using bm2(1) bm3(1) bm4(1) cnt assms(2) by simp
  qed
  have rng: "f < 32 * ?W" if "usable mmap f" for f
    using that assms(3) by (auto simp: usable_def mmap_fits_def list_ex_iff list_all_iff region_fits_def in_region_def)
  have ones: "bm_used (replicate ?W (-1)) f" if "f < 32 * ?W" for f
    using that by (simp add: bm_used_def in_range_iff bit_minus_1_iff)
  have free: "frame_free ?s f \<longleftrightarrow> usable mmap f \<and> f \<noteq> 0
      \<and> \<not> list_ex (\<lambda>(a, len). in_region a len f) (reserved b ?B)" for f
    using bm2(3) bm3(3) bm4(2,3) rng [of f] ones [of f] by (auto simp: frame_free_def)
  have "filter (bm_used bm4) [0..<32 * (unat ?m div 32)] = filter (\<lambda>f. \<not> frame_free ?s f) [0..<32 * (unat ?m div 32)]"
    using bm4(2) mW(1) by (intro filter_cong) (auto simp: frame_free_def)
  moreover have "pmm_ok ?s" using mW(2,3) bm4(2) assms(1) sz(1) by (simp add: pmm_ok_def)
  ultimately show ?thesis using init free by (intro exI [of _ ?s]) simp
qed

subsection \<open>Initialisation in terms of bytes\<close>

text \<open>All 4096 bytes of the frame \<open>f\<close> are among the \<open>n\<close> bytes from the address \<open>a\<close> on.\<close>

definition frame_within :: "nat \<Rightarrow> nat \<times> nat \<Rightarrow> bool" where
  "frame_within f = (\<lambda>(a, n). \<forall>x \<in> {4096 * f..<4096 * f + 4096}. a \<le> x \<and> x < a + n)"

lemma frame_within_iff: "frame_within f (a, n) \<longleftrightarrow> a \<le> 4096 * f \<and> 4096 * f + 4096 \<le> a + n"
proof
  assume "frame_within f (a, n)"
  then have "a \<le> 4096 * f" "4096 * f + 4095 < a + n" by (auto simp: frame_within_def)
  then show "a \<le> 4096 * f \<and> 4096 * f + 4096 \<le> a + n" by simp
qed (auto simp: frame_within_def)

text \<open>A region that starts at a frame and ends before \<open>hi\<close>.\<close>

definition region_ok :: "nat \<Rightarrow> nat \<times> nat \<Rightarrow> bool" where
  "region_ok hi = (\<lambda>(a, n). a mod 4096 = 0 \<and> a + n \<le> hi \<and> a + n < 4294967296)"

definition available :: "multiboot_memory_map list \<Rightarrow> (nat \<times> nat) list" where
  "available mmap = map (\<lambda>e. (unat (mm_addr e), unat (mm_len e))) (filter (\<lambda>e. mm_type e = 1) mmap)"

text \<open>The boot code, the kernel, the bitmap behind it and the video memory, in bytes.\<close>

definition in_use :: "pmm_boot_info \<Rightarrow> (nat \<times> nat) list" where
  "in_use b = [(0, unat (bootloader_phy_end b)), (unat (kernel_phy_start b), unat (kernel_size b)),
     (unat (kernel_phy_end b), 4 * bitmap_words (highest_address b)),
     (unat (video_phy_start b), unat (video_phy_end b) - unat (video_phy_start b))]"

lemma clear_low_bits_mask: "(x :: u32) AND NOT (mask m) = push_bit m (drop_bit m x)"
  by (rule bit_word_eqI) (auto simp: bit_simps)

lemma clear_low_bits: "(x :: u32) AND NOT 4095 = push_bit 12 (drop_bit 12 x)"
  using clear_low_bits_mask [of x 12] by (simp add: mask_eq_exp_minus_1)

lemma unat_ucast_small: "unat (w :: u64) < 4294967296 \<Longrightarrow> unat (ucast w :: u32) = unat w"
  by (simp add: unsigned_ucast_eq take_bit_nat_eq_self)

lemma region_frames:
  "unat (a div FRAME_SIZE) = unat a div 4096" "unat (drop_bit FRAME_SHIFT (len AND FRAME_MASK)) = unat len div 4096"
proof -
  show "unat (a div FRAME_SIZE) = unat a div 4096" by (simp add: FRAME_SIZE_def unat_div)
  have "len AND FRAME_MASK = len AND NOT 4095" by (simp add: FRAME_MASK_def FRAME_SIZE_def)
  then have "drop_bit FRAME_SHIFT (len AND FRAME_MASK) = drop_bit 12 len"
    unfolding FRAME_SHIFT_def clear_low_bits by (intro bit_word_eqI) (auto simp: bit_simps dest: bit_imp_le_length)
  then show "unat (drop_bit FRAME_SHIFT (len AND FRAME_MASK)) = unat len div 4096" by (simp add: drop_bit_eq_div unat_div)
qed

lemma PAGE_ALIGN_aligned:
  assumes "unat a mod 4096 = 0"
  shows "PAGE_ALIGN a = a"
proof -
  obtain q where q: "unat a = 4096 * q" using assms by (auto simp: mod_eq_0_iff_dvd)
  then have "q < 1048576" using unat_u32_less [of a] by simp
  then have x: "unat (a + 4095) = 4096 * q + 4095" using q by (simp add: unat_word_ariths)
  have "unat (drop_bit 12 (a + 4095)) = q" using x by (simp add: drop_bit_eq_div unat_div)
  then have "unat (push_bit 12 (drop_bit 12 (a + 4095))) = unat a"
    using q \<open>q < 1048576\<close> by (simp add: push_bit_eq_mult unat_word_ariths)
  then show ?thesis unfolding PAGE_ALIGN_def clear_low_bits u32_eq_iff .
qed

lemma in_region_within:
  assumes "unat a mod 4096 = 0"
  shows "in_region a len f \<longleftrightarrow> frame_within f (unat a, unat len)"
proof -
  obtain q where q: "unat a = 4096 * q" using assms by (auto simp: mod_eq_0_iff_dvd)
  have "f < q + unat len div 4096 \<longleftrightarrow> 4096 * f + 4096 \<le> 4096 * q + unat len"
    using div_mult_mod_eq [of "unat len" 4096] mod_less_divisor [of 4096 "unat len"] by linarith
  then show ?thesis unfolding in_region_def region_frames frame_within_iff q by simp
qed

lemma region_fits_bytes:
  assumes "unat a + unat len \<le> 4096 * n"
  shows "region_fits n a len"
  using assms unfolding region_fits_def region_frames by linarith

lemma usable_within:
  assumes "list_all (region_ok hi) (available mmap)"
  shows "usable mmap f \<longleftrightarrow> list_ex (frame_within f) (available mmap)"
proof -
  have e: "in_region (ucast (mm_addr e)) (ucast (mm_len e)) f \<longleftrightarrow> frame_within f (unat (mm_addr e), unat (mm_len e))"
    if "e \<in> set mmap" "mm_type e = 1" for e
  proof -
    have r: "region_ok hi (unat (mm_addr e), unat (mm_len e))" using assms that by (auto simp: available_def list_all_iff)
    then have u: "unat (ucast (mm_addr e) :: u32) = unat (mm_addr e)" "unat (ucast (mm_len e) :: u32) = unat (mm_len e)"
      by (simp_all add: region_ok_def unat_ucast_small)
    show ?thesis using in_region_within [of "ucast (mm_addr e)" "ucast (mm_len e)" f] r unfolding u by (simp add: region_ok_def)
  qed
  then show ?thesis by (auto simp: usable_def available_def list_ex_iff)
qed

lemma mmap_fits_bytes:
  assumes "list_all (region_ok (4096 * n)) (available mmap)"
  shows "mmap_fits n mmap"
proof -
  have "region_fits n (ucast (mm_addr e)) (ucast (mm_len e))" if "e \<in> set mmap" "mm_type e = 1" for e
    using assms that by (intro region_fits_bytes) (auto simp: available_def list_all_iff region_ok_def unat_ucast_small)
  then show ?thesis by (simp add: mmap_fits_def list_all_iff)
qed

lemma reserved_in_use:
  assumes "list_all (region_ok hi) (in_use b)" and "video_phy_start b \<le> video_phy_end b"
  shows "map (\<lambda>(a, len). (unat a, unat len)) (reserved b (bitmap_bytes (highest_address b))) = in_use b"
proof -
  have "PAGE_ALIGN (kernel_phy_end b) = kernel_phy_end b"
    using assms(1) by (intro PAGE_ALIGN_aligned) (simp add: in_use_def region_ok_def)
  moreover have "unat (bitmap_bytes (highest_address b)) = 4 * bitmap_words (highest_address b)"
    using bitmap_words_le [of "highest_address b"] by (simp add: bitmap_bytes_def unat_of_nat_u32 del: of_nat_mult)
  ultimately show ?thesis using assms(2) by (simp add: reserved_def in_use_def unat_sub)
qed

text \<open>
  C3. Which frames are available after \<^verbatim>\<open>pmm_init\<close>, byte by byte: exactly those other than frame 0 that lie with all their bytes in
  an available region of the memory map and do not lie with all their bytes in the boot code, in the kernel, in the bitmap behind it or in the
  video memory. The regions start at a frame and lie in the memory that the bitmap describes. A frame that one of them covers in part only
  stays available: in particular the last frame of the bitmap, unless the size of the bitmap is a multiple of 4096, although
  the comment in the code says that everything up to the end of the bitmap is marked. The counter is the number of frames
  in use among the full words of the bitmap.
\<close>

theorem pmm_init_available:
  assumes "lowest_available s0 = 0" and "used_frames s0 = 0" and "video_phy_start b \<le> video_phy_end b"
    and a: "list_all (region_ok (131072 * bitmap_words (highest_address b))) (available mmap)"
    and u: "list_all (region_ok (131072 * bitmap_words (highest_address b))) (in_use b)"
  shows "\<exists>s. pmm_init s0 b mmap = Some s \<and> pmm_ok s
    \<and> (\<forall>f. frame_free s f \<longleftrightarrow> f \<noteq> 0 \<and> list_ex (frame_within f) (available mmap) \<and> \<not> list_ex (frame_within f) (in_use b))
    \<and> used_frames s = of_nat (length (filter (\<lambda>f. \<not> frame_free s f) [0..<32 * (unat (max_frames s) div 32)]))"
proof -
  define n where "n = 32 * bitmap_words (highest_address b)"
  define rs where "rs = reserved b (bitmap_bytes (highest_address b))"
  have n: "131072 * bitmap_words (highest_address b) = 4096 * n" by (simp add: n_def)
  have m: "mmap_fits n mmap" using mmap_fits_bytes a unfolding n by blast
  have r: "in_use b = map (\<lambda>(a, len). (unat a, unat len)) rs" using reserved_in_use [OF u assms(3)] by (simp add: rs_def)
  have ok: "unat x mod 4096 = 0 \<and> unat x + unat len \<le> 4096 * n" if "(x, len) \<in> set rs" for x len
    using u that unfolding n r by (auto simp: list_all_iff region_ok_def)
  have f: "list_all (\<lambda>(a, len). region_fits n a len) rs" using ok region_fits_bytes by (auto simp: list_all_iff)
  have w: "list_ex (\<lambda>(a, len). in_region a len g) rs \<longleftrightarrow> list_ex (frame_within g) (in_use b)" for g
  proof -
    have "in_region x len g \<longleftrightarrow> frame_within g (unat x, unat len)" if "(x, len) \<in> set rs" for x len
      using ok [OF that] by (intro in_region_within) simp
    then show ?thesis unfolding r list_ex_iff by fastforce
  qed
  show ?thesis using pmm_init_frames [OF assms(1,2) m [unfolded n_def] f [unfolded n_def rs_def]]
    unfolding rs_def [symmetric] w usable_within [OF a] by blast
qed

theorem pmm_init_available_witness:
  "\<exists>s. pmm_init \<lparr>memsize = 0, frames_bitmap = [], max_frames = 0, used_frames = 0, frames_bitmap_size = 0,
        lowest_available = 0\<rparr>
      \<lparr>highest_address = 0x3FFFF, bootloader_phy_end = 0x1000, kernel_phy_start = 0x2000,
       kernel_phy_end = 0x3000, kernel_end = 0, kernel_size = 0x1000, video_phy_start = 0, video_phy_end = 0\<rparr>
      [\<lparr>mm_addr = 0, mm_len = 0x20000, mm_type = 1\<rparr>] = Some s \<and> frame_free s 5 \<and> \<not> frame_free s 2
      \<and> frame_free s 3"
  using pmm_init_available [of "\<lparr>memsize = 0, frames_bitmap = [], max_frames = 0, used_frames = 0, frames_bitmap_size = 0,
        lowest_available = 0\<rparr>" "\<lparr>highest_address = 0x3FFFF, bootloader_phy_end = 0x1000, kernel_phy_start = 0x2000,
       kernel_phy_end = 0x3000, kernel_end = 0, kernel_size = 0x1000, video_phy_start = 0, video_phy_end = 0\<rparr>"
       "[\<lparr>mm_addr = 0, mm_len = 0x20000, mm_type = 1\<rparr>]"]
  by (auto simp: available_def in_use_def region_ok_def frame_within_iff bitmap_words_def)

end
