(* ===== verification/Kheap.thy ===== *)
theory Kheap
  imports Prelude
begin

text \<open>
  The kernel heap of \<^verbatim>\<open>src/kernel/memory/kheap.c\<close>: a region that grows with \<^verbatim>\<open>ksbrk\<close>, cut into
  blocks with a header of 12 bytes. The first three words of the region are the head and the
  tail of the list of blocks and the head of the list of free blocks; they are fields of the
  record \<open>kheap\<close>, like the static variable \<^verbatim>\<open>kernel_heap_top\<close>. The headers are a function from
  addresses to \<^verbatim>\<open>block_t\<close>; using the header at the null pointer is \<open>None\<close>. The headers of the
  properties never overlap, so that writing one changes no other.

  Addresses and sizes are natural numbers below \<open>2^32\<close>, and the 32-bit arithmetic of the code is
  written out with \<open>wadd\<close> and \<open>wsub\<close>. The lowest bit of the field \<^verbatim>\<open>size\<close> says that the block is free.
\<close>

section \<open>Arithmetic of the target\<close>

definition wadd :: "nat \<Rightarrow> nat \<Rightarrow> nat" where
  "wadd a b = (a + b) mod 4294967296"

definition wsub :: "nat \<Rightarrow> nat \<Rightarrow> nat" where
  "wsub a b = (a + (4294967296 - b mod 4294967296)) mod 4294967296"

lemma wadd_exact [simp]: "a + b < 4294967296 \<Longrightarrow> wadd a b = a + b"
  by (simp add: wadd_def)

lemma wsub_exact [simp]: "b \<le> a \<Longrightarrow> a < 4294967296 \<Longrightarrow> wsub a b = a - b"
proof -
  assume "b \<le> a" "a < 4294967296"
  then have "a + (4294967296 - b mod 4294967296) = (a - b) + 4294967296" by simp
  then show ?thesis using \<open>a < 4294967296\<close> by (simp add: wsub_def)
qed

section \<open>Blocks\<close>

record block_t =
  b_size :: nat
  b_nextfree :: nat
  b_next :: nat

record kheap =
  vm_start :: nat
  vm_end :: nat
  heap_top :: nat
  h_head :: nat
  h_tail :: nat
  h_freelist :: nat
  h_blk :: "nat \<Rightarrow> block_t"
  h_pages :: "nat list"

definition OVERHEAD :: nat where
  "OVERHEAD = 12"

definition ADDR_ALIGN :: "nat \<Rightarrow> nat" where
  "ADDR_ALIGN a = wadd (a div 4096 * 4096) 4096"

definition IS_ALIGN :: "nat \<Rightarrow> bool" where
  "IS_ALIGN a \<longleftrightarrow> a mod 4096 = 0"

text \<open>\<^verbatim>\<open>CEIL(size, 16)\<close>: the sum wraps around before the low bits are cleared.\<close>

definition CEIL16 :: "nat \<Rightarrow> nat" where
  "CEIL16 n = wadd n 15 div 16 * 16"

definition ALIGN_UP_PAGE :: "nat \<Rightarrow> nat" where
  "ALIGN_UP_PAGE a = wadd a 4095 div 4096 * 4096"

text \<open>A header is used wherever the pointer points, unless it is null: the code does not compare it with the bounds of the heap.\<close>

definition get_blk :: "kheap \<Rightarrow> nat \<Rightarrow> block_t option" where
  "get_blk K b = (if b \<noteq> 0 then Some (h_blk K b) else None)"

definition upd_blk :: "kheap \<Rightarrow> nat \<Rightarrow> (block_t \<Rightarrow> block_t) \<Rightarrow> kheap option" where
  "upd_blk K b f =
     (if b \<noteq> 0 then Some (K\<lparr>h_blk := (h_blk K)(b := f (h_blk K b))\<rparr>) else None)"

definition block_get_real_size :: "nat \<Rightarrow> nat" where
  "block_get_real_size sz = sz div 2 * 2"

definition block_set_free :: "nat \<Rightarrow> bool \<Rightarrow> nat" where
  "block_set_free sz x = (if x then (if even sz then sz + 1 else sz) else sz div 2 * 2)"

definition block_is_free :: "kheap \<Rightarrow> nat \<Rightarrow> bool option" where
  "block_is_free K b = (if b = 0 then Some False else do { blk \<leftarrow> get_blk K b; Some (odd (b_size blk)) })"

definition block_is_fit :: "kheap \<Rightarrow> nat \<Rightarrow> nat \<Rightarrow> bool option" where
  "block_is_fit K b sz = do {
     c_assert (b \<noteq> 0);
     blk \<leftarrow> get_blk K b;
     fr \<leftarrow> block_is_free K b;
     Some (b_size blk \<ge> block_get_real_size sz \<and> fr)
   }"

partial_function (option) remove_prev :: "kheap \<Rightarrow> nat \<Rightarrow> nat \<Rightarrow> nat option" where
  "remove_prev K b prev =
     (if prev \<noteq> 0 then do {
        blk \<leftarrow> get_blk K prev;
        if b_nextfree blk \<noteq> b then remove_prev K b (b_nextfree blk) else Some prev
      }
      else Some 0)"

definition block_remove_from_freelist :: "kheap \<Rightarrow> nat \<Rightarrow> kheap option" where
  "block_remove_from_freelist K b = do {
     c_assert (b \<noteq> 0);
     let first_free_block = h_freelist K;
     c_assert (first_free_block \<noteq> 0);
     K \<leftarrow> (if b = first_free_block then do {
            blk \<leftarrow> get_blk K b;
            Some (K\<lparr>h_freelist := b_nextfree blk\<rparr>)
          }
          else do {
            prev \<leftarrow> remove_prev K b first_free_block;
            if prev \<noteq> 0 then do {
              blk \<leftarrow> get_blk K b;
              upd_blk K prev (\<lambda>p. p\<lparr>b_nextfree := b_nextfree blk\<rparr>)
            }
            else Some K
          });
     upd_blk K b (\<lambda>p. p\<lparr>b_nextfree := 0\<rparr>)
   }"

definition block_add_to_freelist :: "kheap \<Rightarrow> nat \<Rightarrow> kheap option" where
  "block_add_to_freelist K b = do {
     c_assert (b \<noteq> 0);
     K \<leftarrow> upd_blk K b (\<lambda>p. p\<lparr>b_nextfree := h_freelist K\<rparr>);
     Some (K\<lparr>h_freelist := b\<rparr>)
   }"

text \<open>The loop of \<^verbatim>\<open>block_find_best_fitting\<close>; \<open>best\<close> is 0 as long as no block fits.\<close>

partial_function (option) best_loop :: "kheap \<Rightarrow> nat \<Rightarrow> nat \<Rightarrow> nat \<Rightarrow> nat option" where
  "best_loop K sz current best =
     (if current \<noteq> 0 then do {
        fit \<leftarrow> block_is_fit K current sz;
        cur \<leftarrow> get_blk K current;
        better \<leftarrow> (if \<not> fit then Some False
                  else if best = 0 then Some True
                  else do { bb \<leftarrow> get_blk K best; Some (b_size cur < b_size bb) });
        best_loop K sz (b_nextfree cur) (if better then current else best)
      }
      else Some best)"

definition block_find_best_fitting :: "kheap \<Rightarrow> nat \<Rightarrow> nat option" where
  "block_find_best_fitting K sz =
     (if h_freelist K = 0 then Some 0 else best_loop K sz (h_freelist K) 0)"

text \<open>\<^verbatim>\<open>current + sizeof(block_t)\<close> is pointer arithmetic: it adds 12 headers, not 12 bytes.\<close>

partial_function (option) best_align_loop :: "kheap \<Rightarrow> nat \<Rightarrow> nat \<Rightarrow> nat \<Rightarrow> nat option" where
  "best_align_loop K sz current best =
     (if current \<noteq> 0 then do {
        fit \<leftarrow> block_is_fit K current sz;
        cur \<leftarrow> get_blk K current;
        better \<leftarrow> (if \<not> fit \<and> IS_ALIGN (wadd current 144) then Some False
                  else if best = 0 then Some True
                  else do { bb \<leftarrow> get_blk K best; Some (b_size cur < b_size bb) });
        best_align_loop K sz (b_nextfree cur) (if better then current else best)
      }
      else Some best)"

definition block_find_best_fitting_align :: "kheap \<Rightarrow> nat \<Rightarrow> nat option" where
  "block_find_best_fitting_align K sz =
     (if h_freelist K = 0 then Some 0 else best_align_loop K sz (h_freelist K) 0)"

partial_function (option) previous_loop :: "kheap \<Rightarrow> nat \<Rightarrow> nat \<Rightarrow> nat option" where
  "previous_loop K b prev = do {
     blk \<leftarrow> get_blk K prev;
     if b_next blk \<noteq> b then previous_loop K b (b_next blk) else Some prev
   }"

definition block_get_previous_block :: "kheap \<Rightarrow> nat \<Rightarrow> nat option" where
  "block_get_previous_block K b = do {
     c_assert (b \<noteq> 0);
     c_assert (h_head K \<noteq> 0);
     if b = h_head K then Some 0 else previous_loop K b (h_head K)
   }"

definition block_get_next_block :: "kheap \<Rightarrow> nat \<Rightarrow> nat option" where
  "block_get_next_block K b = do {
     c_assert (b \<noteq> 0);
     c_assert (h_tail K \<noteq> 0);
     if b = h_tail K then Some 0 else do { blk \<leftarrow> get_blk K b; Some (b_next blk) }
   }"

section \<open>Allocation and release\<close>

text \<open>
  \<open>inc\<close> is the bit pattern of the \<^verbatim>\<open>int\<close> argument: it is positive when it is below \<open>2^31\<close> and
  not 0. The result 0 is the null pointer. The pages that are mapped are recorded.
\<close>

definition do_brk :: "kheap \<Rightarrow> nat \<Rightarrow> nat \<times> kheap" where
  "do_brk K inc =
     (if 0 < inc \<and> inc < 2147483648 then
        (let new_boundary = wadd (heap_top K) inc in
         if new_boundary \<le> vm_end K then
           (let startAddr = ALIGN_UP_PAGE (heap_top K);
                endAddr = ALIGN_UP_PAGE (wadd (heap_top K) inc);
                pages = map (\<lambda>i. startAddr + 4096 * i) [0..<(endAddr - startAddr) div 4096] in
            (heap_top K, K\<lparr>h_pages := h_pages K @ pages, heap_top := new_boundary\<rparr>))
         else (0, K))
      else (0, K))"

definition ksbrk :: "kheap \<Rightarrow> nat \<Rightarrow> nat \<times> kheap" where
  "ksbrk K inc = do_brk K inc"

text \<open>The part of \<^verbatim>\<open>__do_malloc\<close> that splits the best fitting block.\<close>

definition malloc_split ::
  "kheap \<Rightarrow> nat \<Rightarrow> nat \<Rightarrow> nat \<Rightarrow> nat \<Rightarrow> nat \<Rightarrow> kheap option" where
  "malloc_split K base_ptr block_ptr stored_next_block remaining_size tail_block = do {
     nf \<leftarrow> block_is_free K stored_next_block;
     K \<leftarrow> (if nf then do {
            K \<leftarrow> block_remove_from_freelist K stored_next_block;
            n \<leftarrow> get_blk K stored_next_block;
            K \<leftarrow> upd_blk K block_ptr (\<lambda>t. t\<lparr>b_size :=
                   block_set_free (wadd remaining_size (block_get_real_size (b_size n))) True\<rparr>);
            nn \<leftarrow> block_get_next_block K stored_next_block;
            K \<leftarrow> upd_blk K block_ptr (\<lambda>t. t\<lparr>b_next := nn\<rparr>);
            let K = (if stored_next_block = tail_block then K\<lparr>h_tail := block_ptr\<rparr> else K);
            block_add_to_freelist K block_ptr
          }
          else do {
            K \<leftarrow> upd_blk K block_ptr (\<lambda>t. t\<lparr>b_size := block_set_free (wsub remaining_size OVERHEAD) True\<rparr>);
            K \<leftarrow> upd_blk K block_ptr (\<lambda>t. t\<lparr>b_next := stored_next_block\<rparr>);
            let K = (if base_ptr = tail_block then K\<lparr>h_tail := block_ptr\<rparr> else K);
            block_add_to_freelist K block_ptr
          });
     upd_blk K base_ptr (\<lambda>t. t\<lparr>b_next := block_ptr\<rparr>)
   }"

text \<open>The branch of \<^verbatim>\<open>__do_malloc\<close> that uses a free block.\<close>

definition malloc_reuse :: "kheap \<Rightarrow> nat \<Rightarrow> nat \<Rightarrow> (nat \<times> kheap) option" where
  "malloc_reuse K best_fitting block_size = do {
     let tail_block = h_tail K;
     stored_next_block \<leftarrow> block_get_next_block K best_fitting;
     b \<leftarrow> get_blk K best_fitting;
     let chunk_size = wadd (block_get_real_size (b_size b)) OVERHEAD;
     let remaining_size = wsub chunk_size block_size;
     let real_size = (if remaining_size < 8 + OVERHEAD then chunk_size else block_size);
     K \<leftarrow> upd_blk K best_fitting (\<lambda>t. t\<lparr>b_size := block_set_free (wsub real_size OVERHEAD) False\<rparr>);
     let block_ptr = wadd best_fitting real_size;
     K \<leftarrow> (if remaining_size < 8 + OVERHEAD then Some K
          else malloc_split K best_fitting block_ptr stored_next_block remaining_size tail_block);
     K \<leftarrow> block_remove_from_freelist K best_fitting;
     Some (wadd best_fitting OVERHEAD, K)
   }"

text \<open>The branch of \<^verbatim>\<open>__do_malloc\<close> that extends the heap.\<close>

definition malloc_extend :: "kheap \<Rightarrow> nat \<Rightarrow> (nat \<times> kheap) option" where
  "malloc_extend K block_size = do {
     let head_block = h_head K;
     let tail_block = h_tail K;
     let (ret, K) = ksbrk K block_size;
     c_assert (ret \<noteq> 0);
     K \<leftarrow> (if head_block = 0 then Some (K\<lparr>h_head := ret\<rparr>)
          else upd_blk K tail_block (\<lambda>t. t\<lparr>b_next := ret\<rparr>));
     K \<leftarrow> upd_blk K ret (\<lambda>t. t\<lparr>b_next := 0\<rparr>);
     K \<leftarrow> upd_blk K ret (\<lambda>t. t\<lparr>b_nextfree := 0\<rparr>);
     let K = K\<lparr>h_tail := ret\<rparr>;
     K \<leftarrow> upd_blk K ret (\<lambda>t. t\<lparr>b_size := block_set_free (wsub block_size OVERHEAD) False\<rparr>);
     Some (wadd ret OVERHEAD, K)
   }"

definition do_malloc :: "kheap \<Rightarrow> nat \<Rightarrow> (nat \<times> kheap) option" where
  "do_malloc K sz =
     (if sz = 0 then Some (0, K)
      else do {
        let rounded_size = CEIL16 sz;
        let block_size = wadd rounded_size OVERHEAD;
        best_fitting \<leftarrow> block_find_best_fitting K rounded_size;
        if best_fitting \<noteq> 0 then malloc_reuse K best_fitting block_size
        else malloc_extend K block_size
      })"

definition do_malloc_align :: "kheap \<Rightarrow> nat \<Rightarrow> (nat \<times> kheap) option" where
  "do_malloc_align K sz =
     (if sz = 0 then Some (0, K)
      else do {
        let head_block = h_head K;
        let tail_block = h_tail K;
        let rounded_size = CEIL16 sz;
        let block_size = wadd rounded_size OVERHEAD;
        best_fitting \<leftarrow> block_find_best_fitting_align K rounded_size;
        if best_fitting \<noteq> 0 \<and> IS_ALIGN (wadd best_fitting 144) then malloc_reuse K best_fitting block_size
        else do {
          let needed_addr = ADDR_ALIGN (wadd (heap_top K) 12 div 4096 * 4096);
          let block_addr = wsub needed_addr 12;
          let realsize = wadd (wadd (wsub block_addr (heap_top K)) OVERHEAD) rounded_size;
          let (ret, K) = ksbrk K realsize;
          c_assert (ret \<noteq> 0);
          K \<leftarrow> (if head_block = 0 then Some (K\<lparr>h_head := block_addr\<rparr>)
               else upd_blk K tail_block (\<lambda>t. t\<lparr>b_next := block_addr\<rparr>));
          K \<leftarrow> upd_blk K ret (\<lambda>t. t\<lparr>b_next := 0\<rparr>);
          K \<leftarrow> upd_blk K ret (\<lambda>t. t\<lparr>b_nextfree := 0\<rparr>);
          let K = K\<lparr>h_tail := block_addr\<rparr>;
          K \<leftarrow> upd_blk K block_addr (\<lambda>t. t\<lparr>b_size := block_set_free rounded_size False\<rparr>);
          Some (needed_addr, K)
        }
      })"

text \<open>\<^verbatim>\<open>__do_realloc\<close> returns at its first statement.\<close>

definition do_realloc :: "kheap \<Rightarrow> nat \<Rightarrow> nat \<Rightarrow> nat \<times> kheap" where
  "do_realloc K p sz = (0, K)"

definition do_free :: "kheap \<Rightarrow> nat \<Rightarrow> kheap option" where
  "do_free K p = do {
     c_assert (p \<noteq> 0);
     let tail_block = h_tail K;
     let curr = wsub p 12;
     prev \<leftarrow> block_get_previous_block K curr;
     nxt \<leftarrow> block_get_next_block K curr;
     pf \<leftarrow> block_is_free K prev;
     nf \<leftarrow> (if pf then block_is_free K nxt else Some False);
     if pf \<and> nf then do {
       pb \<leftarrow> get_blk K prev;
       cb \<leftarrow> get_blk K curr;
       nb \<leftarrow> get_blk K nxt;
       let sz = wadd (wadd (wadd (block_get_real_size (b_size pb)) (2 * OVERHEAD))
                  (block_get_real_size (b_size cb))) (block_get_real_size (b_size nb));
       K \<leftarrow> upd_blk K prev (\<lambda>t. t\<lparr>b_size := block_set_free sz True\<rparr>);
       nn \<leftarrow> block_get_next_block K nxt;
       K \<leftarrow> upd_blk K prev (\<lambda>t. t\<lparr>b_next := nn\<rparr>);
       let K = (if tail_block = nxt then K\<lparr>h_tail := prev\<rparr> else K);
       block_remove_from_freelist K nxt
     }
     else if pf then do {
       pb \<leftarrow> get_blk K prev;
       cb \<leftarrow> get_blk K curr;
       let sz = wadd (wadd (block_get_real_size (b_size pb)) OVERHEAD) (block_get_real_size (b_size cb));
       K \<leftarrow> upd_blk K prev (\<lambda>t. t\<lparr>b_size := block_set_free sz True\<rparr>);
       K \<leftarrow> upd_blk K prev (\<lambda>t. t\<lparr>b_next := nxt\<rparr>);
       Some (if tail_block = curr then K\<lparr>h_tail := prev\<rparr> else K)
     }
     else do {
       nf \<leftarrow> block_is_free K nxt;
       if nf then do {
         cb \<leftarrow> get_blk K curr;
         nb \<leftarrow> get_blk K nxt;
         let sz = wadd (wadd (block_get_real_size (b_size cb)) OVERHEAD) (block_get_real_size (b_size nb));
         K \<leftarrow> upd_blk K curr (\<lambda>t. t\<lparr>b_size := block_set_free sz True\<rparr>);
         nn \<leftarrow> block_get_next_block K nxt;
         K \<leftarrow> upd_blk K curr (\<lambda>t. t\<lparr>b_next := nn\<rparr>);
         let K = (if tail_block = nxt then K\<lparr>h_tail := curr\<rparr> else K);
         K \<leftarrow> block_remove_from_freelist K nxt;
         block_add_to_freelist K curr
       }
       else do {
         cb \<leftarrow> get_blk K curr;
         K \<leftarrow> upd_blk K curr (\<lambda>t. t\<lparr>b_size := block_set_free (b_size t) True\<rparr>);
         block_add_to_freelist K curr
       }
     }
   }"

definition kmalloc :: "kheap \<Rightarrow> nat \<Rightarrow> (nat \<times> kheap) option" where
  "kmalloc K sz = do_malloc K sz"

definition kmalloc_align :: "kheap \<Rightarrow> nat \<Rightarrow> (nat \<times> kheap) option" where
  "kmalloc_align K sz = do_malloc_align K sz"

text \<open>\<^verbatim>\<open>kcalloc\<close> also clears the memory it returns, which holds no header.\<close>

definition kcalloc :: "kheap \<Rightarrow> nat \<Rightarrow> nat \<Rightarrow> (nat \<times> kheap) option" where
  "kcalloc K num sz = kmalloc K (num * sz mod 4294967296)"

definition krealloc :: "kheap \<Rightarrow> nat \<Rightarrow> nat \<Rightarrow> nat \<times> kheap" where
  "krealloc K p sz = do_realloc K p sz"

definition kfree :: "kheap \<Rightarrow> nat \<Rightarrow> kheap option" where
  "kfree K p = do_free K p"

text \<open>The three control words are cleared; the page of the start of the heap is mapped.\<close>

definition kheap_init :: "kheap \<Rightarrow> nat \<Rightarrow> nat \<Rightarrow> kheap" where
  "kheap_init K heap_start heap_end =
     K\<lparr>vm_start := heap_start, vm_end := heap_end, heap_top := wadd heap_start 12,
       h_head := 0, h_tail := 0, h_freelist := 0, h_pages := h_pages K @ [heap_start]\<rparr>"

end
