(* ===== verification/Kheap_Inv.thy ===== *)
theory Kheap_Inv
  imports Kheap
begin

text \<open>
  The invariant of the kernel heap and how \<^verbatim>\<open>__do_malloc\<close> of \<^verbatim>\<open>kheap.c\<close> keeps it. The heap is described
  by the list \<open>bs\<close> of its blocks, each with its size and whether it is free, in the order of their
  addresses, and by the list \<open>fl\<close> of the addresses on the list of free blocks.
\<close>

section \<open>The three fields of the headers\<close>

definition sizes :: "kheap \<Rightarrow> nat \<Rightarrow> nat" where
  "sizes K b = b_size (h_blk K b)"

definition nfrees :: "kheap \<Rightarrow> nat \<Rightarrow> nat" where
  "nfrees K b = b_nextfree (h_blk K b)"

definition nexts :: "kheap \<Rightarrow> nat \<Rightarrow> nat" where
  "nexts K b = b_next (h_blk K b)"

definition set_size :: "kheap \<Rightarrow> nat \<Rightarrow> nat \<Rightarrow> kheap" where
  "set_size K b v = K\<lparr>h_blk := (h_blk K)(b := (h_blk K b)\<lparr>b_size := v\<rparr>)\<rparr>"

definition set_nfree :: "kheap \<Rightarrow> nat \<Rightarrow> nat \<Rightarrow> kheap" where
  "set_nfree K b v = K\<lparr>h_blk := (h_blk K)(b := (h_blk K b)\<lparr>b_nextfree := v\<rparr>)\<rparr>"

definition set_bnext :: "kheap \<Rightarrow> nat \<Rightarrow> nat \<Rightarrow> kheap" where
  "set_bnext K b v = K\<lparr>h_blk := (h_blk K)(b := (h_blk K b)\<lparr>b_next := v\<rparr>)\<rparr>"

lemma upd_blk_size: "upd_blk K b (\<lambda>t. t\<lparr>b_size := v\<rparr>) = (if b \<noteq> 0 then Some (set_size K b v) else None)"
  by (simp add: upd_blk_def set_size_def)

lemma upd_blk_size_self: "upd_blk K b (\<lambda>t. t\<lparr>b_size := block_set_free (b_size t) x\<rparr>)
    = (if b \<noteq> 0 then Some (set_size K b (block_set_free (sizes K b) x)) else None)"
  by (simp add: upd_blk_def set_size_def sizes_def)

lemma upd_blk_nfree: "upd_blk K b (\<lambda>t. t\<lparr>b_nextfree := v\<rparr>) = (if b \<noteq> 0 then Some (set_nfree K b v) else None)"
  by (simp add: upd_blk_def set_nfree_def)

lemma upd_blk_bnext: "upd_blk K b (\<lambda>t. t\<lparr>b_next := v\<rparr>) = (if b \<noteq> 0 then Some (set_bnext K b v) else None)"
  by (simp add: upd_blk_def set_bnext_def)

lemma get_blk_bind: "(get_blk K b \<bind> g) = (if b \<noteq> 0 then g (h_blk K b) else None)"
  by (simp add: get_blk_def)

lemmas blk_access = upd_blk_size upd_blk_size_self upd_blk_nfree upd_blk_bnext get_blk_bind

lemma fields_fold [simp]:
  "b_size (h_blk K b) = sizes K b" "b_nextfree (h_blk K b) = nfrees K b" "b_next (h_blk K b) = nexts K b"
  by (simp_all add: sizes_def nfrees_def nexts_def)

lemma field_updates [simp]:
  "sizes (set_size K b v) = (sizes K)(b := v)" "nfrees (set_size K b v) = nfrees K"
  "nexts (set_size K b v) = nexts K" "sizes (set_nfree K b v) = sizes K"
  "nfrees (set_nfree K b v) = (nfrees K)(b := v)" "nexts (set_nfree K b v) = nexts K"
  "sizes (set_bnext K b v) = sizes K" "nfrees (set_bnext K b v) = nfrees K"
  "nexts (set_bnext K b v) = (nexts K)(b := v)"
  by (auto simp: sizes_def nfrees_def nexts_def set_size_def set_nfree_def set_bnext_def fun_eq_iff
      simp del: fields_fold)

lemma control_updates [simp]:
  "vm_start (set_size K b v) = vm_start K" "vm_end (set_size K b v) = vm_end K"
  "heap_top (set_size K b v) = heap_top K" "h_head (set_size K b v) = h_head K"
  "h_tail (set_size K b v) = h_tail K" "h_freelist (set_size K b v) = h_freelist K"
  "h_pages (set_size K b v) = h_pages K"
  "vm_start (set_nfree K b v) = vm_start K" "vm_end (set_nfree K b v) = vm_end K"
  "heap_top (set_nfree K b v) = heap_top K" "h_head (set_nfree K b v) = h_head K"
  "h_tail (set_nfree K b v) = h_tail K" "h_freelist (set_nfree K b v) = h_freelist K"
  "h_pages (set_nfree K b v) = h_pages K"
  "vm_start (set_bnext K b v) = vm_start K" "vm_end (set_bnext K b v) = vm_end K"
  "heap_top (set_bnext K b v) = heap_top K" "h_head (set_bnext K b v) = h_head K"
  "h_tail (set_bnext K b v) = h_tail K" "h_freelist (set_bnext K b v) = h_freelist K"
  "h_pages (set_bnext K b v) = h_pages K"
  by (simp_all add: set_size_def set_nfree_def set_bnext_def)

lemma fields_control [simp]:
  "sizes (K\<lparr>h_head := x\<rparr>) = sizes K" "nfrees (K\<lparr>h_head := x\<rparr>) = nfrees K" "nexts (K\<lparr>h_head := x\<rparr>) = nexts K"
  "sizes (K\<lparr>h_tail := x\<rparr>) = sizes K" "nfrees (K\<lparr>h_tail := x\<rparr>) = nfrees K" "nexts (K\<lparr>h_tail := x\<rparr>) = nexts K"
  "sizes (K\<lparr>h_freelist := x\<rparr>) = sizes K" "nfrees (K\<lparr>h_freelist := x\<rparr>) = nfrees K"
  "nexts (K\<lparr>h_freelist := x\<rparr>) = nexts K"
  "sizes (K\<lparr>h_pages := ps, heap_top := x\<rparr>) = sizes K" "nfrees (K\<lparr>h_pages := ps, heap_top := x\<rparr>) = nfrees K"
  "nexts (K\<lparr>h_pages := ps, heap_top := x\<rparr>) = nexts K"
  by (auto simp: sizes_def nfrees_def nexts_def fun_eq_iff simp del: fields_fold)

section \<open>Blocks laid out one after the other\<close>

type_synonym blocks = "(nat \<times> bool) list"

fun addrs :: "nat \<Rightarrow> blocks \<Rightarrow> nat list" where
  "addrs a [] = []"
| "addrs a ((sz, f) # bs) = a # addrs (a + 12 + sz) bs"

fun bend :: "nat \<Rightarrow> blocks \<Rightarrow> nat" where
  "bend a [] = a"
| "bend a ((sz, f) # bs) = bend (a + 12 + sz) bs"

fun frees :: "nat \<Rightarrow> blocks \<Rightarrow> nat list" where
  "frees a [] = []"
| "frees a ((sz, f) # bs) = (if f then [a] else []) @ frees (a + 12 + sz) bs"

text \<open>The size fields describe the blocks; the size proper is even.\<close>

fun sized :: "(nat \<Rightarrow> nat) \<Rightarrow> nat \<Rightarrow> blocks \<Rightarrow> bool" where
  "sized S a [] = True"
| "sized S a ((sz, f) # bs) = (S a = sz + of_bool f \<and> even sz \<and> sized S (a + 12 + sz) bs)"

definition linked :: "(nat \<Rightarrow> nat) \<Rightarrow> nat list \<Rightarrow> bool" where
  "linked N xs = successively (\<lambda>x y. N x = y) xs"

definition no_adjacent_free :: "blocks \<Rightarrow> bool" where
  "no_adjacent_free bs = successively (\<lambda>(_, f) (_, g). \<not> (f \<and> g)) bs"

text \<open>The chain of free blocks from \<open>p\<close> to the block \<open>q\<close>.\<close>

fun fseg :: "(nat \<Rightarrow> nat) \<Rightarrow> nat \<Rightarrow> nat list \<Rightarrow> nat \<Rightarrow> bool" where
  "fseg F p [] q = (p = q)"
| "fseg F p (x # xs) q = (p = x \<and> x \<noteq> 0 \<and> fseg F (F x) xs q)"

lemma addrs_append [simp]: "addrs a (xs @ ys) = addrs a xs @ addrs (bend a xs) ys"
  by (induction a xs rule: addrs.induct) auto

lemma bend_append [simp]: "bend a (xs @ ys) = bend (bend a xs) ys"
  by (induction a xs rule: bend.induct) auto

lemma frees_append [simp]: "frees a (xs @ ys) = frees a xs @ frees (bend a xs) ys"
  by (induction a xs rule: frees.induct) auto

lemma sized_append [simp]: "sized S a (xs @ ys) \<longleftrightarrow> sized S a xs \<and> sized S (bend a xs) ys"
  by (induction S a xs rule: sized.induct) auto

lemma bend_ge: "a \<le> bend a bs"
  by (induction a bs rule: bend.induct) auto

lemma addrs_range: "x \<in> set (addrs a bs) \<Longrightarrow> a \<le> x \<and> x + 12 \<le> bend a bs"
proof (induction a bs rule: addrs.induct)
  case (2 a sz f bs)
  then show ?case using bend_ge [of "a + 12 + sz" bs] by auto
qed simp

lemma frees_subset: "set (frees a bs) \<subseteq> set (addrs a bs)"
  by (induction a bs rule: frees.induct) auto

lemma addrs_distinct: "distinct (addrs a bs)"
proof (induction a bs rule: addrs.induct)
  case (2 a sz f bs)
  then show ?case using addrs_range [of a "a + 12 + sz" bs] by auto
qed simp

lemma addrs_eq_Nil [simp]: "addrs a bs = [] \<longleftrightarrow> bs = []"
  by (cases bs) auto

lemma hd_addrs: "bs \<noteq> [] \<Longrightarrow> hd (addrs a bs) = a"
  by (cases bs) auto

lemma sized_cong: "(\<And>x. x \<in> set (addrs a bs) \<Longrightarrow> S' x = S x) \<Longrightarrow> sized S' a bs = sized S a bs"
  by (induction S a bs rule: sized.induct) auto

lemma sized_upd [simp]: "x \<notin> set (addrs a bs) \<Longrightarrow> sized (S(x := v)) a bs = sized S a bs"
  by (rule sized_cong) auto

lemma sized_free: "sized S a bs \<Longrightarrow> x \<in> set (frees a bs) \<Longrightarrow> odd (S x)"
  by (induction S a bs rule: sized.induct) (auto split: if_splits)

lemma linked_append: "linked N (xs @ ys) \<longleftrightarrow> linked N xs \<and> linked N ys
    \<and> (xs = [] \<or> ys = [] \<or> N (last xs) = hd ys)"
  by (auto simp: linked_def successively_append_iff)

lemma linked_Nil [simp]: "linked N []"
  by (simp add: linked_def)

lemma linked_Cons: "linked N (x # xs) \<longleftrightarrow> (xs = [] \<or> N x = hd xs) \<and> linked N xs"
  by (cases xs) (auto simp: linked_def)

lemma linked_cong:
  "(\<And>x. x \<in> set (butlast xs) \<Longrightarrow> N' x = N x) \<Longrightarrow> linked N' xs = linked N xs"
proof (induction xs)
  case (Cons x xs)
  then show ?case by (cases xs) (auto simp: linked_def)
qed (simp add: linked_def)

lemma linked_upd: "x \<notin> set (butlast xs) \<Longrightarrow> linked (N(x := v)) xs = linked N xs"
  by (rule linked_cong) auto

lemma frees_split:
  "x \<in> set (frees a bs) \<Longrightarrow> \<exists>xs sz ys. bs = xs @ (sz, True) # ys \<and> x = bend a xs"
proof (induction a bs rule: frees.induct)
  case (2 a sz f bs)
  show ?case
  proof (cases "f \<and> x = a")
    case True
    then show ?thesis by (intro exI [of _ "[]"]) auto
  next
    case False
    then obtain xs s ys where "bs = xs @ (s, True) # ys" "x = bend (a + 12 + sz) xs"
      using 2 by (auto split: if_splits)
    then show ?thesis by (intro exI [of _ "(sz, f) # xs"]) auto
  qed
qed simp

lemma fseg_append: "fseg F p (xs @ ys) q \<longleftrightarrow> (\<exists>m. fseg F p xs m \<and> fseg F m ys q)"
  by (induction xs arbitrary: p) auto

lemma fseg_upd [simp]: "x \<notin> set xs \<Longrightarrow> fseg (F(x := v)) p xs q = fseg F p xs q"
  by (induction xs arbitrary: p) auto

section \<open>The list of free blocks\<close>

lemma remove_prev_ok:
  assumes "fseg (nfrees K) p (xs @ y # x # ys) 0" and "distinct (xs @ y # x # ys)"
    and "\<forall>z \<in> set (xs @ y # x # ys). z \<noteq> 0"
  shows "remove_prev K x p = Some y"
  using assms
proof (induction xs arbitrary: p)
  case Nil
  then show ?case by (subst remove_prev.simps) (simp add: get_blk_bind)
next
  case (Cons z xs)
  have nz: "nfrees K z \<noteq> x" using Cons.prems(1,2) by (cases xs) auto
  have IH: "remove_prev K x (nfrees K z) = Some y" using Cons by auto
  show ?case using Cons.prems(1,3) nz IH by (subst remove_prev.simps) (simp add: get_blk_bind)
qed

text \<open>What stays the same when only the list of free blocks changes.\<close>

definition same_layout :: "kheap \<Rightarrow> kheap \<Rightarrow> bool" where
  "same_layout K K' \<longleftrightarrow> vm_start K' = vm_start K \<and> vm_end K' = vm_end K \<and> heap_top K' = heap_top K
     \<and> h_head K' = h_head K \<and> h_tail K' = h_tail K \<and> h_pages K' = h_pages K
     \<and> sizes K' = sizes K \<and> nexts K' = nexts K"

lemma block_remove_from_freelist_ok:
  assumes "fseg (nfrees K) (h_freelist K) (xs @ x # ys) 0" and "distinct (xs @ x # ys)"
    and "\<forall>z \<in> set (xs @ x # ys). z \<noteq> 0"
  shows "\<exists>K'. block_remove_from_freelist K x = Some K' \<and> same_layout K K'
    \<and> fseg (nfrees K') (h_freelist K') (xs @ ys) 0"
proof (cases xs rule: rev_cases)
  case Nil
  let ?K = "set_nfree (K\<lparr>h_freelist := nfrees K x\<rparr>) x 0"
  have "block_remove_from_freelist K x = Some ?K"
    using assms Nil by (simp add: block_remove_from_freelist_def blk_access)
  moreover have "fseg (nfrees ?K) (h_freelist ?K) ys 0" using assms(1,2) Nil by simp
  ultimately show ?thesis using Nil by (simp add: same_layout_def)
next
  case (snoc zs y)
  let ?K = "set_nfree (set_nfree K y (nfrees K x)) x 0"
  obtain m where m: "fseg (nfrees K) (h_freelist K) zs m" "m = y" "y \<noteq> 0" "nfrees K y = x" "x \<noteq> 0"
    "fseg (nfrees K) (nfrees K x) ys 0"
    using assms(1) snoc by (auto simp: fseg_append)
  have ne: "h_freelist K \<noteq> x" using m(1,2) assms(2) snoc by (cases zs) auto
  have h0: "h_freelist K \<noteq> 0" using m(1,2,3) by (cases zs) auto
  have "remove_prev K x (h_freelist K) = Some y"
    using remove_prev_ok [of K "h_freelist K" zs y x ys] assms snoc by simp
  moreover have "0 < x" "0 < y" using assms(3) snoc by auto
  ultimately have "block_remove_from_freelist K x = Some ?K"
    using ne h0 by (simp add: block_remove_from_freelist_def blk_access)
  moreover have "fseg (nfrees ?K) (h_freelist ?K) (zs @ y # ys) 0"
    using m assms(2) snoc by (auto simp: fseg_append)
  ultimately show ?thesis using snoc by (simp add: same_layout_def)
qed

lemma block_add_to_freelist_ok:
  assumes "fseg (nfrees K) (h_freelist K) xs 0" and "x \<notin> set xs" and "x \<noteq> 0"
  shows "\<exists>K'. block_add_to_freelist K x = Some K' \<and> same_layout K K'
    \<and> fseg (nfrees K') (h_freelist K') (x # xs) 0"
  using assms by (simp add: block_add_to_freelist_def blk_access same_layout_def)

text \<open>The best fit: the smallest of the free blocks that are large enough.\<close>

lemma best_loop_ok:
  assumes "fseg (nfrees K) p fl 0" and "\<forall>z \<in> set fl. z \<noteq> 0 \<and> odd (sizes K z)"
  shows "\<exists>r. best_loop K n p best = Some r
    \<and> (r = best \<or> r \<in> set fl \<and> block_get_real_size n \<le> sizes K r)
    \<and> (\<forall>z \<in> set fl. block_get_real_size n \<le> sizes K z \<longrightarrow> r \<noteq> 0 \<and> sizes K r \<le> sizes K z)
    \<and> (best \<noteq> 0 \<longrightarrow> r \<noteq> 0 \<and> sizes K r \<le> sizes K best)"
  using assms
proof (induction fl arbitrary: p best)
  case Nil
  then show ?case by (subst best_loop.simps) simp
next
  case (Cons z fl)
  have z: "p = z" "z \<noteq> 0" "odd (sizes K z)" using Cons.prems by auto
  let ?fit = "block_get_real_size n \<le> sizes K z"
  let ?best = "if ?fit \<and> (best = 0 \<or> sizes K z < sizes K best) then z else best"
  have fit: "block_is_fit K z n = Some ?fit"
    using z by (simp add: block_is_fit_def block_is_free_def get_blk_bind)
  have g: "get_blk K z = Some (h_blk K z)" "best \<noteq> 0 \<Longrightarrow> get_blk K best = Some (h_blk K best)"
    using z by (auto simp: get_blk_def)
  have step: "best_loop K n p best = best_loop K n (nfrees K z) ?best"
    using z(1,2) g by (subst best_loop.simps, cases "best = 0") (simp_all add: fit)
  have fl: "fseg (nfrees K) (nfrees K z) fl 0" and ok: "\<forall>z \<in> set fl. z \<noteq> 0 \<and> odd (sizes K z)"
    using Cons.prems z by auto
  obtain r where r: "best_loop K n (nfrees K z) ?best = Some r"
    and r1: "r = ?best \<or> r \<in> set fl \<and> block_get_real_size n \<le> sizes K r"
    and r2: "\<forall>z \<in> set fl. block_get_real_size n \<le> sizes K z \<longrightarrow> r \<noteq> 0 \<and> sizes K r \<le> sizes K z"
    and r3: "?best \<noteq> 0 \<longrightarrow> r \<noteq> 0 \<and> sizes K r \<le> sizes K ?best"
    using Cons.IH [OF fl ok] by blast
  show ?case
  proof (cases "?fit \<and> (best = 0 \<or> sizes K z < sizes K best)")
    case True
    then have b: "?best = z" by simp
    have rz: "r \<noteq> 0" "sizes K r \<le> sizes K z" using r3 z(2) unfolding b by simp_all
    show ?thesis
      unfolding step r using True rz r1 r2 unfolding b by (intro exI [of _ r]) auto
  next
    case False
    then have b: "?best = best" by (rule if_not_P)
    have "?fit \<longrightarrow> r \<noteq> 0 \<and> sizes K r \<le> sizes K z" using False r3 unfolding b by auto
    then show ?thesis
      unfolding step r using r1 r2 r3 unfolding b by (intro exI [of _ r]) auto
  qed
qed

lemma block_find_best_fitting_ok:
  assumes "fseg (nfrees K) (h_freelist K) fl 0" and "\<forall>z \<in> set fl. z \<noteq> 0 \<and> odd (sizes K z)"
  shows "\<exists>r. block_find_best_fitting K n = Some r
    \<and> (r = 0 \<or> r \<in> set fl \<and> block_get_real_size n \<le> sizes K r)
    \<and> (\<forall>z \<in> set fl. block_get_real_size n \<le> sizes K z \<longrightarrow> r \<noteq> 0 \<and> sizes K r \<le> sizes K z)"
proof (cases "h_freelist K = 0")
  case True
  then have "fl = []" using assms(1) by (cases fl) auto
  then show ?thesis using True by (simp add: block_find_best_fitting_def)
next
  case False
  then show ?thesis
    using best_loop_ok [OF assms, of n 0] by (simp add: block_find_best_fitting_def)
qed

section \<open>Neighbours in the list of blocks\<close>

lemma previous_loop_ok:
  assumes "linked (nexts K) (xs @ y # x # ys)" and "distinct (xs @ y # x # ys)"
    and "\<forall>z \<in> set (xs @ [y]). z \<noteq> 0"
  shows "previous_loop K x (hd (xs @ [y])) = Some y"
  using assms
proof (induction xs)
  case Nil
  then show ?case by (subst previous_loop.simps) (simp add: get_blk_bind linked_Cons)
next
  case (Cons z xs)
  have nz: "nexts K z = hd (xs @ [y])" "nexts K z \<noteq> x"
    using Cons.prems(1,2) by (cases xs; auto simp: linked_Cons)+
  have "previous_loop K x (hd (xs @ [y])) = Some y" using Cons by (auto simp: linked_Cons)
  then show ?case using nz Cons.prems(3) by (subst previous_loop.simps) (simp add: get_blk_bind)
qed

section \<open>The invariant\<close>

definition hinv :: "kheap \<Rightarrow> blocks \<Rightarrow> nat list \<Rightarrow> bool" where
  "hinv K bs fl \<longleftrightarrow> 0 < vm_start K \<and> vm_end K < 4294967296 \<and> heap_top K \<le> vm_end K
     \<and> heap_top K = bend (vm_start K + 12) bs
     \<and> sized (sizes K) (vm_start K + 12) bs \<and> linked (nexts K) (addrs (vm_start K + 12) bs)
     \<and> h_head K = (if bs = [] then 0 else vm_start K + 12)
     \<and> h_tail K = (if bs = [] then 0 else last (addrs (vm_start K + 12) bs))
     \<and> no_adjacent_free bs
     \<and> fseg (nfrees K) (h_freelist K) fl 0 \<and> distinct fl
     \<and> set fl = set (frees (vm_start K + 12) bs)"

lemma hinv_nonnull: "hinv K bs fl \<Longrightarrow> x \<in> set (addrs (vm_start K + 12) bs) \<Longrightarrow> x \<noteq> 0"
  using addrs_range [of x "vm_start K + 12" bs] by (simp add: hinv_def)

lemma hinv_free_ok:
  "hinv K bs fl \<Longrightarrow> x \<in> set fl \<Longrightarrow> x \<noteq> 0 \<and> odd (sizes K x)"
  using hinv_nonnull [of K bs fl x] frees_subset [of "vm_start K + 12" bs]
    sized_free [of "sizes K" "vm_start K + 12" bs x]
  by (auto simp: hinv_def)

text \<open>A block in the middle of the layout.\<close>

lemma hinv_middle:
  assumes "hinv K (xs @ (n, f) # ys) fl"
  defines "a \<equiv> bend (vm_start K + 12) xs"
  shows "a \<noteq> 0" and "sizes K a = n + of_bool f" and "even n" and "a + 12 + n \<le> heap_top K"
    and "block_get_next_block K a = Some (if ys = [] then 0 else a + 12 + n)"
    and "block_get_previous_block K a
      = Some (if xs = [] then 0 else last (addrs (vm_start K + 12) xs))"
proof -
  let ?s = "vm_start K + 12"
  show ok: "a \<noteq> 0" using hinv_nonnull [OF assms(1)] by (auto simp: a_def)
  show sz: "sizes K a = n + of_bool f" "even n" using assms by (auto simp: hinv_def)
  show top: "a + 12 + n \<le> heap_top K"
    using assms bend_ge [of "a + 12 + n" ys] by (auto simp: hinv_def)
  have dist: "distinct (addrs ?s (xs @ (n, f) # ys))" by (rule addrs_distinct)
  have tail: "h_tail K = last (a # addrs (a + 12 + n) ys)" "h_head K = ?s"
    using assms by (auto simp: hinv_def)
  have lk: "linked (nexts K) (addrs ?s xs @ a # addrs (a + 12 + n) ys)"
    using assms by (auto simp: hinv_def)
  have t0: "h_tail K \<noteq> 0"
    using tail hinv_nonnull [OF assms(1), of "h_tail K"] by (auto simp: a_def)
  show "block_get_next_block K a = Some (if ys = [] then 0 else a + 12 + n)"
  proof (cases "ys = []")
    case True
    then show ?thesis using tail ok t0 by (simp add: block_get_next_block_def)
  next
    case False
    then have "last (addrs (a + 12 + n) ys) \<in> set (addrs (a + 12 + n) ys)" by (intro last_in_set) simp
    moreover have "a \<notin> set (addrs (a + 12 + n) ys)" using dist by (simp add: a_def)
    moreover have "h_tail K = last (addrs (a + 12 + n) ys)" using tail(1) False by simp
    ultimately have "a \<noteq> h_tail K" by metis
    moreover have "nexts K a = a + 12 + n"
      using lk False by (auto simp: linked_append linked_Cons hd_addrs)
    ultimately show ?thesis using ok t0 False by (simp add: block_get_next_block_def get_blk_bind)
  qed
  show "block_get_previous_block K a = Some (if xs = [] then 0 else last (addrs ?s xs))"
  proof (cases "xs = []")
    case True
    then show ?thesis using tail ok by (simp add: block_get_previous_block_def a_def)
  next
    case False
    obtain zs y where zs: "addrs ?s xs = zs @ [y]" using False by (metis addrs_eq_Nil rev_exhaust)
    have "hd (zs @ [y]) = ?s" using hd_addrs [OF False, of ?s] zs by simp
    moreover have "a \<noteq> ?s"
      using dist False hd_addrs [OF False, of ?s] hd_in_set [of "addrs ?s xs"] by (simp add: a_def) metis
    moreover have "previous_loop K a (hd (zs @ [y])) = Some y"
      using lk dist hinv_nonnull [OF assms(1)] zs by (intro previous_loop_ok) (auto simp: a_def)
    ultimately show ?thesis
      using ok tail(2) False zs by (simp add: block_get_previous_block_def)
  qed
qed

lemma hinv_tail_iff:
  assumes h: "hinv K (xs @ (n, f) # ys) fl"
  shows "h_tail K = bend (vm_start K + 12) xs \<longleftrightarrow> ys = []"
proof (cases "ys = []")
  case False
  let ?a = "bend (vm_start K + 12) xs"
  have "h_tail K \<in> set (addrs (?a + 12 + n) ys)"
    using h False last_in_set [of "addrs (?a + 12 + n) ys"] by (simp add: hinv_def)
  moreover have "?a \<notin> set (addrs (?a + 12 + n) ys)" using addrs_range [of ?a "?a + 12 + n" ys] by auto
  ultimately show ?thesis using False by metis
qed (use h in \<open>simp add: hinv_def\<close>)

section \<open>Allocation from a free block\<close>

lemma real_size [simp]: "even n \<Longrightarrow> block_get_real_size (n + of_bool f) = n"
  "even n \<Longrightarrow> block_get_real_size n = n" "even n \<Longrightarrow> block_get_real_size (Suc n) = n"
  by (cases f; auto simp: block_get_real_size_def elim!: evenE)+

lemma set_free [simp]: "even n \<Longrightarrow> block_set_free n True = Suc n" "even n \<Longrightarrow> block_set_free n False = n"
  "even n \<Longrightarrow> block_set_free (Suc n) True = Suc n"
  by (auto simp: block_set_free_def)

lemma block_is_free_sized:
  "b \<noteq> 0 \<Longrightarrow> block_is_free K b = Some (odd (sizes K b))" "block_is_free K 0 = Some False"
  by (simp_all add: block_is_free_def get_blk_bind)

lemma not_in_addrs_before: "bend a xs \<le> x \<Longrightarrow> x \<notin> set (addrs a xs)"
  using addrs_range by fastforce

lemma not_in_addrs_after: "x < a \<Longrightarrow> x \<notin> set (addrs a xs)"
  using addrs_range by fastforce

lemmas addrs_outside = not_in_addrs_before not_in_addrs_after

text \<open>The links when a block is split in two, and when it is joined with the one that follows.\<close>

lemma linked_split:
  assumes "linked N (xs @ a # zs)" and "distinct (xs @ a # b # zs)" and "zs \<noteq> [] \<Longrightarrow> nx = hd zs"
  shows "linked (N(b := nx, a := b)) (xs @ a # b # zs)"
proof -
  have "linked (N(b := nx, a := b)) xs" "linked (N(b := nx, a := b)) zs"
    using assms(1,2) in_set_butlastD [of _ xs] in_set_butlastD [of _ zs]
    by (subst linked_cong [of _ _ N]; fastforce simp: linked_append linked_Cons)+
  moreover have "xs \<noteq> [] \<Longrightarrow> N (last xs) = a" using assms(1) by (auto simp: linked_append)
  moreover have "xs \<noteq> [] \<Longrightarrow> last xs \<noteq> a \<and> last xs \<noteq> b" using assms(2) last_in_set [of xs] by auto
  moreover have "a \<noteq> b" using assms(2) by auto
  ultimately show ?thesis using assms(3) by (auto simp: linked_append linked_Cons)
qed

lemma linked_join:
  assumes "linked N (xs @ a # us @ zs)" and "distinct (xs @ a # us @ zs)" and "zs \<noteq> [] \<Longrightarrow> nx = hd zs"
  shows "linked (N(a := nx)) (xs @ a # zs)"
proof -
  have "linked (N(a := nx)) xs" "linked (N(a := nx)) zs"
    using assms(1,2) in_set_butlastD [of _ xs] in_set_butlastD [of _ zs]
    by (subst linked_cong [of _ _ N]; fastforce simp: linked_append linked_Cons)+
  moreover have "xs \<noteq> [] \<Longrightarrow> N (last xs) = a" using assms(1) by (auto simp: linked_append)
  moreover have "xs \<noteq> [] \<Longrightarrow> last xs \<noteq> a" using assms(2) last_in_set [of xs] by auto
  ultimately show ?thesis using assms(3) by (auto simp: linked_append linked_Cons)
qed

lemma no_adjacent_append: "no_adjacent_free (xs @ ys) \<longleftrightarrow> no_adjacent_free xs \<and> no_adjacent_free ys
    \<and> (xs = [] \<or> ys = [] \<or> \<not> (snd (last xs) \<and> snd (hd ys)))"
  by (auto simp: no_adjacent_free_def successively_append_iff split_beta)

lemma no_adjacent_Nil [simp]: "no_adjacent_free []"
  by (simp add: no_adjacent_free_def)

lemma no_adjacent_Cons: "no_adjacent_free (x # xs) \<longleftrightarrow> no_adjacent_free xs \<and> (xs = [] \<or> \<not> (snd x \<and> snd (hd xs)))"
  using no_adjacent_append [of "[x]" xs] by (auto simp: no_adjacent_free_def)

lemmas no_adjacent = no_adjacent_append no_adjacent_Cons

text \<open>The positions of the blocks around the block at \<open>bend s xs\<close>.\<close>

lemma around:
  "bend s xs \<notin> set (addrs s xs)" "bend s xs \<notin> set (addrs (bend s xs + 12 + n) ys)"
  "set (addrs s xs) \<inter> set (addrs (bend s xs + k) ys) = {}"
  using addrs_range [of _ s xs] addrs_range [of _ "bend s xs + k" ys]
    addrs_range [of _ "bend s xs + 12 + n" ys] by fastforce+

lemma frees_around:
  "bend s xs \<notin> set (frees s xs)" "bend s xs \<notin> set (frees (bend s xs + 12 + n) ys)"
  using around frees_subset by blast+

lemma hinv_split_fl:
  assumes "hinv K (xs @ (n, True) # ys) fl"
  shows "\<exists>us vs. fl = us @ bend (vm_start K + 12) xs # vs"
  using assms split_list [of "bend (vm_start K + 12) xs" fl] by (auto simp: hinv_def)

lemma frees_delete:
  assumes "hinv K (xs @ (n, True) # ys) fl" and "fl = us @ bend (vm_start K + 12) xs # vs"
  shows "set (us @ vs) = set (frees (vm_start K + 12) xs)
    \<union> set (frees (bend (vm_start K + 12) xs + 12 + n) ys)"
proof -
  let ?s = "vm_start K + 12" let ?a = "bend (vm_start K + 12) xs"
  have "insert ?a (set (us @ vs)) = insert ?a (set (frees ?s xs) \<union> set (frees (?a + 12 + n) ys))"
    using assms by (simp add: hinv_def)
  moreover have "?a \<notin> set (us @ vs)" using assms by (auto simp: hinv_def)
  moreover have "?a \<notin> set (frees ?s xs) \<union> set (frees (?a + 12 + n) ys)" using frees_around by blast
  ultimately show ?thesis by (metis insert_ident)
qed

lemma malloc_reuse_whole:
  assumes h: "hinv K (xs @ (n, True) # ys) fl" and r: "even r" "r \<le> n" "n - r < 20"
  shows "\<exists>K' fl'. malloc_reuse K (bend (vm_start K + 12) xs) (r + 12)
      = Some (bend (vm_start K + 12) xs + 12, K') \<and> vm_start K' = vm_start K \<and> vm_end K' = vm_end K
    \<and> hinv K' (xs @ (n, False) # ys) fl'"
proof -
  define s a where "s = vm_start K + 12" and "a = bend s xs"
  note mid = hinv_middle [OF h, folded s_def, folded a_def]
  obtain us vs where fl: "fl = us @ a # vs" using hinv_split_fl [OF h] by (auto simp: s_def a_def)
  have bound: "n + 12 < 4294967296" "a + 12 < 4294967296" using h mid by (auto simp: hinv_def)
  let ?K1 = "set_size K a n"
  have ok: "\<forall>z \<in> set (us @ a # vs). z \<noteq> 0" using hinv_free_ok [OF h] fl by auto
  have fs: "fseg (nfrees ?K1) (h_freelist ?K1) (us @ a # vs) 0" "distinct (us @ a # vs)"
    using h fl by (auto simp: hinv_def)
  obtain K' where K': "block_remove_from_freelist ?K1 a = Some K'" "same_layout ?K1 K'"
    "fseg (nfrees K') (h_freelist K') (us @ vs) 0"
    using block_remove_from_freelist_ok [OF fs ok] by blast
  have run: "malloc_reuse K a (r + 12) = Some (a + 12, K')"
    using mid K'(1) bound r by (simp add: malloc_reuse_def OVERHEAD_def blk_access Let_def)
  have set: "set (us @ vs) = set (frees s (xs @ (n, False) # ys))"
    using frees_delete [OF h fl [unfolded a_def s_def]] by (simp add: a_def s_def)
  have "hinv K' (xs @ (n, False) # ys) (us @ vs)"
    using h K'(2,3) fs(2) set around [of s xs]
    by (auto simp: hinv_def same_layout_def a_def s_def no_adjacent)
  then show ?thesis using run K'(2) by (auto simp: s_def a_def same_layout_def)
qed

lemma malloc_split_ok:
  assumes h: "hinv K (xs @ (n, True) # ys) fl" and r: "even r" "r + 20 \<le> n"
    and a: "a = bend (vm_start K + 12) xs"
  shows "\<exists>K'. malloc_split (set_size K a r) a (a + 12 + r) (if ys = [] then 0 else a + 12 + n) (n - r) (h_tail K)
      = Some K' \<and> vm_start K' = vm_start K \<and> vm_end K' = vm_end K \<and> heap_top K' = heap_top K
    \<and> h_head K' = h_head K \<and> h_tail K' = (if ys = [] then a + 12 + r else h_tail K)
    \<and> sizes K' = (sizes K)(a := r, a + 12 + r := Suc (n - r - 12))
    \<and> nexts K' = (nexts K)(a + 12 + r := if ys = [] then 0 else a + 12 + n, a := a + 12 + r)
    \<and> fseg (nfrees K') (h_freelist K') ((a + 12 + r) # fl) 0"
proof -
  note mid = hinv_middle [OF h, folded a]
  define b nx where "b = a + 12 + r" and "nx = (if ys = [] then 0 else a + 12 + n)"
  have bok: "b \<noteq> 0" using mid(1,4) r by (simp add: b_def)
  have bnot: "b \<notin> set fl"
    using h r not_in_addrs_before [of "vm_start K + 12" xs b] not_in_addrs_after [of b "a + 12 + n" ys]
      frees_subset [of "vm_start K + 12" xs] frees_subset [of "a + 12 + n" ys]
    by (auto simp: hinv_def a b_def)
  have nx_used: "block_is_free (set_size K a r) nx = Some False"
  proof (cases ys)
    case (Cons y ys')
    obtain m where y: "y = (m, False)" using h Cons by (cases y) (auto simp: hinv_def no_adjacent)
    have "nx \<noteq> 0" "sizes K nx = m" "even m" "nx \<noteq> a"
      using h hinv_nonnull [OF h, of nx] Cons y by (auto simp: hinv_def nx_def a)
    then show ?thesis by (simp add: block_is_free_sized)
  qed (simp add: nx_def block_is_free_sized)
  have tl: "a = h_tail K \<longleftrightarrow> ys = []" using hinv_tail_iff [OF h] a by auto
  define m where "m = n - r - 12"
  have rem: "wsub (n - r) 12 = m" "even m" using r mid h by (auto simp: hinv_def m_def)
  let ?K3 = "set_bnext (set_size (set_size K a r) b (Suc m)) b nx"
  define K4 where "K4 = (if a = h_tail K then ?K3\<lparr>h_tail := b\<rparr> else ?K3)"
  have "fseg (nfrees K4) (h_freelist K4) fl 0" "b \<noteq> 0"
    using h bok by (auto simp: K4_def hinv_def)
  then obtain K5 where K5: "block_add_to_freelist K4 b = Some K5" "same_layout K4 K5"
    "fseg (nfrees K5) (h_freelist K5) (b # fl) 0"
    using block_add_to_freelist_ok [OF _ bnot] by blast
  have "a \<noteq> 0" using mid(1) K5(2) by (auto simp: same_layout_def K4_def)
  then have "malloc_split (set_size K a r) a b nx (n - r) (h_tail K) = Some (set_bnext K5 a b)"
    using bok nx_used rem K5(1) unfolding K4_def
    by (cases "a = h_tail K") (simp_all add: malloc_split_def OVERHEAD_def blk_access Let_def)
  then show ?thesis
    using K5(2,3) tl unfolding b_def [symmetric] nx_def [symmetric] m_def [symmetric]
    by (intro exI [of _ "set_bnext K5 a b"]) (auto simp: same_layout_def K4_def)
qed

lemma hinv_layout_cong:
  "same_layout K K' \<Longrightarrow> vm_start K' = vm_start K \<and> vm_end K' = vm_end K \<and> heap_top K' = heap_top K
     \<and> h_head K' = h_head K \<and> h_tail K' = h_tail K \<and> sizes K' = sizes K \<and> nexts K' = nexts K"
  by (simp add: same_layout_def)

text \<open>The layout around a block that is split in two.\<close>

lemma two_blocks:
  assumes "n = r + 12 + m" and "a = bend s xs"
  shows "addrs s (xs @ (r, f) # (m, g) # ys) = addrs s xs @ a # (a + 12 + r) # addrs (a + 12 + n) ys"
    and "bend s (xs @ (r, f) # (m, g) # ys) = bend (a + 12 + n) ys"
    and "frees s (xs @ (r, False) # (m, True) # ys) = frees s xs @ (a + 12 + r) # frees (a + 12 + n) ys"
    and "sized S s (xs @ (r, f) # (m, g) # ys) \<longleftrightarrow> sized S s xs \<and> (S a = r + of_bool f \<and> even r
      \<and> (S (a + 12 + r) = m + of_bool g \<and> even m \<and> sized S (a + 12 + n) ys))"
proof -
  have e: "a + 12 + r + 12 + m = a + 12 + n" using assms(1) by simp
  show "addrs s (xs @ (r, f) # (m, g) # ys) = addrs s xs @ a # (a + 12 + r) # addrs (a + 12 + n) ys"
    "bend s (xs @ (r, f) # (m, g) # ys) = bend (a + 12 + n) ys"
    "frees s (xs @ (r, False) # (m, True) # ys) = frees s xs @ (a + 12 + r) # frees (a + 12 + n) ys"
    "sized S s (xs @ (r, f) # (m, g) # ys) \<longleftrightarrow> sized S s xs \<and> (S a = r + of_bool f \<and> even r
      \<and> (S (a + 12 + r) = m + of_bool g \<and> even m \<and> sized S (a + 12 + n) ys))"
    by (simp_all only: addrs_append addrs.simps bend_append bend.simps frees_append frees.simps
        sized_append sized.simps assms(2) [symmetric] e if_True if_False append_Nil append_Cons)
qed

lemma hinv_split:
  assumes h: "hinv K (xs @ (n, True) # ys) fl" and n: "n = r + 12 + m" "even r"
    and a: "a = bend (vm_start K + 12) xs"
    and K': "vm_start K' = vm_start K" "vm_end K' = vm_end K" "heap_top K' = heap_top K" "h_head K' = h_head K"
    and tl: "h_tail K' = (if ys = [] then a + 12 + r else h_tail K)"
    and sz: "sizes K' = (sizes K)(a := r, a + 12 + r := Suc m)"
    and nx: "nexts K' = (nexts K)(a + 12 + r := if ys = [] then 0 else a + 12 + n, a := a + 12 + r)"
    and fl: "fseg (nfrees K') (h_freelist K') fl' 0" "distinct fl'"
      "set fl' = insert (a + 12 + r) (set (frees (vm_start K + 12) xs) \<union> set (frees (a + 12 + n) ys))"
  shows "hinv K' (xs @ (r, False) # (m, True) # ys) fl'"
proof -
  define s where "s = vm_start K + 12"
  let ?b = "a + 12 + r" let ?bs = "xs @ (r, False) # (m, True) # ys"
  note two = two_blocks [OF n(1) a, folded s_def]
  have dist: "distinct (addrs s xs @ a # ?b # addrs (a + 12 + n) ys)"
    using addrs_distinct [of s ?bs] unfolding two(1) .
  have "linked (nexts K) (addrs s xs @ a # addrs (a + 12 + n) ys)"
    using h a by (simp add: hinv_def s_def)
  then have lk: "linked (nexts K') (addrs s ?bs)"
    using linked_split [OF _ dist, of _ "if ys = [] then 0 else a + 12 + n"] nx
    unfolding two(1) by (simp add: hd_addrs)
  have "sized (sizes K) s xs" "sized (sizes K) (a + 12 + n) ys" "even m"
    using h n a by (auto simp: hinv_def s_def)
  then have "sized (sizes K') s ?bs" unfolding two(4) using dist n(2) sz by simp
  moreover have "heap_top K' = bend s ?bs" using h K' a unfolding two(2) by (simp add: hinv_def s_def)
  moreover have "h_tail K' = last (addrs s ?bs)" using h tl a unfolding two(1) by (simp add: hinv_def s_def)
  moreover have "no_adjacent_free ?bs" using h by (auto simp: hinv_def no_adjacent)
  moreover have "set fl' = set (frees s ?bs)" using fl(3) unfolding two(3) by (simp add: s_def)
  ultimately show ?thesis using h K' fl(1,2) lk unfolding hinv_def s_def by (simp del: addrs_append)
qed

lemma malloc_reuse_split:
  assumes h: "hinv K (xs @ (n, True) # ys) fl" and r: "even r" "r + 20 \<le> n"
  shows "\<exists>K' fl'. malloc_reuse K (bend (vm_start K + 12) xs) (r + 12)
      = Some (bend (vm_start K + 12) xs + 12, K') \<and> vm_start K' = vm_start K \<and> vm_end K' = vm_end K
    \<and> hinv K' (xs @ (r, False) # (n - r - 12, True) # ys) fl'"
proof -
  define s a where "s = vm_start K + 12" and "a = bend s xs"
  have as: "a = bend (vm_start K + 12) xs" by (simp add: a_def s_def)
  note mid = hinv_middle [OF h, folded as]
  let ?b = "a + 12 + r"
  obtain us vs where fl: "fl = us @ a # vs" using hinv_split_fl [OF h] by (auto simp: s_def a_def)
  have bound: "n + 12 < 4294967296" "a + 12 + n < 4294967296" using h mid by (auto simp: hinv_def)
  obtain K1 where K1: "malloc_split (set_size K a r) a ?b (if ys = [] then 0 else a + 12 + n) (n - r) (h_tail K) = Some K1"
    "vm_start K1 = vm_start K" "vm_end K1 = vm_end K" "heap_top K1 = heap_top K" "h_head K1 = h_head K"
    "h_tail K1 = (if ys = [] then ?b else h_tail K)" "sizes K1 = (sizes K)(a := r, ?b := Suc (n - r - 12))"
    "nexts K1 = (nexts K)(?b := if ys = [] then 0 else a + 12 + n, a := ?b)"
    "fseg (nfrees K1) (h_freelist K1) ((?b # us) @ a # vs) 0"
    using malloc_split_ok [OF h r as] unfolding fl by auto
  have bfree: "?b \<notin> set fl"
    using h r not_in_addrs_before [of s xs ?b] not_in_addrs_after [of ?b "a + 12 + n" ys]
      frees_subset [of s xs] frees_subset [of "a + 12 + n" ys]
    by (auto simp: hinv_def a_def s_def)
  have dist: "distinct ((?b # us) @ a # vs)" using h bfree by (auto simp: hinv_def fl)
  have "?b \<noteq> 0" using mid(1,4) r K1(2,4) by simp
  moreover have "\<forall>z \<in> set fl. z \<noteq> 0" using hinv_free_ok [OF h] K1(2,4) by simp
  ultimately have ok: "\<forall>z \<in> set ((?b # us) @ a # vs). z \<noteq> 0" by (simp add: fl)
  obtain K' where K': "block_remove_from_freelist K1 a = Some K'" "same_layout K1 K'"
    "fseg (nfrees K') (h_freelist K') (?b # us @ vs) 0"
    using block_remove_from_freelist_ok [OF K1(9) dist ok] by auto
  have "(n - r < 20) = False" using r by simp
  then have run: "malloc_reuse K a (r + 12) = Some (a + 12, K')"
    using mid K'(1) K1(1) bound r
    by (simp add: malloc_reuse_def OVERHEAD_def blk_access Let_def ac_simps)
  have "set (?b # us @ vs) = insert ?b (set (frees (vm_start K + 12) xs) \<union> set (frees (a + 12 + n) ys))"
    using frees_delete [OF h fl [unfolded a_def s_def]] by (auto simp: as)
  then have "hinv K' (xs @ (r, False) # (n - r - 12, True) # ys) (?b # us @ vs)"
    using hinv_layout_cong [OF K'(2)] K'(3) K1 dist r as by (intro hinv_split [OF h]) simp_all
  then show ?thesis using run hinv_layout_cong [OF K'(2)] K1(2,3) as by auto
qed

section \<open>Allocation at the end of the heap\<close>

lemma do_brk_ok:
  assumes "0 < inc" and "inc < 2147483648" and "heap_top K + inc \<le> vm_end K" and "vm_end K < 4294967296"
  shows "\<exists>ps. do_brk K inc = (heap_top K, K\<lparr>h_pages := ps, heap_top := heap_top K + inc\<rparr>)"
  using assms by (simp add: do_brk_def Let_def) blast

lemma butlast_not_last: "distinct xs \<Longrightarrow> x \<in> set (butlast xs) \<Longrightarrow> x \<noteq> last xs"
  by (cases xs rule: rev_cases) auto

lemma malloc_extend_ok:
  assumes h: "hinv K bs fl" and r: "even r" "r + 12 < 2147483648" "heap_top K + r + 12 \<le> vm_end K"
  shows "\<exists>K'. malloc_extend K (r + 12) = Some (heap_top K + 12, K') \<and> vm_start K' = vm_start K
    \<and> vm_end K' = vm_end K \<and> hinv K' (bs @ [(r, False)]) fl"
proof -
  define s t where "s = vm_start K + 12" and "t = heap_top K"
  have bound: "t + (r + 12) \<le> vm_end K" "vm_end K < 4294967296" using h r by (auto simp: hinv_def t_def)
  obtain ps where brk: "do_brk K (r + 12) = (t, K\<lparr>h_pages := ps, heap_top := t + (r + 12)\<rparr>)"
    using do_brk_ok [of "r + 12" K] bound r by (auto simp: t_def)
  let ?K1 = "K\<lparr>h_pages := ps, heap_top := t + (r + 12)\<rparr>"
  define K2 where "K2 = (if bs = [] then ?K1\<lparr>h_head := t\<rparr> else set_bnext ?K1 (h_tail K) t)"
  define K' where "K' = set_size ((set_nfree (set_bnext K2 t 0) t 0)\<lparr>h_tail := t\<rparr>) t r"
  have t: "t = bend s bs" "s \<le> t" "0 < s" using h bend_ge [of s bs] by (auto simp: hinv_def t_def s_def)
  have ok: "t \<noteq> 0" using t by (auto simp: K2_def s_def)
  have tl: "bs \<noteq> [] \<Longrightarrow> h_tail K \<in> set (addrs s bs)" "bs \<noteq> [] \<Longrightarrow> h_tail K = last (addrs s bs)"
    using h by (auto simp: hinv_def s_def)
  have tlok: "bs \<noteq> [] \<Longrightarrow> h_tail K \<noteq> 0"
    using tl(1) addrs_range [of "h_tail K" s bs] t by (auto simp: s_def)
  have "h_head K = 0 \<longleftrightarrow> bs = []" "0 < t" using h t by (auto simp: hinv_def)
  then have run: "malloc_extend K (r + 12) = Some (t + 12, K')"
    using brk ok bound r tlok unfolding K'_def K2_def
    by (cases "bs = []") (simp_all add: malloc_extend_def ksbrk_def OVERHEAD_def Let_def blk_access)
  have fresh: "t \<notin> set (addrs s bs)" "t \<notin> set fl"
    using not_in_addrs_before [of s bs t] frees_subset [of s bs] h t by (auto simp: hinv_def s_def)
  have lk: "linked (nexts K') (addrs s (bs @ [(r, False)]))"
  proof -
    have "linked (nexts K') (addrs s bs) = linked (nexts K) (addrs s bs)"
    proof (rule linked_cong)
      fix x assume x: "x \<in> set (butlast (addrs s bs))"
      then have "bs \<noteq> []" "x \<noteq> last (addrs s bs)" "x \<noteq> t"
        using butlast_not_last [OF addrs_distinct x] fresh(1) in_set_butlastD [OF x] by auto
      then show "nexts K' x = nexts K x" using tl by (simp add: K'_def K2_def)
    qed
    moreover have "bs \<noteq> [] \<Longrightarrow> nexts K' (last (addrs s bs)) = t"
      using tl fresh(1) by (auto simp: K'_def K2_def)
    ultimately show ?thesis using h t(1) by (auto simp: linked_append linked_Cons hinv_def s_def)
  qed
  have "hinv K' (bs @ [(r, False)]) fl"
    using h lk t fresh r bound
    by (auto simp: hinv_def K'_def K2_def s_def no_adjacent)
  then show ?thesis using run by (auto simp: K'_def K2_def t_def)
qed

section \<open>Allocation\<close>

lemma CEIL16_ok:
  assumes "0 < n" and "n \<le> 4294967280"
  shows "n \<le> CEIL16 n" and "CEIL16 n < n + 16" and "CEIL16 n mod 16 = 0" and "CEIL16 n \<le> 4294967280"
    and "even (CEIL16 n)"
proof -
  define q where "q = (n + 15) div 16"
  have e: "CEIL16 n = q * 16" using assms by (simp add: CEIL16_def q_def)
  have q: "q * 16 + (n + 15) mod 16 = n + 15" "(n + 15) mod 16 < 16" by (simp_all add: q_def)
  have "q \<le> 268435455" using div_le_mono [of "n + 15" 4294967295 16] assms by (simp add: q_def)
  then show "n \<le> CEIL16 n" "CEIL16 n < n + 16" "CEIL16 n \<le> 4294967280"
    using q assms unfolding e by linarith+
  show "CEIL16 n mod 16 = 0" "even (CEIL16 n)" unfolding e by simp_all
qed

text \<open>What \<open>do_malloc\<close> does to the list of blocks.\<close>

definition reused :: "nat \<Rightarrow> nat \<Rightarrow> blocks" where
  "reused n r = (if n - r < 20 then [(n, False)] else [(r, False), (n - r - 12, True)])"

lemma do_malloc_reuse:
  assumes h: "hinv K bs fl" and sz: "0 < sz" "sz \<le> 4294967280"
    and ex: "(m, True) \<in> set bs" "CEIL16 sz \<le> m"
  shows "\<exists>xs n ys K' fl'. bs = xs @ (n, True) # ys \<and> CEIL16 sz \<le> n
    \<and> (\<forall>k. (k, True) \<in> set bs \<longrightarrow> CEIL16 sz \<le> k \<longrightarrow> n \<le> k)
    \<and> do_malloc K sz = Some (bend (vm_start K + 12) xs + 12, K')
    \<and> vm_start K' = vm_start K \<and> vm_end K' = vm_end K \<and> hinv K' (xs @ reused n (CEIL16 sz) @ ys) fl'"
proof -
  define s r where "s = vm_start K + 12" and "r = CEIL16 sz"
  note c = CEIL16_ok [OF sz, folded r_def]
  have fs: "fseg (nfrees K) (h_freelist K) fl 0" "set fl = set (frees s bs)"
    using h by (auto simp: hinv_def s_def)
  have size_of: "\<exists>x \<in> set fl. sizes K x = Suc k" if "(k, True) \<in> set bs" for k
  proof -
    obtain us vs where "bs = us @ (k, True) # vs" using split_list [OF \<open>(k, True) \<in> set bs\<close>] by blast
    then show ?thesis using hinv_middle(2) [of K us k True vs fl] h fs(2) by (auto simp: s_def)
  qed
  obtain b where b: "block_find_best_fitting K r = Some b" "b = 0 \<or> b \<in> set fl \<and> r \<le> sizes K b"
    "\<forall>z \<in> set fl. r \<le> sizes K z \<longrightarrow> b \<noteq> 0 \<and> sizes K b \<le> sizes K z"
    using block_find_best_fitting_ok [OF fs(1), of r] hinv_free_ok [OF h] c(5) by auto
  have b0: "b \<noteq> 0" "b \<in> set fl" using b(2,3) size_of [OF ex(1)] ex(2) by (auto simp: r_def)
  then obtain xs n ys where bs: "bs = xs @ (n, True) # ys" "b = bend s xs"
    using frees_split [of b s bs] fs(2) by auto
  have n: "sizes K b = Suc n" "even n" using hinv_middle(2,3) [of K xs n True ys fl] h bs by (auto simp: s_def)
  have rn: "r \<le> n" using b(2) b0(1) n c(5) by (auto simp: le_Suc_eq)
  have best: "\<forall>k. (k, True) \<in> set bs \<longrightarrow> r \<le> k \<longrightarrow> n \<le> k"
  proof (intro allI impI)
    fix k assume "(k, True) \<in> set bs" "r \<le> k"
    then obtain x where "x \<in> set fl" "sizes K x = Suc k" using size_of by blast
    then show "n \<le> k" using b(3) n(1) \<open>r \<le> k\<close> by (metis Suc_le_mono le_SucI)
  qed
  have run: "do_malloc K sz = malloc_reuse K (bend s xs) (r + 12)"
    using sz(1) b(1) b0(1) c(4) bs(2) by (simp add: do_malloc_def r_def [symmetric] OVERHEAD_def Let_def)
  have h': "hinv K (xs @ (n, True) # ys) fl" using h bs by simp
  have "\<exists>K' fl'. malloc_reuse K (bend s xs) (r + 12) = Some (bend s xs + 12, K')
    \<and> vm_start K' = vm_start K \<and> vm_end K' = vm_end K \<and> hinv K' (xs @ reused n r @ ys) fl'"
  proof (cases "n - r < 20")
    case True
    then show ?thesis using malloc_reuse_whole [OF h' c(5) rn True] by (simp add: reused_def s_def)
  next
    case False
    then have "r + 20 \<le> n" by simp
    then show ?thesis using malloc_reuse_split [OF h' c(5)] False by (simp add: reused_def s_def)
  qed
  then show ?thesis using bs(1) rn best run unfolding r_def [symmetric] s_def [symmetric] by metis
qed

lemma do_malloc_extend:
  assumes h: "hinv K bs fl" and sz: "0 < sz" "sz \<le> 4294967280"
    and none: "\<forall>k. (k, True) \<in> set bs \<longrightarrow> k < CEIL16 sz"
  shows "do_malloc K sz = malloc_extend K (CEIL16 sz + 12)"
proof -
  define s r where "s = vm_start K + 12" and "r = CEIL16 sz"
  note c = CEIL16_ok [OF sz, folded r_def]
  have fs: "fseg (nfrees K) (h_freelist K) fl 0" "set fl = set (frees s bs)"
    using h by (auto simp: hinv_def s_def)
  obtain b where b: "block_find_best_fitting K r = Some b" "b = 0 \<or> b \<in> set fl \<and> r \<le> sizes K b"
    using block_find_best_fitting_ok [OF fs(1), of r] hinv_free_ok [OF h] c(5) by auto
  have "b = 0"
  proof (rule ccontr)
    assume "b \<noteq> 0"
    then obtain xs n ys where bs: "bs = xs @ (n, True) # ys" "b = bend s xs" "r \<le> sizes K b"
      using frees_split [of b s bs] fs(2) b(2) by auto
    then have "sizes K b = Suc n" "even n" using hinv_middle(2,3) [of K xs n True ys fl] h by (auto simp: s_def)
    moreover have "n < r" using none bs by (auto simp: r_def)
    ultimately show False using bs(3) c(5) by (auto simp: le_Suc_eq)
  qed
  then show ?thesis
    using sz(1) b(1) c(4) by (simp add: do_malloc_def r_def [symmetric] OVERHEAD_def Let_def)
qed

end
