(* ===== verification/Kheap_Props.thy ===== *)
theory Kheap_Props
  imports Kheap_Inv
begin

text \<open>
  How \<^verbatim>\<open>__do_free\<close> of \<^verbatim>\<open>kheap.c\<close> keeps the invariant of the heap, with its four cases of joining a
  block with its free neighbours, and what \<^verbatim>\<open>kmalloc\<close> and \<^verbatim>\<open>kfree\<close> promise to their callers.
\<close>

section \<open>Release\<close>

text \<open>Joining the blocks \<open>zs\<close> into one free block.\<close>

lemma hinv_join:
  assumes h: "hinv K (xs @ zs @ ys) fl" and zs: "zs \<noteq> []" "bend a zs = a + 12 + n" "even n"
    and a: "a = bend (vm_start K + 12) xs"
    and K': "vm_start K' = vm_start K" "vm_end K' = vm_end K" "heap_top K' = heap_top K" "h_head K' = h_head K"
    and tl: "h_tail K' = (if ys = [] then a else h_tail K)"
    and sz: "sizes K' = (sizes K)(a := Suc n)"
    and nx: "nexts K' = (nexts K)(a := nx)" "ys \<noteq> [] \<Longrightarrow> nx = a + 12 + n"
    and nf: "xs = [] \<or> \<not> snd (last xs)" "ys = [] \<or> \<not> snd (hd ys)"
    and fl: "fseg (nfrees K') (h_freelist K') fl' 0" "distinct fl'"
      "set fl' = insert a (set (frees (vm_start K + 12) xs) \<union> set (frees (a + 12 + n) ys))"
  shows "hinv K' (xs @ (n, True) # ys) fl'"
proof -
  define s where "s = vm_start K + 12"
  obtain z zs' where z: "zs = z # zs'" using zs(1) by (cases zs) auto
  define us where "us = addrs (bend a [z]) zs'"
  have ad: "addrs s (xs @ zs @ ys) = addrs s xs @ a # us @ addrs (a + 12 + n) ys"
    using zs(2) a z by (cases z) (simp add: s_def us_def)
  have ad': "addrs s (xs @ (n, True) # ys) = addrs s xs @ a # addrs (a + 12 + n) ys"
    using a by (simp add: s_def)
  have dist: "distinct (addrs s xs @ a # us @ addrs (a + 12 + n) ys)"
    using addrs_distinct [of s "xs @ zs @ ys"] unfolding ad .
  have lk: "linked (nexts K) (addrs s xs @ a # us @ addrs (a + 12 + n) ys)"
    using h unfolding ad [symmetric] by (simp add: hinv_def s_def)
  have lk': "linked (nexts K') (addrs s (xs @ (n, True) # ys))"
    unfolding ad' nx(1) using nx(2) by (intro linked_join [OF lk dist]) (simp add: hd_addrs)
  have "sized (sizes K) s xs" "sized (sizes K) (a + 12 + n) ys" using h zs(2) a by (auto simp: hinv_def s_def)
  then have "sized (sizes K') s (xs @ (n, True) # ys)" using dist sz zs(3) a by (simp add: s_def)
  moreover have "heap_top K' = bend s (xs @ (n, True) # ys)" using h K' a zs(2) by (simp add: hinv_def s_def)
  moreover have "h_tail K' = last (addrs s (xs @ (n, True) # ys))"
    using h tl unfolding ad' hinv_def s_def [symmetric] ad by simp
  moreover have "no_adjacent_free (xs @ (n, True) # ys)" using h nf by (auto simp: hinv_def no_adjacent)
  moreover have "h_head K' = vm_start K + 12" using h K' zs(1) by (simp add: hinv_def)
  ultimately show ?thesis
    using h K' fl lk' a unfolding hinv_def s_def by simp
qed

text \<open>Every case of \<open>do_free\<close> starts from the block in the middle of the layout.\<close>

lemma free_last_free:
  assumes "hinv K (xs @ (n, False) # ys) fl"
  shows "block_is_free K (if xs = [] then 0 else last (addrs (vm_start K + 12) xs))
    = Some (xs \<noteq> [] \<and> snd (last xs))"
proof (cases xs rule: rev_cases)
  case (snoc zs z)
  obtain m f where z: "z = (m, f)" by force
  then show ?thesis
    using hinv_middle(1-3) [of K zs m f "(n, False) # ys" fl] assms snoc by (simp add: block_is_free_sized)
qed (simp add: block_is_free_sized)

lemma free_next_free:
  assumes "hinv K (xs @ (n, False) # ys) fl"
  shows "block_is_free K (if ys = [] then 0 else bend (vm_start K + 12) xs + 12 + n)
    = Some (ys \<noteq> [] \<and> snd (hd ys))"
proof (cases ys)
  case (Cons z zs)
  obtain m f where z: "z = (m, f)" by force
  then show ?thesis
    using hinv_middle(1-3) [of K "xs @ [(n, False)]" m f zs fl] assms Cons by (simp add: block_is_free_sized)
qed (simp add: block_is_free_sized)

lemma do_free_alone:
  assumes h: "hinv K (xs @ (n, False) # ys) fl" and nf: "xs = [] \<or> \<not> snd (last xs)" "ys = [] \<or> \<not> snd (hd ys)"
  shows "\<exists>K' fl'. do_free K (bend (vm_start K + 12) xs + 12) = Some K' \<and> vm_start K' = vm_start K
    \<and> vm_end K' = vm_end K \<and> hinv K' (xs @ (n, True) # ys) fl'"
proof -
  define a where "a = bend (vm_start K + 12) xs"
  note mid = hinv_middle [OF h, folded a_def]
  have bound: "a + 12 < 4294967296" using h mid by (auto simp: hinv_def)
  obtain pv nx where nb: "block_get_previous_block K a = Some pv" "block_get_next_block K a = Some nx"
    "block_is_free K pv = Some False" "block_is_free K nx = Some False"
    using mid(5,6) free_last_free [OF h] free_next_free [OF h, folded a_def] nf by auto
  let ?K1 = "set_size K a (Suc n)"
  have an: "a \<notin> set fl" using h frees_around [of "vm_start K + 12" xs] by (auto simp: hinv_def a_def)
  have "fseg (nfrees ?K1) (h_freelist ?K1) fl 0" "a \<noteq> 0" using h mid by (auto simp: hinv_def)
  then obtain K' where K': "block_add_to_freelist ?K1 a = Some K'" "same_layout ?K1 K'"
    "fseg (nfrees K') (h_freelist K') (a # fl) 0"
    using block_add_to_freelist_ok [OF _ an] by blast
  have run: "do_free K (a + 12) = Some K'"
    using mid(1-3) bound K'(1) nb by (simp add: do_free_def blk_access Let_def)
  have "ys \<noteq> [] \<Longrightarrow> nexts K a = a + 12 + n"
    using h by (auto simp: hinv_def linked_append linked_Cons hd_addrs a_def)
  moreover have "set (a # fl) = insert a (set (frees (vm_start K + 12) xs) \<union> set (frees (a + 12 + n) ys))"
    using h by (simp add: hinv_def a_def)
  moreover have "h_tail K = (if ys = [] then a else h_tail K)" using h by (simp add: hinv_def a_def)
  ultimately have "hinv K' (xs @ (n, True) # ys) (a # fl)"
    using hinv_join [of K xs "[(n, False)]" ys fl a n K' "nexts K a" "a # fl"] h nf mid(3) an K'(3) a_def
      hinv_layout_cong [OF K'(2)] by (auto simp: hinv_def)
  then show ?thesis using run hinv_layout_cong [OF K'(2)] by (auto simp: a_def)
qed

lemma next_block_size [simp]: "block_get_next_block (set_size K b v) c = block_get_next_block K c"
  by (simp add: block_get_next_block_def get_blk_bind)

lemma do_free_previous:
  assumes h: "hinv K (xs @ (m, True) # (n, False) # ys) fl" and nf: "ys = [] \<or> \<not> snd (hd ys)"
  shows "\<exists>K' fl'. do_free K (bend (vm_start K + 12) xs + 12 + m + 12) = Some K' \<and> vm_start K' = vm_start K
    \<and> vm_end K' = vm_end K \<and> hinv K' (xs @ (m + 12 + n, True) # ys) fl'"
proof -
  define b a where "b = bend (vm_start K + 12) xs" and "a = b + 12 + m"
  have h': "hinv K ((xs @ [(m, True)]) @ (n, False) # ys) fl" using h by simp
  have a: "bend (vm_start K + 12) (xs @ [(m, True)]) = a" "last (addrs (vm_start K + 12) (xs @ [(m, True)])) = b"
    by (simp_all add: a_def b_def)
  note mid = hinv_middle [OF h, folded b_def]
  note mid' = hinv_middle [OF h', unfolded a]
  define nx where "nx = (if ys = [] then 0 else a + 12 + n)"
  have bound: "a + 12 < 4294967296" "m + 12 + n < 4294967296" using h mid' by (auto simp: hinv_def a_def)
  have nb: "block_get_previous_block K a = Some b" "block_get_next_block K a = Some nx"
    "block_is_free K b = Some True" "block_is_free K nx = Some False"
    using mid mid' free_last_free [OF h'] free_next_free [OF h', unfolded a] nf a by (auto simp: nx_def)
  let ?K1 = "set_bnext (set_size K b (Suc (m + 12 + n))) b nx"
  define K' where "K' = (if h_tail K = a then ?K1\<lparr>h_tail := b\<rparr> else ?K1)"
  have run: "do_free K (a + 12) = Some K'"
    using mid(1-3) mid'(1-3) bound nb
    by (simp add: do_free_def blk_access Let_def OVERHEAD_def K'_def)
  have "hinv K' (xs @ (m + 12 + n, True) # ys) fl"
    using hinv_join [of K xs "[(m, True), (n, False)]" ys fl b "m + 12 + n" K' nx fl] h nf mid(3) mid'(3) b_def
      hinv_tail_iff [OF h', unfolded a]
    by (auto simp: K'_def nx_def a_def hinv_def no_adjacent add.assoc)
  then show ?thesis using run by (auto simp: a_def b_def K'_def)
qed

text \<open>Taking the free block \<open>(m, True)\<close> that follows off the list of free blocks.\<close>

lemma remove_next_ok:
  assumes h: "hinv K (xs @ (m, True) # ys) fl"
    and K1: "nfrees K1 = nfrees K" "h_freelist K1 = h_freelist K" "vm_start K1 = vm_start K" "heap_top K1 = heap_top K"
    and c: "c = bend (vm_start K + 12) xs"
  shows "\<exists>K' fl'. block_remove_from_freelist K1 c = Some K' \<and> same_layout K1 K'
    \<and> fseg (nfrees K') (h_freelist K') fl' 0 \<and> distinct fl'
    \<and> set fl' = set (frees (vm_start K + 12) xs) \<union> set (frees (c + 12 + m) ys)"
proof -
  obtain us vs where fl: "fl = us @ c # vs" using hinv_split_fl [OF h] c by auto
  have fs: "fseg (nfrees K1) (h_freelist K1) (us @ c # vs) 0" and dist: "distinct (us @ c # vs)"
    using h fl K1 by (auto simp: hinv_def)
  have ok: "\<forall>z \<in> set (us @ c # vs). z \<noteq> 0"
    using hinv_free_ok [OF h] K1(3,4) unfolding fl by simp
  obtain K' where "block_remove_from_freelist K1 c = Some K'" "same_layout K1 K'"
    "fseg (nfrees K') (h_freelist K') (us @ vs) 0"
    using block_remove_from_freelist_ok [OF fs dist ok] by blast
  moreover have "distinct (us @ vs)" using dist by simp
  moreover note frees_delete [OF h fl [unfolded c], folded c]
  ultimately show ?thesis by blast
qed

lemma do_free_next:
  assumes h: "hinv K (xs @ (n, False) # (m, True) # ys) fl" and nf: "xs = [] \<or> \<not> snd (last xs)"
  shows "\<exists>K' fl'. do_free K (bend (vm_start K + 12) xs + 12) = Some K' \<and> vm_start K' = vm_start K
    \<and> vm_end K' = vm_end K \<and> hinv K' (xs @ (n + 12 + m, True) # ys) fl'"
proof -
  define a c where "a = bend (vm_start K + 12) xs" and "c = a + 12 + n"
  have h': "hinv K ((xs @ [(n, False)]) @ (m, True) # ys) fl" using h by simp
  have c: "bend (vm_start K + 12) (xs @ [(n, False)]) = c" by (simp add: c_def a_def)
  note mid = hinv_middle [OF h, folded a_def]
  note mid' = hinv_middle [OF h', unfolded c]
  define nx where "nx = (if ys = [] then 0 else c + 12 + m)"
  have bound: "a + 12 < 4294967296" "n + 12 + m < 4294967296" using h mid' by (auto simp: hinv_def c_def)
  obtain pv where nb: "block_get_previous_block K a = Some pv" "block_get_next_block K a = Some c"
    "block_is_free K pv = Some False" "block_is_free K c = Some True" "block_get_next_block K c = Some nx"
    using mid mid' free_last_free [OF h] free_next_free [OF h, folded a_def, folded c_def] nf
    by (auto simp: nx_def c_def)
  let ?K1 = "set_bnext (set_size K a (Suc (n + 12 + m))) a nx"
  define K1 where "K1 = (if h_tail K = c then ?K1\<lparr>h_tail := a\<rparr> else ?K1)"
  have K1: "nfrees K1 = nfrees K" "h_freelist K1 = h_freelist K" "vm_start K1 = vm_start K" "heap_top K1 = heap_top K"
    by (simp_all add: K1_def)
  obtain K2 fl' where K2: "block_remove_from_freelist K1 c = Some K2" "same_layout K1 K2"
    "fseg (nfrees K2) (h_freelist K2) fl' 0" "distinct fl'"
    "set fl' = set (frees (vm_start K + 12) (xs @ [(n, False)])) \<union> set (frees (c + 12 + m) ys)"
    using remove_next_ok [OF h' K1 c [symmetric]] by blast
  have "a \<notin> set fl'"
    using K2(5) frees_around [of "vm_start K + 12" xs] not_in_addrs_after [of a "c + 12 + m" ys]
      frees_subset [of "c + 12 + m" ys] by (auto simp: a_def c_def)
  moreover have "a \<noteq> 0" using mid(1) K1 hinv_layout_cong [OF K2(2)] by simp
  ultimately obtain K' where K': "block_add_to_freelist K2 a = Some K'" "same_layout K2 K'"
    "fseg (nfrees K') (h_freelist K') (a # fl') 0" "distinct (a # fl')"
    using block_add_to_freelist_ok [OF K2(3)] K2(4) by auto
  have run: "do_free K (a + 12) = Some K'"
    using mid(1-3) mid'(1-3) bound nb K2(1) K'(1) unfolding K1_def
    by (cases "h_tail K = c") (simp_all add: do_free_def blk_access Let_def OVERHEAD_def)
  have lay: "vm_start K' = vm_start K" "vm_end K' = vm_end K" "heap_top K' = heap_top K" "h_head K' = h_head K"
    "h_tail K' = (if ys = [] then a else h_tail K)" "sizes K' = (sizes K)(a := Suc (n + 12 + m))"
    "nexts K' = (nexts K)(a := nx)"
    using hinv_layout_cong [OF K2(2)] hinv_layout_cong [OF K'(2)] hinv_tail_iff [OF h', unfolded c]
    by (simp_all add: K1_def)
  have hz: "hinv K (xs @ [(n, False), (m, True)] @ ys) fl" using h by simp
  have e: "bend a [(n, False), (m, True)] = a + 12 + (n + 12 + m)" "c + 12 + m = a + 12 + (n + 12 + m)"
    by (simp_all add: c_def)
  have set: "set (a # fl') = insert a (set (frees (vm_start K + 12) xs) \<union> set (frees (a + 12 + (n + 12 + m)) ys))"
    using K2(5) unfolding e(2) by simp
  have nfy: "ys = [] \<or> \<not> snd (hd ys)" using h by (auto simp: hinv_def no_adjacent)
  have "hinv K' (xs @ (n + 12 + m, True) # ys) (a # fl')"
    using mid(3) mid'(3) e(2)
    by (intro hinv_join [OF hz _ e(1) _ a_def lay _ nf nfy K'(3,4) set]) (simp_all add: nx_def)
  then show ?thesis using run lay by (auto simp: a_def)
qed

lemma do_free_both:
  assumes h: "hinv K (xs @ (p, True) # (n, False) # (m, True) # ys) fl"
  shows "\<exists>K' fl'. do_free K (bend (vm_start K + 12) xs + 12 + p + 12) = Some K' \<and> vm_start K' = vm_start K
    \<and> vm_end K' = vm_end K \<and> hinv K' (xs @ (p + 24 + n + m, True) # ys) fl'"
proof -
  define b a c where "b = bend (vm_start K + 12) xs" and "a = b + 12 + p" and "c = a + 12 + n"
  have h1: "hinv K ((xs @ [(p, True)]) @ (n, False) # (m, True) # ys) fl"
    and h2: "hinv K ((xs @ [(p, True), (n, False)]) @ (m, True) # ys) fl" using h by simp_all
  have a: "bend (vm_start K + 12) (xs @ [(p, True)]) = a" "last (addrs (vm_start K + 12) (xs @ [(p, True)])) = b"
    and c: "bend (vm_start K + 12) (xs @ [(p, True), (n, False)]) = c"
    by (simp_all add: a_def b_def c_def)
  note mid = hinv_middle [OF h, folded b_def]
  note mid1 = hinv_middle [OF h1, unfolded a]
  note mid2 = hinv_middle [OF h2, unfolded c]
  define nx where "nx = (if ys = [] then 0 else c + 12 + m)"
  have bound: "a + 12 < 4294967296" "p + 24 + n + m < 4294967296"
    using h mid2 by (auto simp: hinv_def a_def c_def)
  have nb: "block_get_previous_block K a = Some b" "block_get_next_block K a = Some c"
    "block_is_free K b = Some True" "block_is_free K c = Some True" "block_get_next_block K c = Some nx"
    using mid mid1 mid2 free_last_free [OF h1] free_next_free [OF h1, unfolded a, folded c_def] a
    by (auto simp: nx_def c_def)
  let ?K1 = "set_bnext (set_size K b (Suc (p + 24 + n + m))) b nx"
  define K1 where "K1 = (if h_tail K = c then ?K1\<lparr>h_tail := b\<rparr> else ?K1)"
  have K1: "nfrees K1 = nfrees K" "h_freelist K1 = h_freelist K" "vm_start K1 = vm_start K" "heap_top K1 = heap_top K"
    by (simp_all add: K1_def)
  obtain K' fl' where K': "block_remove_from_freelist K1 c = Some K'" "same_layout K1 K'"
    "fseg (nfrees K') (h_freelist K') fl' 0" "distinct fl'"
    "set fl' = set (frees (vm_start K + 12) (xs @ [(p, True), (n, False)])) \<union> set (frees (c + 12 + m) ys)"
    using remove_next_ok [OF h2 K1 c [symmetric]] by blast
  have run: "do_free K (a + 12) = Some K'"
    using mid(1-3) mid1(1-3) mid2(1-3) bound nb K'(1) unfolding K1_def
    by (cases "h_tail K = c") (simp_all add: do_free_def blk_access Let_def OVERHEAD_def)
  have lay: "vm_start K' = vm_start K" "vm_end K' = vm_end K" "heap_top K' = heap_top K" "h_head K' = h_head K"
    "h_tail K' = (if ys = [] then b else h_tail K)" "sizes K' = (sizes K)(b := Suc (p + 24 + n + m))"
    "nexts K' = (nexts K)(b := nx)"
    using hinv_layout_cong [OF K'(2)] hinv_tail_iff [OF h2, unfolded c] by (simp_all add: K1_def)
  have hz: "hinv K (xs @ [(p, True), (n, False), (m, True)] @ ys) fl" using h by simp
  have e: "bend b [(p, True), (n, False), (m, True)] = b + 12 + (p + 24 + n + m)"
    "c + 12 + m = b + 12 + (p + 24 + n + m)" by (simp_all add: c_def a_def)
  have set: "set fl' = insert b (set (frees (vm_start K + 12) xs) \<union> set (frees (b + 12 + (p + 24 + n + m)) ys))"
    using K'(5) unfolding e(2) by (simp add: b_def)
  have nf: "xs = [] \<or> \<not> snd (last xs)" "ys = [] \<or> \<not> snd (hd ys)" using h by (auto simp: hinv_def no_adjacent)
  have "hinv K' (xs @ (p + 24 + n + m, True) # ys) fl'"
    using mid(3) mid1(3) mid2(3) e(2)
    by (intro hinv_join [OF hz _ e(1) _ b_def lay _ nf K'(3,4) set]) (simp_all add: nx_def)
  then show ?thesis using run lay by (auto simp: a_def b_def)
qed

section \<open>The contract of the allocator\<close>

text \<open>The addresses and sizes of the memory that callers hold.\<close>

fun lives :: "nat \<Rightarrow> blocks \<Rightarrow> (nat \<times> nat) list" where
  "lives a [] = []"
| "lives a ((sz, f) # bs) = (if f then [] else [(a + 12, sz)]) @ lives (a + 12 + sz) bs"

lemma lives_append [simp]: "lives a (xs @ ys) = lives a xs @ lives (bend a xs) ys"
  by (induction a xs rule: lives.induct) auto

lemma lives_split:
  "(q, n) \<in> set (lives a bs) \<Longrightarrow> \<exists>xs ys. bs = xs @ (n, False) # ys \<and> q = bend a xs + 12"
proof (induction a bs rule: lives.induct)
  case (2 a sz f bs)
  show ?case
  proof (cases "\<not> f \<and> q = a + 12 \<and> n = sz")
    case True
    then show ?thesis by (intro exI [of _ "[]"] exI [of _ bs]) simp
  next
    case False
    then obtain xs ys where "bs = xs @ (n, False) # ys" "q = bend (a + 12 + sz) xs + 12"
      using 2 by (auto split: if_splits)
    then show ?thesis by (intro exI [of _ "(sz, f) # xs"] exI [of _ ys]) simp
  qed
qed simp

lemma lives_range: "(q, n) \<in> set (lives a bs) \<Longrightarrow> a + 12 \<le> q \<and> q + n \<le> bend a bs"
proof (induction a bs rule: lives.induct)
  case (2 a sz f bs)
  then show ?case using bend_ge [of "a + 12 + sz" bs] by (auto split: if_splits)
qed simp

lemma lives_distinct: "distinct (map fst (lives a bs))"
proof (induction a bs rule: lives.induct)
  case (2 a sz f bs)
  then show ?case using lives_range [of "a + 12" _ "a + 12 + sz" bs] by fastforce
qed simp

text \<open>What \<open>do_free\<close> does to the list of blocks: it joins the block with its free neighbours.\<close>

definition free_joined :: "blocks \<Rightarrow> nat \<Rightarrow> blocks \<Rightarrow> blocks" where
  "free_joined xs n ys =
     (if xs \<noteq> [] \<and> snd (last xs) then butlast xs else xs)
     @ ((if xs \<noteq> [] \<and> snd (last xs) then fst (last xs) + 12 else 0) + n
        + (if ys \<noteq> [] \<and> snd (hd ys) then 12 + fst (hd ys) else 0), True)
     # (if ys \<noteq> [] \<and> snd (hd ys) then tl ys else ys)"

lemma do_free_joined:
  assumes h: "hinv K (xs @ (n, False) # ys) fl"
  shows "\<exists>K' fl'. do_free K (bend (vm_start K + 12) xs + 12) = Some K' \<and> vm_start K' = vm_start K
    \<and> vm_end K' = vm_end K \<and> hinv K' (free_joined xs n ys) fl'"
proof (cases "xs \<noteq> [] \<and> snd (last xs)")
  case False
  show ?thesis
  proof (cases "ys \<noteq> [] \<and> snd (hd ys)")
    case True
    then obtain m ys' where ys: "ys = (m, True) # ys'" by (cases ys) auto
    have "free_joined xs n ys = xs @ (n + 12 + m, True) # ys'" using False ys by (auto simp: free_joined_def)
    then show ?thesis using do_free_next [of K xs n m ys' fl] h False ys by auto
  next
    case nf: False
    then have "free_joined xs n ys = xs @ (n, True) # ys" using False by (auto simp: free_joined_def)
    then show ?thesis using do_free_alone [OF h] False nf by auto
  qed
next
  case True
  then obtain xs' m where xs: "xs = xs' @ [(m, True)]" by (cases xs rule: rev_cases) auto
  show ?thesis
  proof (cases "ys \<noteq> [] \<and> snd (hd ys)")
    case True
    then obtain k ys' where ys: "ys = (k, True) # ys'" by (cases ys) auto
    have "free_joined xs n ys = xs' @ (m + 24 + n + k, True) # ys'" by (simp add: free_joined_def xs ys)
    then show ?thesis using do_free_both [of K xs' m n k ys' fl] h unfolding xs ys by simp
  next
    case nf: False
    then have "free_joined xs n ys = xs' @ (m + 12 + n, True) # ys" by (auto simp: free_joined_def xs)
    then show ?thesis using do_free_previous [of K xs' m n ys fl] h nf unfolding xs by auto
  qed
qed

lemma lives_free_joined:
  "lives s (free_joined xs n ys) = lives s xs @ lives (bend s xs + 12 + n) ys"
proof -
  have "lives s (free_joined xs n (y # ys')) = lives s xs @ lives (bend s xs + 12 + n) (y # ys')" for y ys'
    by (cases y; cases xs rule: rev_cases) (auto simp: free_joined_def add.assoc)
  moreover have "lives s (free_joined xs n []) = lives s xs"
    by (cases xs rule: rev_cases) (auto simp: free_joined_def)
  ultimately show ?thesis by (cases ys) auto
qed

text \<open>The memory that callers hold, as a map from the address of each piece to its size.\<close>

definition kheap_rep :: "kheap \<Rightarrow> (nat \<rightharpoonup> nat) \<Rightarrow> bool" where
  "kheap_rep K B \<longleftrightarrow> (\<exists>bs fl. hinv K bs fl \<and> B = map_of (lives (vm_start K + 12) bs))"

text \<open>
  A request that the allocator can handle: its size is a positive \<^verbatim>\<open>int\<close> after rounding, and extending the heap by it
  does not wrap around the end of the address space.
\<close>

definition request_ok :: "kheap \<Rightarrow> nat \<Rightarrow> bool" where
  "request_ok K n \<longleftrightarrow> 0 < n \<and> n \<le> 2147483600 \<and> heap_top K + CEIL16 n + 12 < 4294967296"

lemma map_of_lives: "map_of (lives a bs) q = Some n \<longleftrightarrow> (q, n) \<in> set (lives a bs)"
  by (simp add: lives_distinct)

lemma lives_delete:
  "map_of (lives s xs @ lives (bend s xs + 12 + n) ys)
    = (map_of (lives s (xs @ (n, False) # ys)))(bend s xs + 12 := None)" (is "?l = ?r")
proof
  fix q
  have "map_of (lives s xs) (bend s xs + 12) = None" "map_of (lives (bend s xs + 12 + n) ys) (bend s xs + 12) = None"
    using lives_range [of "bend s xs + 12" _ s xs] lives_range [of "bend s xs + 12" _ "bend s xs + 12 + n" ys]
    by (fastforce simp: map_of_eq_None_iff)+
  then show "?l q = ?r q" by (auto simp: map_add_def split: option.splits)
qed

lemma lives_reused:
  assumes "r \<le> n"
  shows "\<exists>m. r \<le> m \<and> map_of (lives s (xs @ reused n r @ ys))
    = (map_of (lives s (xs @ (n, True) # ys)))(bend s xs + 12 \<mapsto> m)"
proof -
  let ?a = "bend s xs + 12"
  have no: "map_of (lives s xs) ?a = None" using lives_range [of ?a _ s xs] by (fastforce simp: map_of_eq_None_iff)
  have e: "bend s xs + 12 + r + 12 + (n - r - 12) = bend s xs + 12 + n" if "\<not> n - r < 20" using that assms by simp
  have "lives s (xs @ reused n r @ ys) = lives s xs @ (?a, if n - r < 20 then n else r) # lives (bend s xs + 12 + n) ys"
    using e by (simp add: reused_def ac_simps)
  then show ?thesis using assms no
    by (intro exI [of _ "if n - r < 20 then n else r"]) (auto simp: map_add_def fun_eq_iff split: option.splits)
qed

lemma wadd_wraps: "a < 4294967296 \<Longrightarrow> b < 4294967296 \<Longrightarrow> 4294967296 \<le> a + b \<Longrightarrow> wadd a b < a"
  by (auto simp: wadd_def mod_if)

text \<open>Without enough room the assertion on the result of \<^verbatim>\<open>ksbrk\<close> fails.\<close>

lemma malloc_extend_no_room:
  assumes "vm_end K < heap_top K + inc" and "heap_top K + inc < 4294967296"
  shows "malloc_extend K inc = None"
  using assms by (simp add: malloc_extend_def ksbrk_def do_brk_def Let_def c_assert_def)

text \<open>An extension that wraps around returns a block, and the top of the heap is below it.\<close>

lemma malloc_extend_wraps:
  assumes h: "hinv K bs fl" and inc: "0 < inc" "inc < 2147483648" "4294967296 \<le> heap_top K + inc"
  shows "\<exists>K'. malloc_extend K inc = Some (wadd (heap_top K) 12, K') \<and> heap_top K' = heap_top K + inc - 4294967296
    \<and> heap_top K' < heap_top K"
proof -
  have t: "heap_top K < 4294967296" "0 < heap_top K" "heap_top K \<le> vm_end K" using h bend_ge [of "vm_start K + 12" bs] by (auto simp: hinv_def)
  have w: "wadd (heap_top K) inc = heap_top K + inc - 4294967296" using t(1) inc by (simp add: wadd_def mod_if)
  have "wadd (heap_top K) inc < heap_top K" using wadd_wraps [OF t(1) _ inc(3)] inc(2) by simp
  moreover have "h_head K = 0 \<longleftrightarrow> bs = []" "bs \<noteq> [] \<Longrightarrow> h_tail K \<noteq> 0"
    using h hinv_nonnull [OF h] by (auto simp: hinv_def)
  ultimately show ?thesis using t inc w
    by (cases "bs = []") (auto simp: malloc_extend_def ksbrk_def do_brk_def OVERHEAD_def Let_def c_assert_def blk_access)
qed

lemma kmalloc_live:
  assumes rep: "kheap_rep K B" and sz: "request_ok K n" and run: "kmalloc K n = Some (p, K')"
  shows "B p = None \<and> (\<exists>m. n \<le> m \<and> kheap_rep K' (B(p \<mapsto> m)))"
proof -
  obtain bs fl where h: "hinv K bs fl" and B: "B = map_of (lives (vm_start K + 12) bs)"
    using rep by (auto simp: kheap_rep_def)
  let ?s = "vm_start K + 12" let ?r = "CEIL16 n"
  have n: "0 < n" "n \<le> 4294967280" using sz by (auto simp: request_ok_def)
  note c = CEIL16_ok [OF n]
  show ?thesis
  proof (cases "\<exists>m. (m, True) \<in> set bs \<and> ?r \<le> m")
    case True
    then obtain xs k ys K1 fl' where bs: "bs = xs @ (k, True) # ys" "?r \<le> k"
      and m: "do_malloc K n = Some (bend ?s xs + 12, K1)" "vm_start K1 = vm_start K"
      and h1: "hinv K1 (xs @ reused k ?r @ ys) fl'"
      using do_malloc_reuse [OF h n] by blast
    have "map_of (lives ?s bs) (bend ?s xs + 12) = None"
      using lives_range [of "bend ?s xs + 12" _ ?s xs] lives_range [of "bend ?s xs + 12" _ "bend ?s xs + 12 + k" ys]
      by (fastforce simp: map_of_eq_None_iff bs)
    moreover obtain m' where "?r \<le> m'" "map_of (lives ?s (xs @ reused k ?r @ ys)) = B(bend ?s xs + 12 \<mapsto> m')"
      using lives_reused [OF bs(2)] B bs(1) by metis
    ultimately show ?thesis
      using m run h1 c(1) B unfolding kmalloc_def kheap_rep_def by (metis Pair_inject le_trans option.inject)
  next
    case False
    then have ext: "do_malloc K n = malloc_extend K (?r + 12)" using do_malloc_extend [OF h n] by (meson not_le)
    have "heap_top K + ?r + 12 \<le> vm_end K"
      using malloc_extend_no_room [of K "?r + 12"] run ext sz by (fastforce simp: kmalloc_def request_ok_def not_le)
    then obtain K1 where m: "malloc_extend K (?r + 12) = Some (heap_top K + 12, K1)" "vm_start K1 = vm_start K"
      "hinv K1 (bs @ [(?r, False)]) fl"
      using malloc_extend_ok [OF h c(5)] c(2) sz by (auto simp: request_ok_def)
    have t: "heap_top K = bend ?s bs" using h by (simp add: hinv_def)
    have "map_of (lives ?s bs) (bend ?s bs + 12) = None"
      using lives_range [of "bend ?s bs + 12" _ ?s bs] by (fastforce simp: map_of_eq_None_iff)
    moreover from this have "map_of (lives ?s (bs @ [(?r, False)])) = B(bend ?s bs + 12 \<mapsto> ?r)"
      using B by (auto simp: map_add_def fun_eq_iff split: option.splits)
    ultimately show ?thesis
      using m run ext t c(1) B unfolding kmalloc_def kheap_rep_def by (metis Pair_inject option.inject)
  qed
qed

lemma kfree_live:
  assumes "kheap_rep K B" and "B p = Some n"
  shows "\<exists>K'. kfree K p = Some K' \<and> kheap_rep K' (B(p := None))"
proof -
  obtain bs fl where h: "hinv K bs fl" and B: "B = map_of (lives (vm_start K + 12) bs)"
    using assms(1) by (auto simp: kheap_rep_def)
  obtain xs ys where bs: "bs = xs @ (n, False) # ys" "p = bend (vm_start K + 12) xs + 12"
    using assms(2) lives_split [of p n "vm_start K + 12" bs] by (auto simp: B map_of_lives)
  show ?thesis
    using do_free_joined [of K xs n ys fl] h lives_delete [of "vm_start K + 12" xs n ys]
      lives_free_joined [of "vm_start K + 12" xs n ys]
    unfolding kfree_def kheap_rep_def B bs by metis
qed

lemma kheap_live_disjoint:
  assumes "kheap_rep K B" and "B p = Some m" and "B q = Some k" and "p \<noteq> q"
  shows "p + m \<le> q \<or> q + k \<le> p"
proof -
  obtain bs fl where B: "B = map_of (lives (vm_start K + 12) bs)" using assms(1) by (auto simp: kheap_rep_def)
  let ?s = "vm_start K + 12"
  obtain xs ys where bs: "bs = xs @ (m, False) # ys" "p = bend ?s xs + 12"
    using assms(2) lives_split [of p m ?s bs] by (auto simp: B map_of_lives)
  have "(q, k) \<in> set (lives ?s xs) \<or> (q, k) \<in> set (lives (bend ?s xs + 12 + m) ys)"
    using assms(3,4) by (auto simp: B map_of_lives bs)
  then show ?thesis
    using lives_range [of q k ?s xs] lives_range [of q k "bend ?s xs + 12 + m" ys] bs(2) by auto
qed

text \<open>
  What the rest of the kernel relies on: memory handed out is at least as large as requested,
  the pieces that are held never overlap, and whatever is held can be given back.
\<close>

locale block_allocator =
  fixes rep :: "'h \<Rightarrow> (nat \<rightharpoonup> nat) \<Rightarrow> bool" and alloc :: "'h \<Rightarrow> nat \<Rightarrow> (nat \<times> 'h) option"
    and release :: "'h \<Rightarrow> nat \<Rightarrow> 'h option" and ok :: "'h \<Rightarrow> nat \<Rightarrow> bool"
  assumes alloc_live: "rep h B \<Longrightarrow> ok h n \<Longrightarrow> alloc h n = Some (p, h') \<Longrightarrow>
      B p = None \<and> (\<exists>m. n \<le> m \<and> rep h' (B(p \<mapsto> m)))"
    and release_live: "rep h B \<Longrightarrow> B p = Some n \<Longrightarrow> \<exists>h'. release h p = Some h' \<and> rep h' (B(p := None))"
    and live_disjoint: "rep h B \<Longrightarrow> B p = Some m \<Longrightarrow> B q = Some k \<Longrightarrow> p \<noteq> q \<Longrightarrow> p + m \<le> q \<or> q + k \<le> p"

definition covers :: "(nat \<rightharpoonup> nat) \<Rightarrow> (nat \<rightharpoonup> nat) \<Rightarrow> bool" where
  "covers B A \<longleftrightarrow> dom B = dom A \<and> (\<forall>p n. A p = Some n \<longrightarrow> (\<exists>m. n \<le> m \<and> B p = Some m))"

lemma covers_upd: "covers B A \<Longrightarrow> n \<le> m \<Longrightarrow> covers (B(p \<mapsto> m)) (A(p \<mapsto> n))"
  "covers B A \<Longrightarrow> covers (B(p := None)) (A(p := None))"
  by (auto simp: covers_def)

lemma covers_None: "covers B A \<Longrightarrow> B p = None \<longleftrightarrow> A p = None"
  unfolding covers_def by (metis domIff)

context block_allocator
begin

definition holds where
  "holds h A \<longleftrightarrow> (\<exists>B. rep h B \<and> covers B A)"

lemma holds_alloc:
  assumes "holds h A" and "ok h n" and "alloc h n = Some (p, h')"
  shows "A p = None" and "holds h' (A(p \<mapsto> n))"
proof -
  obtain B where B: "rep h B" "covers B A" using assms(1) by (auto simp: holds_def)
  have "B p = None \<and> (\<exists>m. n \<le> m \<and> rep h' (B(p \<mapsto> m)))" by (rule alloc_live [OF B(1) assms(2,3)])
  then show "A p = None" "holds h' (A(p \<mapsto> n))"
    using B(2) covers_upd(1) [OF B(2)] covers_None [OF B(2)] unfolding holds_def by blast+
qed

lemma holds_release:
  assumes "holds h A" and "A p = Some n"
  shows "\<exists>h'. release h p = Some h' \<and> holds h' (A(p := None))"
proof -
  obtain B m where B: "rep h B" "covers B A" "B p = Some m"
    using assms unfolding holds_def covers_def by blast
  then show ?thesis using release_live [OF B(1,3)] covers_upd(2) [OF B(2)] unfolding holds_def by blast
qed

lemma holds_disjoint:
  assumes "holds h A" and "A p = Some m" and "A q = Some k" and "p \<noteq> q"
  shows "p + m \<le> q \<or> q + k \<le> p"
proof -
  obtain B m' k' where "rep h B" "B p = Some m'" "m \<le> m'" "B q = Some k'" "k \<le> k'"
    using assms(1-3) unfolding holds_def covers_def by blast
  then show ?thesis using live_disjoint [of h B p m' q k'] assms(4) by auto
qed

lemma alloc_release:
  assumes "holds h A" and "ok h n" and "alloc h n = Some (p, h')"
  shows "\<exists>h''. release h' p = Some h'' \<and> holds h'' A"
proof -
  have "(A(p \<mapsto> n))(p := None) = A" using holds_alloc(1) [OF assms] by auto
  then show ?thesis using holds_release [OF holds_alloc(2) [OF assms], of p n] by simp
qed

end

interpretation kh: block_allocator kheap_rep kmalloc kfree request_ok
  by unfold_locales (use kmalloc_live kfree_live kheap_live_disjoint in blast)+

text \<open>Everything that a sequence of calls of \<^verbatim>\<open>kmalloc\<close> and \<^verbatim>\<open>kfree\<close> can reach, with what is held.\<close>

inductive kheap_reach :: "nat \<Rightarrow> nat \<Rightarrow> kheap \<Rightarrow> (nat \<rightharpoonup> nat) \<Rightarrow> bool" for heap_start heap_end where
  init: "0 < heap_start \<Longrightarrow> heap_start + 12 \<le> heap_end \<Longrightarrow> heap_end < 4294967296 \<Longrightarrow>
    kheap_reach heap_start heap_end (kheap_init K heap_start heap_end) Map.empty"
| malloc: "kheap_reach heap_start heap_end K A \<Longrightarrow> request_ok K n \<Longrightarrow> kmalloc K n = Some (p, K') \<Longrightarrow>
    kheap_reach heap_start heap_end K' (A(p \<mapsto> n))"
| free: "kheap_reach heap_start heap_end K A \<Longrightarrow> A p = Some n \<Longrightarrow> kfree K p = Some K' \<Longrightarrow>
    kheap_reach heap_start heap_end K' (A(p := None))"

lemma kheap_init_rep:
  assumes "0 < heap_start" and "heap_start + 12 \<le> heap_end" and "heap_end < 4294967296"
  shows "kheap_rep (kheap_init K heap_start heap_end) Map.empty"
proof -
  have "hinv (kheap_init K heap_start heap_end) [] []"
    using assms by (simp add: hinv_def kheap_init_def)
  then show ?thesis unfolding kheap_rep_def by fastforce
qed

lemma kheap_reach_holds: "kheap_reach s e K A \<Longrightarrow> kh.holds K A"
proof (induction rule: kheap_reach.induct)
  case (init K)
  then show ?case using kheap_init_rep unfolding kh.holds_def covers_def by blast
next
  case (malloc K A n p K')
  then show ?case using kh.holds_alloc(2) by blast
next
  case (free K A p n K')
  then show ?case using kh.holds_release [OF free.IH free.hyps(2)] by (metis option.inject)
qed

lemma kheap_reach_inside:
  assumes "kh.holds K A" and "A p = Some n"
  shows "vm_start K + 24 \<le> p" and "p + n \<le> heap_top K" and "heap_top K \<le> vm_end K"
proof -
  obtain bs fl m where h: "hinv K bs fl" "map_of (lives (vm_start K + 12) bs) p = Some m" "n \<le> m"
    using assms unfolding kh.holds_def covers_def kheap_rep_def by blast
  have "vm_start K + 12 + 12 \<le> p \<and> p + m \<le> bend (vm_start K + 12) bs"
    using lives_range [of p m "vm_start K + 12" bs] h(2) by (simp add: map_of_lives)
  then show "vm_start K + 24 \<le> p" "p + n \<le> heap_top K" "heap_top K \<le> vm_end K"
    using h(1,3) by (auto simp: hinv_def)
qed

section \<open>Properties\<close>

text \<open>
  C1. Whatever sequence of \<^verbatim>\<open>kmalloc\<close> and \<^verbatim>\<open>kfree\<close> runs on the initialised heap, each piece of memory
  that is held lies inside the heap behind the control words, has the requested size, and
  overlaps no other piece that is held; and giving it back succeeds. The requests are those for which the top of the heap does not wrap around.
\<close>

theorem kheap_held_safe:
  assumes "kheap_reach heap_start heap_end K A" and "A p = Some n"
  shows "vm_start K + 24 \<le> p \<and> p + n \<le> heap_top K \<and> heap_top K \<le> vm_end K
    \<and> (\<forall>q k. A q = Some k \<longrightarrow> q = p \<or> p + n \<le> q \<or> q + k \<le> p)
    \<and> (\<exists>K'. kfree K p = Some K' \<and> kheap_reach heap_start heap_end K' (A(p := None)))"
proof -
  note h = kheap_reach_holds [OF assms(1)]
  obtain K' where "kfree K p = Some K'" using kh.holds_release [OF h assms(2)] by blast
  then have "\<exists>K'. kfree K p = Some K' \<and> kheap_reach heap_start heap_end K' (A(p := None))"
    using kheap_reach.free [OF assms] by blast
  then show ?thesis using kheap_reach_inside [OF h assms(2)] kh.holds_disjoint [OF h assms(2)] by blast
qed

definition sample_heap :: kheap where
  "sample_heap = \<lparr>vm_start = 0, vm_end = 0, heap_top = 0, h_head = 0, h_tail = 0, h_freelist = 0,
     h_blk = (\<lambda>_. \<lparr>b_size = 0, b_nextfree = 0, b_next = 0\<rparr>), h_pages = []\<rparr>"

lemma sample_malloc: "\<exists>K'. kmalloc (kheap_init sample_heap 0xD0000000 0xF0000000) 100 = Some (0xD0000018, K')"
  by (simp add: kmalloc_def do_malloc_def CEIL16_def OVERHEAD_def block_find_best_fitting_def malloc_extend_def
      ksbrk_def do_brk_def kheap_init_def sample_heap_def Let_def c_assert_def upd_blk_def)

theorem kheap_held_safe_witness:
  "\<exists>K. kheap_reach 0xD0000000 0xF0000000 K [0xD0000018 \<mapsto> 100] \<and> 0xD0000018 + 100 \<le> heap_top K"
proof -
  obtain K' where K': "kmalloc (kheap_init sample_heap 0xD0000000 0xF0000000) 100 = Some (0xD0000018, K')"
    using sample_malloc by blast
  have "kheap_reach 0xD0000000 0xF0000000 (kheap_init sample_heap 0xD0000000 0xF0000000) Map.empty"
    by (rule kheap_reach.init) simp_all
  from kheap_reach.malloc [OF this _ K'] have r: "kheap_reach 0xD0000000 0xF0000000 K' [0xD0000018 \<mapsto> 100]"
    by (simp add: request_ok_def CEIL16_def kheap_init_def)
  then show ?thesis using kheap_held_safe [OF r, of "0xD0000018" 100] by auto
qed

text \<open>
  C12. \<^verbatim>\<open>kmalloc\<close> takes the smallest free block that is large enough (splitting it when at least 8 bytes
  besides a header would be left), extends the heap when no free block is large enough and
  there is room, and fails its assertion when there is none. All other blocks stay as they are. When the new top of the heap
  wraps around the end of the address space the assertion does not fail: a block is returned that lies above the new top.
\<close>

theorem kmalloc_best_fit:
  assumes "hinv K bs fl" and "0 < n" and "n \<le> 2147483600"
  shows "if \<exists>m. (m, True) \<in> set bs \<and> CEIL16 n \<le> m
    then \<exists>xs k ys K' fl'. bs = xs @ (k, True) # ys \<and> CEIL16 n \<le> k
      \<and> (\<forall>j. (j, True) \<in> set bs \<longrightarrow> CEIL16 n \<le> j \<longrightarrow> k \<le> j)
      \<and> kmalloc K n = Some (bend (vm_start K + 12) xs + 12, K') \<and> hinv K' (xs @ reused k (CEIL16 n) @ ys) fl'
    else if heap_top K + CEIL16 n + 12 \<le> vm_end K
    then \<exists>K'. kmalloc K n = Some (heap_top K + 12, K') \<and> hinv K' (bs @ [(CEIL16 n, False)]) fl
    else if heap_top K + CEIL16 n + 12 < 4294967296 then kmalloc K n = None
    else \<exists>K'. kmalloc K n = Some (wadd (heap_top K) 12, K') \<and> heap_top K' = heap_top K + CEIL16 n + 12 - 4294967296
      \<and> heap_top K' < heap_top K"
proof -
  have n: "n \<le> 4294967280" using assms(3) by simp
  note c = CEIL16_ok [OF assms(2) n]
  have ext: "kmalloc K n = malloc_extend K (CEIL16 n + 12)" if "\<not> (\<exists>m. (m, True) \<in> set bs \<and> CEIL16 n \<le> m)"
    unfolding kmalloc_def using do_malloc_extend [OF assms(1,2) n] that by (meson not_le)
  have none: "malloc_extend K (CEIL16 n + 12) = None" if "\<not> heap_top K + CEIL16 n + 12 \<le> vm_end K" "heap_top K + CEIL16 n + 12 < 4294967296"
    using malloc_extend_no_room [of K "CEIL16 n + 12"] that by (simp add: not_le add.assoc)
  have r: "CEIL16 n + 12 < 2147483648" using c(2) assms(3) by simp
  show ?thesis
  proof (cases "\<exists>m. (m, True) \<in> set bs \<and> CEIL16 n \<le> m")
    case True
    then obtain m where "(m, True) \<in> set bs" "CEIL16 n \<le> m" by blast
    then show ?thesis
      unfolding if_P [OF True] kmalloc_def using do_malloc_reuse [OF assms(1,2) n, of m] by blast
  next
    case False
    show ?thesis
      unfolding if_not_P [OF False] ext [OF False] using none malloc_extend_ok [OF assms(1) c(5) r] malloc_extend_wraps [OF assms(1) _ r]
      by (auto simp: add.assoc not_le)
  qed
qed

theorem kmalloc_best_fit_witness:
  "(\<exists>K'. kmalloc (kheap_init sample_heap 0xD0000000 0xF0000000) 100 = Some (0xD0000018, K') \<and> hinv K' [(112, False)] [])
   \<and> kmalloc (kheap_init sample_heap 0xD0000000 0xF0000000) 0x20000000 = None
   \<and> (\<exists>K'. kmalloc (kheap_init sample_heap 0xD0000000 0xF0000000) 0x40000000 = Some (0xD0000018, K') \<and> heap_top K' = 0x10000018)"
proof -
  have h: "hinv (kheap_init sample_heap 0xD0000000 0xF0000000) [] []" by (simp add: hinv_def kheap_init_def)
  show ?thesis using kmalloc_best_fit [OF h, of 100] kmalloc_best_fit [OF h, of "0x20000000"] kmalloc_best_fit [OF h, of "0x40000000"]
    by (auto simp: CEIL16_def kheap_init_def)
qed

text \<open>
  C23. \<^verbatim>\<open>kfree\<close> of an allocated block succeeds and joins it with the free blocks before and behind
  it, in all four cases, so that no two free blocks are adjacent afterwards; every other
  block keeps its place and its size.
\<close>

theorem kfree_joins_neighbours:
  assumes "hinv K (xs @ (n, False) # ys) fl"
  shows "\<exists>K' fl'. kfree K (bend (vm_start K + 12) xs + 12) = Some K' \<and> hinv K' (free_joined xs n ys) fl'
    \<and> no_adjacent_free (free_joined xs n ys)"
  using do_free_joined [OF assms] unfolding kfree_def by (auto simp: hinv_def)

theorem kfree_joins_neighbours_witness:
  "\<exists>K K' fl'. kmalloc (kheap_init sample_heap 0xD0000000 0xF0000000) 100 = Some (0xD0000018, K)
    \<and> kfree K 0xD0000018 = Some K' \<and> hinv K' [(112, True)] fl'"
proof -
  let ?K = "kheap_init sample_heap 0xD0000000 0xF0000000"
  have "hinv ?K [] []" by (simp add: hinv_def kheap_init_def)
  from malloc_extend_ok [OF this, of 112] do_malloc_extend [OF this, of 100]
  obtain K where K: "kmalloc ?K 100 = Some (0xD0000018, K)" "vm_start K = 0xD0000000" "hinv K [(112, False)] []"
    by (auto simp: kmalloc_def CEIL16_def kheap_init_def)
  then show ?thesis using kfree_joins_neighbours [of K "[]" 112 "[]" "[]"] by (auto simp: free_joined_def)
qed

text \<open>
  C24. \<^verbatim>\<open>ksbrk\<close> does not notice that the new boundary wraps around the address space: for an increment that is a positive \<^verbatim>\<open>int\<close>
  (below \<open>2^31\<close>) and takes the top of the heap to \<open>2^32\<close> or above, it reports
  success, maps no page for the block it returns and moves the top of the heap downwards.
\<close>

theorem ksbrk_wraps:
  assumes "0 < inc" and "inc < 2147483648" and "heap_top K < 4294967296" and "4294967296 \<le> heap_top K + inc"
    and "heap_top K \<le> vm_end K" and "heap_top K \<le> 4294963200"
  shows "fst (ksbrk K inc) = heap_top K \<and> heap_top (snd (ksbrk K inc)) < heap_top K
    \<and> h_pages (snd (ksbrk K inc)) = h_pages K"
proof -
  let ?w = "heap_top K + inc - 4294967296"
  have w: "wadd (heap_top K) inc = ?w" using assms by (simp add: wadd_def mod_if)
  have "ALIGN_UP_PAGE ?w \<le> ALIGN_UP_PAGE (heap_top K)"
    using assms by (simp add: ALIGN_UP_PAGE_def div_le_mono)
  moreover have "?w < heap_top K" "?w \<le> vm_end K" using assms by linarith+
  ultimately show ?thesis using assms w by (simp add: ksbrk_def do_brk_def Let_def)
qed

theorem ksbrk_wraps_witness:
  "fst (ksbrk (kheap_init sample_heap 0xD0000000 0xF0000000) 0x40000000) = 0xD000000C
    \<and> heap_top (snd (ksbrk (kheap_init sample_heap 0xD0000000 0xF0000000) 0x40000000)) < 0xD000000C"
  using ksbrk_wraps [of "0x40000000" "kheap_init sample_heap 0xD0000000 0xF0000000"]
  by (simp add: kheap_init_def)

end
