(* ===== verification/Task.thy ===== *)
theory Task
  imports Bitops Ring_Buffer
begin

text \<open>
  The data of processes: the registers saved for a process (\<^verbatim>\<open>include/arch/i386/regs.h\<close>), signal sets
  and actions (\<^verbatim>\<open>include/kernel/system/signal.h\<close>), the scheduling data and the \<^verbatim>\<open>task_struct\<close> of
  \<^verbatim>\<open>include/kernel/process/task.h\<close>, the run queue (\<^verbatim>\<open>include/kernel/process/scheduler.h\<close>), and the
  kernel state that the scheduler and the signal code share.

  Tasks live at addresses; a freed task is not mapped. The intrusive lists that link tasks (the run
  queue, the children of a task, the queue of stopped tasks, the queue of pending signals) are
  lists of addresses or entries in the order of their links: linking an entry before the head of a list
  appends it, and removing an entry that is not linked changes nothing, as the operations of
  \<open>List_Head\<close> do.
\<close>

section \<open>Registers\<close>

record pt_regs =
  r_gs :: u32
  r_fs :: u32
  r_es :: u32
  r_ds :: u32
  r_edi :: u32
  r_esi :: u32
  r_ebp :: u32
  r_esp :: u32
  r_ebx :: u32
  r_edx :: u32
  r_ecx :: u32
  r_eax :: u32
  r_int_no :: u32
  r_err_code :: u32
  r_eip :: u32
  r_cs :: u32
  r_eflags :: u32
  r_useresp :: u32
  r_ss :: u32

section \<open>Signals\<close>

definition SIGHUP :: int where "SIGHUP = 1"
definition SIGQUIT :: int where "SIGQUIT = 3"
definition SIGILL :: int where "SIGILL = 4"
definition SIGTRAP :: int where "SIGTRAP = 5"
definition SIGABRT :: int where "SIGABRT = 6"
definition SIGCHLD :: int where "SIGCHLD = 18"
definition SIGWINCH :: int where "SIGWINCH = 20"
definition SIGURG :: int where "SIGURG = 21"
definition SIGSTOP :: int where "SIGSTOP = 23"
definition SIGTSTP :: int where "SIGTSTP = 24"
definition SIGCONT :: int where "SIGCONT = 25"
definition SIGTTIN :: int where "SIGTTIN = 26"
definition SIGTTOU :: int where "SIGTTOU = 27"
definition NSIG :: int where "NSIG = 32"

lemmas signal_numbers = SIGHUP_def SIGQUIT_def SIGILL_def SIGTRAP_def SIGABRT_def SIGCHLD_def SIGWINCH_def
  SIGURG_def SIGSTOP_def SIGTSTP_def SIGCONT_def SIGTTIN_def SIGTTOU_def NSIG_def

definition SI_USER :: u32 where "SI_USER = 1"
definition SI_KERNEL :: u32 where "SI_KERNEL = 2"

definition SA_NOCLDSTOP :: u32 where "SA_NOCLDSTOP = 0x00000001"
definition SA_SIGINFO :: u32 where "SA_SIGINFO = 0x00000004"
definition SA_NODEFER :: u32 where "SA_NODEFER = 0x40000000"
definition SA_RESETHAND :: u32 where "SA_RESETHAND = 0x80000000"

text \<open>Handlers are addresses of user code; the first two are special.\<close>

definition SIG_DFL :: u32 where "SIG_DFL = 0"
definition SIG_IGN :: u32 where "SIG_IGN = 1"
definition SIG_ERR :: u32 where "SIG_ERR = - 1"

definition SIG_BLOCK :: int where "SIG_BLOCK = 0"
definition SIG_UNBLOCK :: int where "SIG_UNBLOCK = 1"
definition SIG_SETMASK :: int where "SIG_SETMASK = 2"

text \<open>The two words of \<^verbatim>\<open>sig\<close>.\<close>

record sigset_t =
  sig0 :: u32
  sig1 :: u32

record sigaction_t =
  sa_handler :: u32
  sa_mask :: sigset_t
  sa_flags :: u32

record siginfo_t =
  si_signo :: int
  si_code :: u32
  si_value :: u32
  si_errno :: u32
  si_pid :: int
  si_uid :: int
  si_addr :: addr
  si_status :: u32
  si_band :: u32

text \<open>The queue of pending signals and the set of their numbers.\<close>

record sigpending_t =
  sp_list :: "siginfo_t list"
  sp_signal :: sigset_t

record sighand_t =
  action :: "sigaction_t list"
  siglock :: bool

section \<open>Scheduling data\<close>

text \<open>The utilization factor, a floating point number that only the disabled policies read, is left out.\<close>

record sched_entity_t =
  se_prio :: int
  start_runtime :: u32
  exec_start :: u32
  exec_runtime :: u32
  sum_exec_runtime :: u32
  vruntime :: u32
  period :: u32
  deadline :: u32
  arrivaltime :: u32
  executed :: bool
  is_periodic :: bool
  is_under_analysis :: bool
  next_period :: u32
  worst_case_exec :: u32

record sched_param_t =
  sp_sched_priority :: int
  sp_period :: u32
  sp_deadline :: u32
  sp_arrivaltime :: u32
  sp_is_periodic :: bool

definition TASK_RUNNING :: int where "TASK_RUNNING = 0"
definition TASK_INTERRUPTIBLE :: int where "TASK_INTERRUPTIBLE = 1"
definition TASK_UNINTERRUPTIBLE :: int where "TASK_UNINTERRUPTIBLE = 2"
definition TASK_STOPPED :: int where "TASK_STOPPED = 4"
definition EXIT_ZOMBIE :: int where "EXIT_ZOMBIE = 16"
definition EXIT_DEAD :: int where "EXIT_DEAD = 32"

lemmas task_states = TASK_RUNNING_def TASK_INTERRUPTIBLE_def TASK_UNINTERRUPTIBLE_def TASK_STOPPED_def
  EXIT_ZOMBIE_def EXIT_DEAD_def

text \<open>The default options of a terminal: the control characters and the speeds are never read.\<close>

record termios_t =
  c_iflag :: u32
  c_oflag :: u32
  c_cflag :: u32
  c_lflag :: u32

definition ISIG :: u32 where "ISIG = 0x80"
definition ICANON :: u32 where "ICANON = 0x100"
definition ECHO :: u32 where "ECHO = 0x8"
definition ECHOE :: u32 where "ECHOE = 0x2"
definition ECHOK :: u32 where "ECHOK = 0x4"
definition ECHONL :: u32 where "ECHONL = 0x10"

text \<open>
  The table of the file descriptors of a task (\<^verbatim>\<open>fd_list\<close>, \<^verbatim>\<open>max_fd\<close>) is in \<open>Vfs\<close>; the saved registers of the floating
  point unit are left out.
\<close>

record task_struct =
  t_pid :: int
  t_sid :: int
  t_pgid :: int
  t_gid :: int
  t_uid :: int
  t_state :: int
  t_parent :: addr
  t_children :: "addr list"
  t_regs :: pt_regs
  t_signal_regs :: pt_regs
  t_se :: sched_entity_t
  t_exit_code :: u32
  t_name :: string
  t_mm :: addr
  t_error_no :: int
  t_cwd :: string
  t_sigreturn_addr :: u32
  t_sighand :: sighand_t
  t_blocked :: sigset_t
  t_real_blocked :: sigset_t
  t_saved_sigmask :: sigset_t
  t_pending :: sigpending_t
  t_real_timer :: addr
  it_real_incr :: u32
  it_real_value :: u32
  it_virt_incr :: u32
  it_virt_value :: u32
  it_prof_incr :: u32
  it_prof_value :: u32
  t_termios :: termios_t
  t_keyboard_rb :: "int fs_rb"

section \<open>The kernel state\<close>

text \<open>
  Calls into the memory management and the file system are recorded in the order in which they
  happen. \<open>k_no_memory\<close> says whether \<^verbatim>\<open>kmalloc\<close> returns the null pointer, \<open>k_pgd\<close> is the field \<^verbatim>\<open>pgd\<close>
  of each memory descriptor, and \<open>k_umem\<close> the words of the memory of the current process.
\<close>

datatype kcall =
    Vfs_init_task addr
  | Vfs_dup_task addr addr
  | Vfs_destroy_task addr
  | Mmu_destroy_process_image addr
  | Vmm_switch_directory addr

record kernel =
  k_tasks :: "addr \<rightharpoonup> task_struct"
  k_queue :: "addr list"
  k_curr :: addr
  num_active :: u32
  num_periodic :: u32
  k_tid :: u32
  k_stopped :: "addr list"
  k_ticks :: u32
  k_pgd :: "addr \<Rightarrow> addr"
  k_umem :: "addr \<Rightarrow> u32"
  k_errno :: int
  k_no_memory :: bool
  k_calls :: "kcall list"

definition get_task :: "kernel \<Rightarrow> addr \<Rightarrow> task_struct option" where
  "get_task K a = (if a = NULL then None else k_tasks K a)"

definition upd_task :: "kernel \<Rightarrow> addr \<Rightarrow> (task_struct \<Rightarrow> task_struct) \<Rightarrow> kernel option" where
  "upd_task K a f = do {
     t \<leftarrow> get_task K a;
     Some (K\<lparr>k_tasks := (k_tasks K)(a \<mapsto> f t)\<rparr>)
   }"

definition log_call :: "kernel \<Rightarrow> kcall \<Rightarrow> kernel" where
  "log_call K c = K\<lparr>k_calls := k_calls K @ [c]\<rparr>"

section \<open>Error numbers\<close>

definition EPERM :: int where "EPERM = 1"
definition ESRCH :: int where "ESRCH = 3"
definition ECHILD :: int where "ECHILD = 10"
definition EAGAIN :: int where "EAGAIN = 11"
definition EFAULT :: int where "EFAULT = 14"
definition EINVAL :: int where "EINVAL = 22"

lemmas errno_defs = EPERM_def ESRCH_def ECHILD_def EAGAIN_def EFAULT_def EINVAL_def

section \<open>Reading and writing tasks\<close>

lemma get_task_eq: "get_task K a = Some t \<longleftrightarrow> a \<noteq> NULL \<and> k_tasks K a = Some t"
  by (simp add: get_task_def)

lemma upd_task_eq: "get_task K a = Some t \<Longrightarrow> upd_task K a f = Some (K\<lparr>k_tasks := (k_tasks K)(a \<mapsto> f t)\<rparr>)"
  by (simp add: upd_task_def)

lemma get_task_upd [simp]:
  "get_task (K\<lparr>k_tasks := (k_tasks K)(a \<mapsto> t)\<rparr>) b = (if b = a \<and> a \<noteq> NULL then Some t else get_task K b)"
  by (simp add: get_task_def)

lemma get_task_other [simp]:
  "get_task (K\<lparr>k_queue := q\<rparr>) a = get_task K a" "get_task (K\<lparr>k_curr := c\<rparr>) a = get_task K a"
  "get_task (K\<lparr>num_active := n\<rparr>) a = get_task K a" "get_task (K\<lparr>num_periodic := n\<rparr>) a = get_task K a"
  "get_task (log_call K call) a = get_task K a" "get_task (K\<lparr>k_stopped := s\<rparr>) a = get_task K a"
  "get_task (K\<lparr>k_errno := e\<rparr>) a = get_task K a" "get_task (K\<lparr>k_umem := m\<rparr>) a = get_task K a"
  by (simp_all add: get_task_def log_call_def)

end
