(* ===== verification/Sched.thy ===== *)
theory Sched
  imports Task
begin

text \<open>
  The scheduler: the run queue and the process system calls of \<^verbatim>\<open>src/kernel/process/scheduler.c\<close> that do not
  involve signals, the round robin policy of \<^verbatim>\<open>src/kernel/process/sched_algo.c\<close> (the policy that is
  compiled: no macro selects another one), the wait queues of \<^verbatim>\<open>src/kernel/process/wait.c\<close> and the
  priorities of \<^verbatim>\<open>include/kernel/process/prio.h\<close>.
\<close>

section \<open>Priorities\<close>

definition MAX_NICE :: int where "MAX_NICE = 19"
definition MIN_NICE :: int where "MIN_NICE = - 20"
definition NICE_WIDTH :: int where "NICE_WIDTH = MAX_NICE - MIN_NICE + 1"
definition MAX_RT_PRIO :: int where "MAX_RT_PRIO = 100"
definition MAX_PRIO :: int where "MAX_PRIO = MAX_RT_PRIO + NICE_WIDTH"
definition DEFAULT_PRIO :: int where "DEFAULT_PRIO = MAX_RT_PRIO + NICE_WIDTH div 2"
definition NICE_TO_PRIO :: "int \<Rightarrow> int" where "NICE_TO_PRIO n = n + DEFAULT_PRIO"
definition PRIO_TO_NICE :: "int \<Rightarrow> int" where "PRIO_TO_NICE p = p - DEFAULT_PRIO"
definition USER_PRIO :: "int \<Rightarrow> int" where "USER_PRIO p = p - MAX_RT_PRIO"

definition prio_to_weight :: "int list" where
  "prio_to_weight =
    [88761, 71755, 56483, 46273, 36291, 29154, 23254, 18705, 14949, 11916, 9548, 7620, 6100, 4904, 3906,
     3121, 2501, 1991, 1586, 1277, 1024, 820, 655, 526, 423, 335, 272, 215, 172, 137, 110, 87, 70, 56, 45,
     36, 29, 23, 18, 15]"

definition GET_WEIGHT :: "int \<Rightarrow> int option" where
  "GET_WEIGHT p = (let i = USER_PRIO p in
     if 0 \<le> i \<and> i < int (length prio_to_weight) then Some (prio_to_weight ! nat i) else None)"

lemmas prio_defs = MAX_NICE_def MIN_NICE_def NICE_WIDTH_def MAX_RT_PRIO_def MAX_PRIO_def DEFAULT_PRIO_def
  NICE_TO_PRIO_def PRIO_TO_NICE_def USER_PRIO_def

section \<open>The run queue\<close>

definition scheduler_init :: "kernel \<Rightarrow> kernel" where
  "scheduler_init K = K\<lparr>k_queue := [], k_curr := NULL, num_active := 0\<rparr>"

definition scheduler_getpid :: "kernel \<Rightarrow> u32 \<times> kernel" where
  "scheduler_getpid K = (k_tid K, K\<lparr>k_tid := k_tid K + 1\<rparr>)"

definition scheduler_get_current_process :: "kernel \<Rightarrow> addr" where
  "scheduler_get_current_process K = k_curr K"

definition scheduler_get_active_processes :: "kernel \<Rightarrow> u32" where
  "scheduler_get_active_processes K = num_active K"

text \<open>The tasks of the run queue are read one after the other.\<close>

fun max_vruntime :: "kernel \<Rightarrow> addr list \<Rightarrow> u32 \<Rightarrow> u32 option" where
  "max_vruntime K [] v = Some v"
| "max_vruntime K (a # as) v = do {
     e \<leftarrow> get_task K a;
     if is_periodic (t_se e) \<and> \<not> is_under_analysis (t_se e) then max_vruntime K as v
     else max_vruntime K as (if vruntime (t_se e) > v then vruntime (t_se e) else v)
   }"

definition scheduler_get_maximum_vruntime :: "kernel \<Rightarrow> u32 option" where
  "scheduler_get_maximum_vruntime K = max_vruntime K (k_queue K) 0"

fun find_task :: "kernel \<Rightarrow> (task_struct \<Rightarrow> bool) \<Rightarrow> addr list \<Rightarrow> addr option" where
  "find_task K P [] = Some NULL"
| "find_task K P (a # as) = do {
     e \<leftarrow> get_task K a;
     if P e then Some a else find_task K P as
   }"

definition scheduler_get_running_process :: "kernel \<Rightarrow> int \<Rightarrow> addr option" where
  "scheduler_get_running_process K pid = find_task K (\<lambda>e. t_pid e = pid) (k_queue K)"

definition scheduler_enqueue_task :: "kernel \<Rightarrow> addr \<Rightarrow> kernel" where
  "scheduler_enqueue_task K process =
     (let K = (if k_curr K = NULL then K\<lparr>k_curr := process\<rparr> else K);
          K = K\<lparr>k_queue := k_queue K @ [process]\<rparr>
      in K\<lparr>num_active := num_active K + 1\<rparr>)"

definition scheduler_dequeue_task :: "kernel \<Rightarrow> addr \<Rightarrow> kernel option" where
  "scheduler_dequeue_task K process = do {
     let K = K\<lparr>k_queue := remove1 process (k_queue K)\<rparr>;
     let K = K\<lparr>num_active := num_active K - 1\<rparr>;
     t \<leftarrow> get_task K process;
     Some (if is_periodic (t_se t) then K\<lparr>num_periodic := num_periodic K - 1\<rparr> else K)
   }"

definition scheduler_store_context :: "kernel \<Rightarrow> pt_regs \<Rightarrow> addr \<Rightarrow> kernel option" where
  "scheduler_store_context K f process = upd_task K process (\<lambda>t. t\<lparr>t_regs := f\<rparr>)"

definition scheduler_restore_context :: "kernel \<Rightarrow> addr \<Rightarrow> (kernel \<times> pt_regs) option" where
  "scheduler_restore_context K process = do {
     let K = K\<lparr>k_curr := process\<rparr>;
     t \<leftarrow> get_task K process;
     c_assert (t_mm t \<noteq> NULL);
     Some (log_call K (Vmm_switch_directory (k_pgd K (t_mm t))), t_regs t)
   }"

text \<open>The stack of the task segment is set and user mode is entered afterwards.\<close>

definition scheduler_enter_user_jmp :: "kernel \<Rightarrow> kernel option" where
  "scheduler_enter_user_jmp K = do {
     K \<leftarrow> upd_task K (k_curr K) (\<lambda>t. t\<lparr>t_se := (t_se t)\<lparr>start_runtime := k_ticks K\<rparr>\<rparr>);
     upd_task K (k_curr K) (\<lambda>t. t\<lparr>t_se := (t_se t)\<lparr>exec_start := k_ticks K\<rparr>\<rparr>)
   }"

section \<open>Round robin\<close>

definition is_periodic_task :: "task_struct \<Rightarrow> bool" where
  "is_periodic_task t \<longleftrightarrow> is_periodic (t_se t) \<and> \<not> is_under_analysis (t_se t)"

text \<open>
  The tasks met when the ring of the run queue is followed from the task \<open>c\<close> until it comes
  back to it; the head of the queue, which is also on the ring, is skipped. A task that is not
  on the run queue is alone on its ring.
\<close>

definition ring_from :: "addr list \<Rightarrow> addr \<Rightarrow> addr list" where
  "ring_from q c = (if c \<in> set q then tl (dropWhile (\<lambda>x. x \<noteq> c) q) @ takeWhile (\<lambda>x. x \<noteq> c) q else [])"

text \<open>The number of other nodes on the ring: the other tasks and the head of the queue.\<close>

definition ring_size :: "addr list \<Rightarrow> addr \<Rightarrow> nat" where
  "ring_size q c = (if c \<in> set q then length (ring_from q c) + 1 else 0)"

definition scheduler_rr :: "kernel \<Rightarrow> bool \<Rightarrow> addr option" where
  "scheduler_rr K skip_periodic = do {
     c \<leftarrow> get_task K (k_curr K);
     if ring_size (k_queue K) (k_curr K) \<le> 1 then Some (k_curr K)
     else find_task K (\<lambda>e. t_state e = TASK_RUNNING \<and> \<not> (is_periodic_task e \<and> skip_periodic))
            (ring_from (k_queue K) (k_curr K))
   }"

text \<open>Without a policy that needs them, no statistics are updated.\<close>

definition update_task_statistics :: "kernel \<Rightarrow> addr \<Rightarrow> kernel" where
  "update_task_statistics K task = K"

definition scheduler_pick_next_task :: "kernel \<Rightarrow> (addr \<times> kernel) option" where
  "scheduler_pick_next_task K = do {
     let K = update_task_statistics K (k_curr K);
     next \<leftarrow> scheduler_rr K False;
     c_assert (next \<noteq> NULL);
     K \<leftarrow> upd_task K next (\<lambda>t. t\<lparr>t_se := (t_se t)\<lparr>exec_start := k_ticks K\<rparr>\<rparr>);
     Some (next, K)
   }"

section \<open>Wait queues\<close>

definition try_to_wake_up :: "kernel \<Rightarrow> addr \<Rightarrow> (int \<times> kernel) option" where
  "try_to_wake_up K process = do {
     t \<leftarrow> get_task K process;
     if t_state t = TASK_UNINTERRUPTIBLE \<or> t_state t = TASK_STOPPED then do {
       K \<leftarrow> upd_task K process (\<lambda>t. t\<lparr>t_state := TASK_RUNNING\<rparr>);
       Some (1, K)
     }
     else Some (0, K)
   }"

definition default_wake_function :: "kernel \<Rightarrow> addr \<Rightarrow> (int \<times> kernel) option" where
  "default_wake_function K p = try_to_wake_up K p"

text \<open>An entry of a wait queue is represented by its task; \<^verbatim>\<open>func\<close> is always the default wake function.\<close>

definition init_waitqueue_entry :: "addr \<Rightarrow> addr" where
  "init_waitqueue_entry task = task"

definition add_wait_queue :: "addr list \<Rightarrow> addr \<Rightarrow> addr list" where
  "add_wait_queue wq entry = wq @ [entry]"

definition remove_wait_queue :: "addr list \<Rightarrow> addr \<Rightarrow> addr list" where
  "remove_wait_queue wq entry = remove1 entry wq"

text \<open>\<^verbatim>\<open>sleep_on\<close> for the queue of the stopped tasks.\<close>

definition sleep_on_stopped :: "kernel \<Rightarrow> kernel option" where
  "sleep_on_stopped K = do {
     let sleeping_task = scheduler_get_current_process K;
     K \<leftarrow> upd_task K sleeping_task (\<lambda>t. t\<lparr>t_state := TASK_UNINTERRUPTIBLE\<rparr>);
     c_assert (\<not> k_no_memory K);
     Some (K\<lparr>k_stopped := add_wait_queue (k_stopped K) (init_waitqueue_entry sleeping_task)\<rparr>)
   }"

section \<open>Process system calls\<close>

definition is_orphaned_pgrp :: "kernel \<Rightarrow> int \<Rightarrow> bool option" where
  "is_orphaned_pgrp K pgid = do {
     member \<leftarrow> find_task K (\<lambda>t. t_pgid t = pgid) (k_queue K);
     sid \<leftarrow> (if member = NULL then Some 0 else map_option t_sid (get_task K member));
     leader \<leftarrow> find_task K (\<lambda>t. t_pid t = sid) (k_queue K);
     Some (leader = NULL)
   }"

definition sys_getpid :: "kernel \<Rightarrow> int option" where
  "sys_getpid K = map_option t_pid (get_task K (k_curr K))"

definition sys_getsid :: "kernel \<Rightarrow> int \<Rightarrow> int option" where
  "sys_getsid K pid =
     (if pid = 0 then map_option t_sid (get_task K (k_curr K))
      else do {
        a \<leftarrow> find_task K (\<lambda>t. t_pid t = pid) (k_queue K);
        if a = NULL then Some (- ESRCH)
        else do {
          t \<leftarrow> get_task K a;
          c \<leftarrow> get_task K (k_curr K);
          Some (if t_sid c \<noteq> t_sid t then - EPERM else t_sid t)
        }
      })"

definition sys_setsid :: "kernel \<Rightarrow> (int \<times> kernel) option" where
  "sys_setsid K = do {
     t \<leftarrow> get_task K (k_curr K);
     if t_sid t = t_pid t then Some (- EPERM, K)
     else do {
       K \<leftarrow> upd_task K (k_curr K) (\<lambda>t. t\<lparr>t_sid := t_pid t, t_pgid := t_pid t\<rparr>);
       Some (t_pid t, K)
     }
   }"

definition pid_or_current :: "kernel \<Rightarrow> int \<Rightarrow> addr option" where
  "pid_or_current K pid = (if pid = 0 then Some (k_curr K) else scheduler_get_running_process K pid)"

definition sys_getpgid :: "kernel \<Rightarrow> int \<Rightarrow> int option" where
  "sys_getpgid K pid = do {
     task \<leftarrow> pid_or_current K pid;
     if task \<noteq> NULL then map_option t_pgid (get_task K task) else Some 0
   }"

definition sys_setpgid :: "kernel \<Rightarrow> int \<Rightarrow> int \<Rightarrow> (int \<times> kernel) option" where
  "sys_setpgid K pid pgid = do {
     task \<leftarrow> pid_or_current K pid;
     K \<leftarrow> (if task \<noteq> NULL then upd_task K task (\<lambda>t. t\<lparr>t_pgid := pgid\<rparr>) else Some K);
     Some (0, K)
   }"

definition sys_getuid :: "kernel \<Rightarrow> int option" where
  "sys_getuid K = (if k_curr K \<noteq> NULL then map_option t_uid (get_task K (k_curr K)) else Some (- EPERM))"

definition sys_setuid :: "kernel \<Rightarrow> int \<Rightarrow> (int \<times> kernel) option" where
  "sys_setuid K uid =
     (if k_curr K \<noteq> NULL then do {
        c \<leftarrow> get_task K (k_curr K);
        if t_uid c = 0 then do {
          K \<leftarrow> upd_task K (k_curr K) (\<lambda>t. t\<lparr>t_uid := uid\<rparr>);
          Some (0, K)
        }
        else Some (- EPERM, K)
      }
      else Some (- EPERM, K))"

definition sys_getgid :: "kernel \<Rightarrow> int option" where
  "sys_getgid K = (if k_curr K \<noteq> NULL then map_option t_gid (get_task K (k_curr K)) else Some (- EPERM))"

definition sys_setgid :: "kernel \<Rightarrow> int \<Rightarrow> (int \<times> kernel) option" where
  "sys_setgid K gid =
     (if k_curr K \<noteq> NULL then do {
        c \<leftarrow> get_task K (k_curr K);
        if t_uid c = 0 then do {
          K \<leftarrow> upd_task K (k_curr K) (\<lambda>t. t\<lparr>t_gid := gid\<rparr>);
          Some (0, K)
        }
        else Some (- EPERM, K)
      }
      else Some (- EPERM, K))"

definition sys_getppid :: "kernel \<Rightarrow> int option" where
  "sys_getppid K =
     (if k_curr K \<noteq> NULL then do {
        c \<leftarrow> get_task K (k_curr K);
        if t_parent c \<noteq> NULL then map_option t_pid (get_task K (t_parent c)) else Some (- EPERM)
      }
      else Some (- EPERM))"

definition sys_nice :: "kernel \<Rightarrow> int \<Rightarrow> (int \<times> kernel) option" where
  "sys_nice K increment = do {
     c \<leftarrow> get_task K (k_curr K);
     let increment = (if increment < - 40 then - 40 else increment);
     let increment = (if increment > 40 then 40 else increment);
     let newNice = PRIO_TO_NICE (se_prio (t_se c)) + increment;
     let newNice = (if newNice < MIN_NICE then MIN_NICE else newNice);
     let newNice = (if newNice > MAX_NICE then MAX_NICE else newNice);
     K \<leftarrow> (if PRIO_TO_NICE (se_prio (t_se c)) \<noteq> newNice \<and> newNice \<ge> MIN_NICE \<and> newNice \<le> MAX_NICE
          then upd_task K (k_curr K) (\<lambda>t. t\<lparr>t_se := (t_se t)\<lparr>se_prio := NICE_TO_PRIO newNice\<rparr>\<rparr>)
          else Some K);
     c \<leftarrow> get_task K (k_curr K);
     Some (PRIO_TO_NICE (se_prio (t_se c)), K)
   }"

definition sys_sched_setparam :: "kernel \<Rightarrow> int \<Rightarrow> sched_param_t \<Rightarrow> (int \<times> kernel) option" where
  "sys_sched_setparam K pid param = do {
     a \<leftarrow> find_task K (\<lambda>t. t_pid t = pid) (k_queue K);
     if a = NULL then Some (- 1, K)
     else do {
       entry \<leftarrow> get_task K a;
       let K = (if \<not> is_periodic (t_se entry) \<and> sp_is_periodic param
                then K\<lparr>num_periodic := num_periodic K + 1\<rparr>
                else if is_periodic (t_se entry) \<and> \<not> sp_is_periodic param
                then K\<lparr>num_periodic := num_periodic K - 1\<rparr>
                else K);
       K \<leftarrow> upd_task K a (\<lambda>t. t\<lparr>t_se := (t_se t)\<lparr>
              se_prio := sp_sched_priority param,
              period := sp_period param,
              arrivaltime := sp_arrivaltime param,
              is_periodic := sp_is_periodic param,
              deadline := k_ticks K + sp_deadline param,
              next_period := k_ticks K,
              is_under_analysis := True,
              executed := False\<rparr>\<rparr>);
       Some (1, K)
     }
   }"

text \<open>\<^verbatim>\<open>param->is_periodic\<close> is not written.\<close>

definition sys_sched_getparam :: "kernel \<Rightarrow> int \<Rightarrow> sched_param_t \<Rightarrow> (int \<times> sched_param_t) option" where
  "sys_sched_getparam K pid param = do {
     a \<leftarrow> find_task K (\<lambda>t. t_pid t = pid) (k_queue K);
     if a = NULL then Some (- 1, param)
     else do {
       entry \<leftarrow> get_task K a;
       let se = t_se entry;
       Some (1, param\<lparr>sp_sched_priority := se_prio se, sp_period := period se, sp_deadline := deadline se,
                  sp_arrivaltime := arrivaltime se\<rparr>)
     }
   }"

definition ENOTSCHEDULABLE :: int where "ENOTSCHEDULABLE = 125"

text \<open>Without one of the periodic policies every task that is analysed is schedulable.\<close>

definition sys_waitperiod :: "kernel \<Rightarrow> (int \<times> kernel) option" where
  "sys_waitperiod K =
     (let current = scheduler_get_current_process K in
      if current = NULL then Some (- ESRCH, K)
      else do {
        c \<leftarrow> get_task K current;
        if \<not> is_periodic (t_se c) then Some (- EPERM, K)
        else do {
          let current_time = k_ticks K;
          let wcet = current_time - exec_start (t_se c);
          K \<leftarrow> (if worst_case_exec (t_se c) < wcet
               then upd_task K current (\<lambda>t. t\<lparr>t_se := (t_se t)\<lparr>worst_case_exec := wcet\<rparr>\<rparr>)
               else Some K);
          K \<leftarrow> (if is_under_analysis (t_se c)
               then do {
                 K \<leftarrow> upd_task K current (\<lambda>t. t\<lparr>t_se := (t_se t)\<lparr>worst_case_exec := sum_exec_runtime (t_se t)\<rparr>\<rparr>);
                 upd_task K current (\<lambda>t. t\<lparr>t_se := (t_se t)\<lparr>is_under_analysis := False,
                     next_period := current_time, deadline := current_time + period (t_se t)\<rparr>\<rparr>)
               }
               else Some K);
          K \<leftarrow> upd_task K current (\<lambda>t. t\<lparr>t_se := (t_se t)\<lparr>executed := True\<rparr>\<rparr>);
          Some (0, K)
        }
      })"

end
