(* ===== verification/Signal.thy ===== *)
theory Signal
  imports Sched
begin

text \<open>
  Signals: sets of signals, the queue of pending signals of a task, sending and collecting signals, and the
  signal system calls of \<^verbatim>\<open>src/kernel/system/signal.c\<close>. The delivery loop, which schedules and ends
  processes, is in \<open>Process\<close>.
\<close>

section \<open>Sets of signals\<close>

text \<open>
  The word and the bit of a signal number; C divides towards zero. A number outside 1 to 64 has no
  place in the array or gives a shift that is not defined.
\<close>

definition sig_index :: "int \<Rightarrow> (nat \<times> nat) option" where
  "sig_index signum =
     (if 1 \<le> signum \<and> signum \<le> 64 then Some (nat (signum - 1) div 32, nat (signum - 1) mod 32) else None)"

definition sig_word :: "sigset_t \<Rightarrow> nat \<Rightarrow> u32" where
  "sig_word S i = (if i = 0 then sig0 S else sig1 S)"

definition set_sig_word :: "sigset_t \<Rightarrow> nat \<Rightarrow> u32 \<Rightarrow> sigset_t" where
  "set_sig_word S i w = (if i = 0 then S\<lparr>sig0 := w\<rparr> else S\<lparr>sig1 := w\<rparr>)"

text \<open>Only the first word is written by the two functions that initialise a set.\<close>

definition sigemptyset :: "sigset_t \<Rightarrow> sigset_t" where
  "sigemptyset S = S\<lparr>sig0 := 0\<rparr>"

definition sigfillset :: "sigset_t \<Rightarrow> sigset_t" where
  "sigfillset S = S\<lparr>sig0 := - 1\<rparr>"

definition sigaddset :: "sigset_t \<Rightarrow> int \<Rightarrow> (int \<times> sigset_t) option" where
  "sigaddset S signum =
     (if signum \<noteq> 0 then do {
        (i, b) \<leftarrow> sig_index signum;
        Some (0, set_sig_word S i (bit_set (sig_word S i) b))
      }
      else Some (- 1, S))"

definition sigdelset :: "sigset_t \<Rightarrow> int \<Rightarrow> sigset_t option" where
  "sigdelset S signum = do {
     (i, b) \<leftarrow> sig_index signum;
     Some (set_sig_word S i (bit_clear (sig_word S i) b))
   }"

definition sigismember :: "sigset_t \<Rightarrow> int \<Rightarrow> bool option" where
  "sigismember S signum = do {
     (i, b) \<leftarrow> sig_index signum;
     Some (bit_check (sig_word S i) b \<noteq> 0)
   }"

section \<open>Locks and handlers\<close>

text \<open>Taking the lock of a task that is taken already never ends: there is one processor.\<close>

definition lock_task_sighand :: "kernel \<Rightarrow> addr \<Rightarrow> kernel option" where
  "lock_task_sighand K a = do {
     t \<leftarrow> get_task K a;
     c_assert (\<not> siglock (t_sighand t));
     upd_task K a (\<lambda>t. t\<lparr>t_sighand := (t_sighand t)\<lparr>siglock := True\<rparr>\<rparr>)
   }"

definition unlock_task_sighand :: "kernel \<Rightarrow> addr \<Rightarrow> kernel option" where
  "unlock_task_sighand K a = upd_task K a (\<lambda>t. t\<lparr>t_sighand := (t_sighand t)\<lparr>siglock := False\<rparr>\<rparr>)"

definition get_action :: "task_struct \<Rightarrow> int \<Rightarrow> sigaction_t option" where
  "get_action t sig =
     (if 1 \<le> sig \<and> nat (sig - 1) < length (action (t_sighand t)) then Some (action (t_sighand t) ! nat (sig - 1))
      else None)"

definition get_handler :: "task_struct \<Rightarrow> int \<Rightarrow> u32 option" where
  "get_handler t sig = map_option sa_handler (get_action t sig)"

definition sig_is_ignored :: "task_struct \<Rightarrow> int \<Rightarrow> bool option" where
  "sig_is_ignored t sig = do {
     b \<leftarrow> sigismember (t_blocked t) sig;
     r \<leftarrow> (if b then Some True else sigismember (t_real_blocked t) sig);
     if r then Some False
     else do {
       handler \<leftarrow> get_handler t sig;
       Some (handler = SIG_IGN \<and> sig \<noteq> SIGCHLD)
     }
   }"

section \<open>Sending\<close>

definition send_signal :: "kernel \<Rightarrow> int \<Rightarrow> siginfo_t \<Rightarrow> addr \<Rightarrow> (int \<times> kernel) option" where
  "send_signal K sig info a = do {
     K \<leftarrow> lock_task_sighand K a;
     t \<leftarrow> get_task K a;
     ignored \<leftarrow> sig_is_ignored t sig;
     (r, K) \<leftarrow>
       (if ignored then Some (0, K)
        else if t_state t = EXIT_ZOMBIE \<or> t_state t = EXIT_DEAD then Some (- EINVAL, K)
        else if k_no_memory K then Some (- EAGAIN, K)
        else do {
          (_, S) \<leftarrow> sigaddset (sp_signal (t_pending t)) sig;
          K \<leftarrow> upd_task K a (\<lambda>t. t\<lparr>t_pending := \<lparr>sp_list = sp_list (t_pending t) @ [info], sp_signal = S\<rparr>\<rparr>);
          Some (0, K)
        });
     K \<leftarrow> unlock_task_sighand K a;
     Some (r, K)
   }"

text \<open>Removing the entries of the queue whose number is in the mask; the set of pending signals stays.\<close>

fun rm_from_queue_loop :: "sigset_t \<Rightarrow> siginfo_t list \<Rightarrow> siginfo_t list option" where
  "rm_from_queue_loop msk [] = Some []"
| "rm_from_queue_loop msk (q # qs) = do {
     m \<leftarrow> sigismember msk (si_signo q);
     qs \<leftarrow> rm_from_queue_loop msk qs;
     Some (if m then qs else q # qs)
   }"

definition rm_from_queue :: "sigset_t \<Rightarrow> sigpending_t \<Rightarrow> sigpending_t option" where
  "rm_from_queue msk p = do {
     qs \<leftarrow> rm_from_queue_loop msk (sp_list p);
     Some (p\<lparr>sp_list := qs\<rparr>)
   }"

text \<open>
  The first entry of the queue of stopped tasks whose process has the pid is woken up and removed from
  the queue.
\<close>

fun wake_stopped :: "kernel \<Rightarrow> int \<Rightarrow> addr list \<Rightarrow> kernel option" where
  "wake_stopped K pid [] = Some K"
| "wake_stopped K pid (e # es) = do {
     t \<leftarrow> get_task K e;
     if t_pid t = pid then do {
       (res, K) \<leftarrow> default_wake_function K e;
       Some (if res = 1 then K\<lparr>k_stopped := remove_wait_queue (k_stopped K) e\<rparr> else K)
     }
     else wake_stopped K pid es
   }"

text \<open>The masks start as the set \<open>junk\<close>, whatever the stack holds; only one word of it is cleared.\<close>

definition mask_of :: "sigset_t \<Rightarrow> int list \<Rightarrow> sigset_t option" where
  "mask_of junk sigs = fold (\<lambda>s m. do { S \<leftarrow> m; (_, S) \<leftarrow> sigaddset S s; Some S }) sigs (Some (sigemptyset junk))"

definition handle_stop_signal :: "sigset_t \<Rightarrow> kernel \<Rightarrow> int \<Rightarrow> addr \<Rightarrow> kernel option" where
  "handle_stop_signal junk K sig p = do {
     K \<leftarrow> (if sig = SIGSTOP \<or> sig = SIGTSTP \<or> sig = SIGTTIN \<or> sig = SIGTTOU then do {
            msk \<leftarrow> mask_of junk [SIGCONT];
            t \<leftarrow> get_task K p;
            pd \<leftarrow> rm_from_queue msk (t_pending t);
            upd_task K p (\<lambda>t. t\<lparr>t_pending := pd\<rparr>)
          }
          else Some K);
     if sig = SIGCONT then do {
       msk \<leftarrow> mask_of junk [SIGSTOP, SIGTSTP, SIGTTIN, SIGTTOU];
       t \<leftarrow> get_task K p;
       pd \<leftarrow> rm_from_queue msk (t_pending t);
       K \<leftarrow> upd_task K p (\<lambda>t. t\<lparr>t_pending := pd\<rparr>);
       wake_stopped K (t_pid t) (k_stopped K)
     }
     else Some K
   }"

definition send_sig_info :: "sigset_t \<Rightarrow> kernel \<Rightarrow> int \<Rightarrow> siginfo_t \<Rightarrow> addr \<Rightarrow> (int \<times> kernel) option" where
  "send_sig_info junk K sig info p =
     (if sig < 0 \<or> sig > NSIG then Some (- EINVAL, K)
      else if sig = 0 then Some (0, K)
      else do {
        K \<leftarrow> lock_task_sighand K p;
        K \<leftarrow> handle_stop_signal junk K sig p;
        K \<leftarrow> unlock_task_sighand K p;
        (_, K) \<leftarrow> send_signal K sig info p;
        Some (0, K)
      })"

definition user_siginfo :: "int \<Rightarrow> u32 \<Rightarrow> task_struct \<Rightarrow> siginfo_t" where
  "user_siginfo sig code t = \<lparr>si_signo = sig, si_code = code, si_value = 0, si_errno = 0, si_pid = t_pid t,
     si_uid = t_uid t, si_addr = NULL, si_status = 0, si_band = 0\<rparr>"

text \<open>The sender recorded by \<^verbatim>\<open>sys_kill\<close> is the target itself: \<^verbatim>\<open>current\<close> is the task that is found.\<close>

definition sys_kill :: "sigset_t \<Rightarrow> kernel \<Rightarrow> int \<Rightarrow> int \<Rightarrow> (int \<times> kernel) option" where
  "sys_kill junk K pid sig = do {
     current \<leftarrow> scheduler_get_running_process K pid;
     if current = NULL then Some (- ESRCH, K)
     else if sig < 0 \<or> sig \<ge> NSIG then Some (- EINVAL, K)
     else do {
       t \<leftarrow> get_task K current;
       send_sig_info junk K sig (user_siginfo sig SI_USER t) current
     }
   }"

definition notify_parent :: "kernel \<Rightarrow> addr \<Rightarrow> int \<Rightarrow> (int \<times> kernel) option" where
  "notify_parent K current signr = do {
     t \<leftarrow> get_task K current;
     send_signal K signr (user_siginfo signr SI_KERNEL t) (t_parent t)
   }"

section \<open>Collecting\<close>

definition next_signal :: "sigpending_t \<Rightarrow> sigset_t \<Rightarrow> int" where
  "next_signal pending msk =
     (let x = bitmask_clear (sig0 (sp_signal pending)) (sig0 msk) in
      if x \<noteq> 0 then 1 + int (find_first_non_zero x)
      else let x = bitmask_clear (sig1 (sp_signal pending)) (sig1 msk) in
      if x \<noteq> 0 then 33 + int (find_first_non_zero x)
      else 0)"

text \<open>The first entry for the signal, and whether there is a second one.\<close>

fun collect_scan :: "int \<Rightarrow> siginfo_t list \<Rightarrow> siginfo_t option \<Rightarrow> siginfo_t option \<times> bool" where
  "collect_scan sig [] queue_entry = (queue_entry, False)"
| "collect_scan sig (q # qs) queue_entry =
     (if si_signo q = sig
      then if queue_entry \<noteq> None then (queue_entry, True) else collect_scan sig qs (Some q)
      else collect_scan sig qs queue_entry)"

fun remove_first :: "('a \<Rightarrow> bool) \<Rightarrow> 'a list \<Rightarrow> 'a list" where
  "remove_first P [] = []"
| "remove_first P (x # xs) = (if P x then xs else x # remove_first P xs)"

definition collect_signal :: "kernel \<Rightarrow> int \<Rightarrow> sigpending_t \<Rightarrow> (siginfo_t \<times> sigpending_t) option" where
  "collect_signal K sig p = do {
     let (queue_entry, still_pending) = collect_scan sig (sp_list p) None;
     S \<leftarrow> (if still_pending then Some (sp_signal p) else sigdelset (sp_signal p) sig);
     case queue_entry of
       Some q \<Rightarrow> Some (q, \<lparr>sp_list = remove_first (\<lambda>q. si_signo q = sig) (sp_list p), sp_signal = S\<rparr>)
     | None \<Rightarrow> do {
         current \<leftarrow> get_task K (k_curr K);
         Some (user_siginfo sig SI_USER current, p\<lparr>sp_signal := S\<rparr>)
       }
   }"

text \<open>The information is only written when a signal is taken.\<close>

definition dequeue_signal ::
  "kernel \<Rightarrow> sigpending_t \<Rightarrow> sigset_t \<Rightarrow> (int \<times> sigpending_t \<times> siginfo_t option) option" where
  "dequeue_signal K p msk =
     (let sig = next_signal p msk in
      if sig > 0 \<and> sig < NSIG then do {
        (info, p) \<leftarrow> collect_signal K sig p;
        Some (sig, p, Some info)
      }
      else Some (sig, p, None))"

section \<open>Running a handler\<close>

text \<open>The nine words of a \<^verbatim>\<open>siginfo_t\<close> in memory, and a push on the user stack.\<close>

definition siginfo_words :: "siginfo_t \<Rightarrow> u32 list" where
  "siginfo_words i = [word_of_int (si_signo i), si_code i, si_value i, si_errno i, word_of_int (si_pid i),
     word_of_int (si_uid i), si_addr i, si_status i, si_band i]"

fun write_words :: "(addr \<Rightarrow> u32) \<Rightarrow> addr \<Rightarrow> u32 list \<Rightarrow> addr \<Rightarrow> u32" where
  "write_words m a [] = m"
| "write_words m a (w # ws) = write_words (m(a := w)) (a + 4) ws"

definition push_user :: "kernel \<Rightarrow> pt_regs \<Rightarrow> u32 \<Rightarrow> kernel \<times> pt_regs" where
  "push_user K regs v =
     (let regs = regs\<lparr>r_useresp := r_useresp regs - 4\<rparr>
      in (K\<lparr>k_umem := (k_umem K)(r_useresp regs := v)\<rparr>, regs))"

definition handle_signal ::
  "kernel \<Rightarrow> int \<Rightarrow> siginfo_t \<Rightarrow> sigaction_t \<Rightarrow> pt_regs \<Rightarrow> (int \<times> kernel \<times> pt_regs) option" where
  "handle_signal K signr info ka regs = do {
     let a = k_curr K;
     current \<leftarrow> get_task K a;
     if t_pid current = 1 then Some (0, K\<lparr>k_errno := ESRCH\<rparr>, regs)
     else do {
       (_, S) \<leftarrow> sigaddset (t_blocked current) signr;
       K \<leftarrow> upd_task K a (\<lambda>t. t\<lparr>t_saved_sigmask := t_blocked t, t_blocked := S, t_signal_regs := regs\<rparr>);
       let regs = (t_regs current)\<lparr>r_eip := sa_handler ka\<rparr>;
       let (K, regs) =
         (if bitmask_check (sa_flags ka) SA_SIGINFO \<noteq> 0 then
            (let regs = regs\<lparr>r_useresp := r_useresp regs - 36\<rparr>;
                 K = K\<lparr>k_umem := write_words (k_umem K) (r_useresp regs) (siginfo_words info)\<rparr>
             in push_user K regs (r_useresp regs))
          else (K, regs));
       let (K, regs) = push_user K regs (word_of_int signr);
       let (K, regs) = push_user K regs (t_sigreturn_addr current);
       Some (1, K, regs)
     }
   }"

definition sys_sigreturn :: "kernel \<Rightarrow> (kernel \<times> pt_regs) option" where
  "sys_sigreturn K = do {
     let a = k_curr K;
     current \<leftarrow> get_task K a;
     K \<leftarrow> upd_task K a (\<lambda>t. t\<lparr>t_blocked := t_saved_sigmask t\<rparr>);
     c_assert (t_mm current \<noteq> NULL);
     Some (log_call K (Vmm_switch_directory (k_pgd K (t_mm current))), t_signal_regs current)
   }"

section \<open>System calls\<close>

text \<open>The entry of the array at \<open>signum - 1\<close>; there is none for signal 0.\<close>

definition set_action :: "task_struct \<Rightarrow> int \<Rightarrow> sigaction_t \<Rightarrow> task_struct" where
  "set_action t sig a = t\<lparr>t_sighand := (t_sighand t)\<lparr>action := (action (t_sighand t))[nat (sig - 1) := a]\<rparr>\<rparr>"

definition sys_signal :: "sigset_t \<Rightarrow> kernel \<Rightarrow> int \<Rightarrow> u32 \<Rightarrow> u32 \<Rightarrow> (u32 \<times> kernel) option" where
  "sys_signal junk K signum handler sigreturn_addr =
     (if signum < 0 \<or> signum \<ge> NSIG then Some (SIG_ERR, K)
      else do {
        let a = k_curr K;
        current \<leftarrow> get_task K a;
        if t_pid current = 1 then Some (SIG_ERR, K)
        else do {
          let new_sigaction = \<lparr>sa_handler = handler, sa_mask = sigemptyset junk, sa_flags = SA_RESETHAND OR SA_NODEFER\<rparr>;
          K \<leftarrow> lock_task_sighand K a;
          K \<leftarrow> upd_task K a (\<lambda>t. t\<lparr>t_sigreturn_addr := sigreturn_addr\<rparr>);
          old_handler \<leftarrow> get_handler current signum;
          K \<leftarrow> upd_task K a (\<lambda>t. set_action t signum new_sigaction);
          K \<leftarrow> unlock_task_sighand K a;
          Some (old_handler, K)
        }
      })"

text \<open>\<open>act\<close> is \<open>None\<close> for the null pointer, which is read all the same.\<close>

definition sys_sigaction :: "kernel \<Rightarrow> int \<Rightarrow> sigaction_t option \<Rightarrow> u32 \<Rightarrow> (int \<times> sigaction_t option \<times> kernel) option" where
  "sys_sigaction K signum act sigreturn_addr =
     (if signum < 0 \<or> signum \<ge> NSIG then Some (- EINVAL, None, K)
      else do {
        let a = k_curr K;
        current \<leftarrow> get_task K a;
        if t_pid current = 1 then Some (- EINVAL, None, K)
        else do {
          K \<leftarrow> lock_task_sighand K a;
          K \<leftarrow> upd_task K a (\<lambda>t. t\<lparr>t_sigreturn_addr := sigreturn_addr\<rparr>);
          oldact \<leftarrow> get_action current signum;
          new \<leftarrow> act;
          K \<leftarrow> upd_task K a (\<lambda>t. set_action t signum new);
          K \<leftarrow> unlock_task_sighand K a;
          Some (0, Some oldact, K)
        }
      })"

text \<open>\<open>set\<close> and the flag \<open>want_old\<close> say whether the pointers are null; the old set is returned.\<close>

definition sys_sigprocmask ::
  "kernel \<Rightarrow> int \<Rightarrow> sigset_t option \<Rightarrow> bool \<Rightarrow> (int \<times> sigset_t option \<times> kernel) option" where
  "sys_sigprocmask K how nset want_old =
     (if nset = None \<and> \<not> want_old then Some (- EFAULT, None, K)
      else if how < SIG_BLOCK \<or> how > SIG_SETMASK then Some (- EINVAL, None, K)
      else do {
        let a = k_curr K;
        current \<leftarrow> get_task K a;
        if t_pid current = 1 then Some (- EINVAL, None, K)
        else do {
          let old = t_blocked current;
          K \<leftarrow> (case nset of
                 None \<Rightarrow> Some K
               | Some S \<Rightarrow> upd_task K a (\<lambda>t. t\<lparr>t_blocked :=
                   (if how = SIG_BLOCK then \<lparr>sig0 = sig0 old OR sig0 S, sig1 = sig1 old OR sig1 S\<rparr>
                    else if how = SIG_UNBLOCK then \<lparr>sig0 = sig0 old AND NOT (sig0 S), sig1 = sig1 old AND NOT (sig1 S)\<rparr>
                    else \<lparr>sig0 = sig0 S, sig1 = sig1 S\<rparr>)\<rparr>));
          Some (0, (if want_old then Some old else None), K)
        }
      })"

definition sys_siglist :: "string list" where
  "sys_siglist = [''HUP'', ''INT'', ''QUIT'', ''ILL'', ''TRAP'', ''ABRT'', ''EMT'', ''FPE'', ''KILL'', ''BUS'',
     ''SEGV'', ''SYS'', ''PIPE'', ''ALRM'', ''TERM'', ''USR1'', ''USR2'', ''CHLD'', ''PWR'', ''WINCH'', ''URG'',
     ''POLL'', ''STOP'', ''TSTP'', ''CONT'', ''TTIN'', ''TTOU'', ''VTALRM'', ''PROF'', ''XCPU'', ''XFSZ'']"

definition strsignal :: "int \<Rightarrow> string option" where
  "strsignal sig = (if SIGHUP \<le> sig \<and> sig < NSIG then Some (sys_siglist ! nat (sig - 1)) else None)"

definition signals_init :: "kernel \<Rightarrow> kernel" where
  "signals_init K = K\<lparr>k_stopped := []\<rparr>"

end
