(* ===== verification/Process.thy ===== *)
theory Process
  imports Signal
begin

text \<open>
  The life of processes: waiting for children and leaving (\<^verbatim>\<open>sys_waitpid\<close>, \<^verbatim>\<open>sys_exit\<close> and \<^verbatim>\<open>scheduler_run\<close> of
  \<^verbatim>\<open>src/kernel/process/scheduler.c\<close>), the delivery of signals (\<^verbatim>\<open>do_signal\<close> of \<^verbatim>\<open>src/kernel/system/signal.c\<close>)
  and the creation of tasks (\<^verbatim>\<open>__alloc_task\<close> and \<^verbatim>\<open>sys_fork\<close> of \<^verbatim>\<open>src/kernel/process/task.c\<close>).
\<close>

section \<open>Waiting and leaving\<close>

definition WNOHANG :: int where "WNOHANG = 1"

text \<open>The first child that is a zombie and matches the pid; \<open>pid > 1\<close> is the test of the code.\<close>

fun find_zombie :: "kernel \<Rightarrow> int \<Rightarrow> addr list \<Rightarrow> addr option" where
  "find_zombie K pid [] = Some NULL"
| "find_zombie K pid (a # as) = do {
     entry \<leftarrow> get_task K a;
     if t_state entry \<noteq> EXIT_ZOMBIE then find_zombie K pid as
     else if pid > 1 \<and> t_pid entry \<noteq> pid then find_zombie K pid as
     else Some a
   }"

definition reap :: "kernel \<Rightarrow> addr \<Rightarrow> kernel option" where
  "reap K a = do {
     let K = log_call K (Vfs_destroy_task a);
     K \<leftarrow> upd_task K (k_curr K) (\<lambda>t. t\<lparr>t_children := remove1 a (t_children t)\<rparr>);
     K \<leftarrow> scheduler_dequeue_task K a;
     Some (K\<lparr>k_tasks := (k_tasks K)(a := None)\<rparr>)
   }"

text \<open>The status is written for a child that is reaped; \<open>None\<close> when nothing is written.\<close>

definition sys_waitpid :: "kernel \<Rightarrow> int \<Rightarrow> int \<Rightarrow> (int \<times> int option \<times> kernel) option" where
  "sys_waitpid K pid options = do {
     c \<leftarrow> get_task K (k_curr K);
     if pid < - 1 \<or> pid = 0 then Some (- ESRCH, None, K)
     else if pid = t_pid c then Some (- ECHILD, None, K)
     else if options \<noteq> 0 \<and> options \<noteq> WNOHANG then Some (- EINVAL, None, K)
     else if t_children c = [] then Some (- ECHILD, None, K)
     else do {
       a \<leftarrow> find_zombie K pid (t_children c);
       if a = NULL then Some (0, None, K)
       else do {
         entry \<leftarrow> get_task K a;
         K \<leftarrow> reap K a;
         Some (t_pid entry, Some (t_state entry), K)
       }
     }
   }"

text \<open>The children get the new parent one after the other.\<close>

fun set_parents :: "kernel \<Rightarrow> addr \<Rightarrow> addr list \<Rightarrow> kernel option" where
  "set_parents K p [] = Some K"
| "set_parents K p (a # as) = do {
     K \<leftarrow> upd_task K a (\<lambda>t. t\<lparr>t_parent := p\<rparr>);
     set_parents K p as
   }"

text \<open>\<^verbatim>\<open>list_head_append\<close> on the children: nothing happens when one of the lists is empty.\<close>

definition append_children :: "kernel \<Rightarrow> addr \<Rightarrow> addr \<Rightarrow> kernel option" where
  "append_children K main secondary = do {
     m \<leftarrow> get_task K main;
     s \<leftarrow> get_task K secondary;
     if t_children m \<noteq> [] \<and> t_children s \<noteq> [] then do {
       K \<leftarrow> upd_task K main (\<lambda>t. t\<lparr>t_children := t_children m @ t_children s\<rparr>);
       upd_task K secondary (\<lambda>t. t\<lparr>t_children := []\<rparr>)
     }
     else Some K
   }"

definition sys_exit :: "sigset_t \<Rightarrow> kernel \<Rightarrow> u32 \<Rightarrow> kernel option" where
  "sys_exit junk K exit_code = do {
     let a = k_curr K;
     c \<leftarrow> get_task K a;
     init_proc \<leftarrow> scheduler_get_running_process K 1;
     c_assert (a \<noteq> init_proc);
     K \<leftarrow> upd_task K a (\<lambda>t. t\<lparr>t_exit_code := push_bit 8 exit_code AND 0xFF00, t_state := EXIT_ZOMBIE\<rparr>);
     K \<leftarrow> (if t_parent c \<noteq> NULL then do {
            p \<leftarrow> get_task K (t_parent c);
            (_, K) \<leftarrow> sys_kill junk K (t_pid p) SIGCHLD;
            Some K
          }
          else Some K);
     c \<leftarrow> get_task K a;
     K \<leftarrow> (if t_children c \<noteq> [] then do {
            K \<leftarrow> set_parents K init_proc (t_children c);
            append_children K init_proc a
          }
          else Some K);
     Some (log_call K (Mmu_destroy_process_image (t_mm c)))
   }"

section \<open>Delivery of signals and the scheduler\<close>

text \<open>\<^verbatim>\<open>while (sys_waitpid(-1, NULL, WNOHANG) > 0) {}\<close>\<close>

partial_function (option) reap_all :: "kernel \<Rightarrow> kernel option" where
  "reap_all K = do {
     (r, _, K) \<leftarrow> sys_waitpid K (- 1) WNOHANG;
     if r > 0 then reap_all K else Some K
   }"

text \<open>The node that follows \<open>c\<close> on the ring of the run queue, the head of the queue being skipped.\<close>

definition ring_next :: "addr list \<Rightarrow> addr \<Rightarrow> addr" where
  "ring_next q c =
     (if c \<in> set q then let r = tl (dropWhile (\<lambda>x. x \<noteq> c) q) in if r \<noteq> [] then hd r else hd q else c)"

text \<open>
  \<^verbatim>\<open>do_signal\<close> stops a process by calling \<^verbatim>\<open>scheduler_run\<close>, which calls \<^verbatim>\<open>do_signal\<close>: the two are one function
  on the calls \<open>Do_signal_loop\<close> (the loop of \<^verbatim>\<open>do_signal\<close>) and \<open>Scheduler_run\<close>. The result is the
  return value of \<^verbatim>\<open>do_signal\<close> (0 for \<^verbatim>\<open>scheduler_run\<close>), the kernel and the registers.
\<close>

datatype sched_call =
    Do_signal_loop kernel addr pt_regs
  | Scheduler_run kernel pt_regs

definition signal_stop_prepare :: "kernel \<Rightarrow> addr \<Rightarrow> int \<Rightarrow> kernel option" where
  "signal_stop_prepare K current signr = do {
     t \<leftarrow> get_task K current;
     p \<leftarrow> get_task K (t_parent t);
     ka \<leftarrow> get_action p SIGCHLD;
     K \<leftarrow> (if SA_NOCLDSTOP AND sa_flags ka = 0 then do {
            (_, K) \<leftarrow> notify_parent K current SIGCHLD;
            Some K
          }
          else Some K);
     K \<leftarrow> sleep_on_stopped K;
     upd_task K current (\<lambda>t. t\<lparr>t_state := TASK_STOPPED, t_exit_code := word_of_int signr\<rparr>)
   }"

definition zombie_next :: "kernel \<Rightarrow> (addr \<times> kernel) option" where
  "zombie_next K = do {
     let next = ring_next (k_queue K) (k_curr K);
     K \<leftarrow> scheduler_dequeue_task K (k_curr K);
     c_assert (next \<noteq> NULL);
     Some (next, K)
   }"

text \<open>What \<^verbatim>\<open>scheduler_run\<close> does when no signal was delivered.\<close>

definition switch_task :: "kernel \<Rightarrow> pt_regs \<Rightarrow> (kernel \<times> pt_regs) option" where
  "switch_task K f = do {
     c \<leftarrow> get_task K (k_curr K);
     (next, K) \<leftarrow> (if t_state c = EXIT_ZOMBIE then zombie_next K else scheduler_pick_next_task K);
     if next \<noteq> k_curr K then scheduler_restore_context K next else Some (K, f)
   }"

definition ignored_by_default :: "int \<Rightarrow> bool" where
  "ignored_by_default s \<longleftrightarrow> s = SIGCONT \<or> s = SIGCHLD \<or> s = SIGURG \<or> s = SIGWINCH"

text \<open>Whether the default action of a signal stops the process.\<close>

definition stops :: "kernel \<Rightarrow> task_struct \<Rightarrow> int \<Rightarrow> bool option" where
  "stops K t s =
     (if s = SIGTSTP \<or> s = SIGTTIN \<or> s = SIGTTOU then map_option Not (is_orphaned_pgrp K (t_pgid t))
      else Some (s = SIGSTOP))"

partial_function (option) sched_signal :: "sigset_t \<Rightarrow> sched_call \<Rightarrow> (int \<times> kernel \<times> pt_regs) option" where
  "sched_signal junk call = (case call of
     Do_signal_loop K a f \<Rightarrow> do {
       current \<leftarrow> get_task K a;
       if sp_list (t_pending current) = [] then do {
         K \<leftarrow> unlock_task_sighand K a;
         Some (0, K, f)
       }
       else do {
         (signr, pd, info) \<leftarrow> dequeue_signal K (t_pending current) (t_blocked current);
         K \<leftarrow> upd_task K a (\<lambda>t. t\<lparr>t_pending := pd\<rparr>);
         if signr \<le> 0 \<or> signr \<ge> NSIG then do {
           K \<leftarrow> unlock_task_sighand K a;
           Some (0, K, f)
         }
         else do {
           ka \<leftarrow> get_action current signr;
           if t_pid current = 1 then sched_signal junk (Do_signal_loop K a f)
           else if sa_handler ka = SIG_IGN then do {
             K \<leftarrow> (if signr = SIGCHLD then reap_all K else Some K);
             sched_signal junk (Do_signal_loop K a f)
           }
           else if sa_handler ka = SIG_DFL \<and> ignored_by_default signr then
             sched_signal junk (Do_signal_loop K a f)
           else if sa_handler ka = SIG_DFL
               \<and> (signr = SIGTSTP \<or> signr = SIGTTIN \<or> signr = SIGTTOU \<or> signr = SIGSTOP) then do {
             st \<leftarrow> stops K current signr;
             if st then do {
               K \<leftarrow> unlock_task_sighand K a;
               K \<leftarrow> signal_stop_prepare K a signr;
               (_, K, f) \<leftarrow> sched_signal junk (Scheduler_run K f);
               K \<leftarrow> lock_task_sighand K a;
               sched_signal junk (Do_signal_loop K a f)
             }
             else sched_signal junk (Do_signal_loop K a f)
           }
           else if sa_handler ka = SIG_DFL
               \<and> (signr = SIGQUIT \<or> signr = SIGILL \<or> signr = SIGTRAP \<or> signr = SIGABRT) then do {
             K \<leftarrow> sys_exit junk K 3;
             sched_signal junk (Do_signal_loop K a f)
           }
           else if sa_handler ka = SIG_DFL then do {
             K \<leftarrow> sys_exit junk K (word_of_int signr);
             K \<leftarrow> unlock_task_sighand K a;
             Some (1, K, f)
           }
           else do {
             i \<leftarrow> info;
             (r, K, f) \<leftarrow> handle_signal K signr i ka f;
             if r = 1 then do {
               K \<leftarrow> unlock_task_sighand K a;
               Some (1, K, f)
             }
             else sched_signal junk (Do_signal_loop K a f)
           }
         }
       }
     }
   | Scheduler_run K f \<Rightarrow>
       if k_curr K = NULL then Some (0, K, f)
       else do {
         K \<leftarrow> scheduler_store_context K f (k_curr K);
         (r, K, f) \<leftarrow>
           (if r_cs f AND 3 \<noteq> 3 then Some (0, K, f)
            else do {
              K \<leftarrow> lock_task_sighand K (k_curr K);
              sched_signal junk (Do_signal_loop K (k_curr K) f)
            });
         if r = 0 then do {
           (K, f) \<leftarrow> switch_task K f;
           Some (0, K, f)
         }
         else Some (0, K, f)
       })"

definition scheduler_run :: "sigset_t \<Rightarrow> kernel \<Rightarrow> pt_regs \<Rightarrow> (kernel \<times> pt_regs) option" where
  "scheduler_run junk K f = map_option snd (sched_signal junk (Scheduler_run K f))"

definition do_signal :: "sigset_t \<Rightarrow> kernel \<Rightarrow> pt_regs \<Rightarrow> (int \<times> kernel \<times> pt_regs) option" where
  "do_signal junk K f =
     (if k_curr K = NULL then Some (0, K, f)
      else if r_cs f AND 3 \<noteq> 3 then Some (0, K, f)
      else do {
        K \<leftarrow> lock_task_sighand K (k_curr K);
        sched_signal junk (Do_signal_loop K (k_curr K) f)
      })"

section \<open>Creation of tasks\<close>

definition empty_sigset :: sigset_t where
  "empty_sigset = \<lparr>sig0 = 0, sig1 = 0\<rparr>"

definition default_action :: sigaction_t where
  "default_action = \<lparr>sa_handler = SIG_DFL, sa_mask = empty_sigset, sa_flags = 0\<rparr>"

definition zero_regs :: pt_regs where
  "zero_regs = \<lparr>r_gs = 0, r_fs = 0, r_es = 0, r_ds = 0, r_edi = 0, r_esi = 0, r_ebp = 0, r_esp = 0, r_ebx = 0, r_edx = 0,
     r_ecx = 0, r_eax = 0, r_int_no = 0, r_err_code = 0, r_eip = 0, r_cs = 0, r_eflags = 0, r_useresp = 0, r_ss = 0\<rparr>"

definition default_se :: "u32 \<Rightarrow> sched_entity_t" where
  "default_se ticks = \<lparr>se_prio = DEFAULT_PRIO, start_runtime = ticks, exec_start = ticks, exec_runtime = 0,
     sum_exec_runtime = 0, vruntime = 0, period = 0, deadline = 0, arrivaltime = ticks,
     executed = False, is_periodic = False, is_under_analysis = False, next_period = 0, worst_case_exec = 0\<rparr>"

definition default_termios :: termios_t where
  "default_termios = \<lparr>c_iflag = 0, c_oflag = 0, c_cflag = 0, c_lflag = ICANON OR ECHO OR ECHOE OR ECHOK OR ECHONL OR ISIG\<rparr>"

text \<open>
  The structure is cleared before it is filled, so that the signal sets and the timers start empty. \<open>a\<close> is
  the address that \<^verbatim>\<open>kmalloc\<close> returns; \<open>source\<close> and \<open>parent\<close> may be null, and there may be no name. The ring of
  scancodes has length 256 and the filler -1.
\<close>

definition alloc_task :: "kernel \<Rightarrow> addr \<Rightarrow> addr \<Rightarrow> addr \<Rightarrow> string option \<Rightarrow> kernel option" where
  "alloc_task K a source parent name = do {
     c_assert (a \<noteq> NULL);
     let (pid, K) = scheduler_getpid K;
     src \<leftarrow> (if source \<noteq> NULL then map_option Some (get_task K source) else Some None);
     let K = log_call K (if source \<noteq> NULL then Vfs_dup_task a source else Vfs_init_task a);
     let t = \<lparr>t_pid = sint pid, t_sid = 0, t_pgid = 0, t_gid = 0, t_uid = 0, t_state = TASK_RUNNING,
              t_parent = parent, t_children = [],
              t_regs = (case src of Some s \<Rightarrow> t_regs s | None \<Rightarrow> zero_regs),
              t_signal_regs = (case src of Some s \<Rightarrow> t_signal_regs s | None \<Rightarrow> zero_regs),
              t_se = default_se (k_ticks K), t_exit_code = 0,
              t_name = (case name of Some n \<Rightarrow> n | None \<Rightarrow> []), t_mm = NULL, t_error_no = 0,
              t_cwd = (case src of Some s \<Rightarrow> t_cwd s | None \<Rightarrow> ''/''), t_sigreturn_addr = 0,
              t_sighand = \<lparr>action = replicate (nat NSIG) default_action, siglock = False\<rparr>,
              t_blocked = empty_sigset, t_real_blocked = empty_sigset, t_saved_sigmask = empty_sigset,
              t_pending = \<lparr>sp_list = [], sp_signal = empty_sigset\<rparr>,
              t_real_timer = NULL, it_real_incr = 0, it_real_value = 0, it_virt_incr = 0, it_virt_value = 0,
              it_prof_incr = 0, it_prof_value = 0, t_termios = default_termios,
              t_keyboard_rb = fs_rb_init \<lparr>rb_size = 0, rb_read = 0, rb_write = 0, rb_buffer = []\<rparr> 256 (- 1)\<rparr>;
     let K = K\<lparr>k_tasks := (k_tasks K)(a \<mapsto> t)\<rparr>;
     if parent \<noteq> NULL then upd_task K parent (\<lambda>t. t\<lparr>t_children := t_children t @ [a]\<rparr>) else Some K
   }"

definition EFLAG_IF :: u32 where "EFLAG_IF = push_bit 9 1"

text \<open>\<open>mm\<close> is what \<^verbatim>\<open>mmu_clone_process_image\<close> returns.\<close>

definition sys_fork :: "kernel \<Rightarrow> pt_regs \<Rightarrow> addr \<Rightarrow> addr \<Rightarrow> (int \<times> kernel) option" where
  "sys_fork K f a mm = do {
     let current = k_curr K;
     K \<leftarrow> scheduler_store_context K f current;
     c \<leftarrow> get_task K current;
     K \<leftarrow> alloc_task K a current current (Some (t_name c));
     c \<leftarrow> get_task K current;
     K \<leftarrow> upd_task K a (\<lambda>t. t\<lparr>t_mm := mm,
            t_regs := (t_regs t)\<lparr>r_eax := 0, r_eflags := r_eflags (t_regs t) OR EFLAG_IF\<rparr>,
            t_sid := t_sid c, t_pgid := t_pgid c, t_uid := t_uid c, t_gid := t_gid c\<rparr>);
     let K = scheduler_enqueue_task K a;
     p \<leftarrow> get_task K a;
     Some (t_pid p, K)
   }"

end
