(* ===== verification/Sched_Props.thy ===== *)
theory Sched_Props
  imports Process
begin

text \<open>
  Properties of the scheduler: which task round robin picks and when it fails, that every runnable task
  gets its turn, the bounds of the priorities, and the counter of active tasks.
\<close>

section \<open>Searching the run queue\<close>

definition mapped :: "kernel \<Rightarrow> addr list \<Rightarrow> bool" where
  "mapped K as \<longleftrightarrow> (\<forall>a \<in> set as. get_task K a \<noteq> None)"

definition task_of :: "kernel \<Rightarrow> addr \<Rightarrow> task_struct" where
  "task_of K a = the (get_task K a)"

definition ptr_or_null :: "addr option \<Rightarrow> addr" where
  "ptr_or_null r = (case r of Some a \<Rightarrow> a | None \<Rightarrow> NULL)"

lemma task_of_eq [simp]: "get_task K a = Some t \<Longrightarrow> task_of K a = t"
  by (simp add: task_of_def)

lemma find_task_spec:
  "mapped K as \<Longrightarrow> find_task K P as = Some (ptr_or_null (find (\<lambda>a. P (task_of K a)) as))"
  by (induction as) (auto simp: mapped_def ptr_or_null_def task_of_def)

lemma mapped_not_null: "mapped K as \<Longrightarrow> a \<in> set as \<Longrightarrow> a \<noteq> NULL"
  by (auto simp: mapped_def get_task_def split: if_splits)

lemma find_in_set: "find P xs = Some a \<Longrightarrow> a \<in> set xs \<and> P a"
  by (induction xs) (auto split: if_splits)

section \<open>Round robin\<close>

lemma while_not_member:
  assumes "c \<notin> set xs"
  shows "dropWhile (\<lambda>x. x \<noteq> c) (xs @ c # ys) = c # ys" and "takeWhile (\<lambda>x. x \<noteq> c) (xs @ c # ys) = xs"
  using assms by (induction xs) auto

lemma ring_from_split: "c \<notin> set xs \<Longrightarrow> ring_from (xs @ c # ys) c = ys @ xs"
  by (simp add: ring_from_def while_not_member)

lemma ring_next_split: "c \<notin> set xs \<Longrightarrow> ring_next (xs @ c # ys) c = hd (ys @ xs @ [c])"
proof -
  assume "c \<notin> set xs"
  then have "ring_next (xs @ c # ys) c = (if ys \<noteq> [] then hd ys else hd (xs @ c # ys))"
    by (simp add: ring_next_def while_not_member)
  then show ?thesis by (cases ys; cases xs) auto
qed

definition runnable :: "kernel \<Rightarrow> addr \<Rightarrow> bool" where
  "runnable K a \<longleftrightarrow> t_state (task_of K a) = TASK_RUNNING"

lemma runnable_fun: "runnable K = (\<lambda>a. t_state (task_of K a) = TASK_RUNNING)"
  by (simp add: fun_eq_iff runnable_def)

lemma scheduler_rr_spec:
  assumes "k_queue K = xs @ k_curr K # ys" and "k_curr K \<notin> set xs" and "mapped K (k_queue K)"
  shows "scheduler_rr K False = Some (if xs @ ys = [] then k_curr K else ptr_or_null (find (runnable K) (ys @ xs)))"
proof -
  obtain t where "get_task K (k_curr K) = Some t" using assms by (auto simp: mapped_def)
  moreover have "mapped K (ys @ xs)" using assms(1,3) by (auto simp: mapped_def)
  ultimately show ?thesis
    using assms(1,2)
    by (auto simp: scheduler_rr_def ring_size_def ring_from_split find_task_spec runnable_fun)
qed

definition started :: "kernel \<Rightarrow> addr \<Rightarrow> kernel" where
  "started K a = K\<lparr>k_tasks := (k_tasks K)(a \<mapsto>
     (task_of K a)\<lparr>t_se := (t_se (task_of K a))\<lparr>exec_start := k_ticks K\<rparr>\<rparr>)\<rparr>"

lemma scheduler_pick_next_task_spec:
  assumes "k_queue K = xs @ k_curr K # ys" and "k_curr K \<notin> set xs" and "mapped K (k_queue K)"
  shows "scheduler_pick_next_task K = (if xs @ ys = [] then Some (k_curr K, started K (k_curr K))
    else case find (runnable K) (ys @ xs) of Some a \<Rightarrow> Some (a, started K a) | None \<Rightarrow> None)"
proof -
  have start: "upd_task K a (\<lambda>t. t\<lparr>t_se := (t_se t)\<lparr>exec_start := k_ticks K\<rparr>\<rparr>) = Some (started K a)"
    and nn: "a \<noteq> NULL" if "a \<in> set (k_queue K)" for a
    using assms(3) that by (auto simp: mapped_def upd_task_def started_def task_of_def get_task_def)
  have c: "k_curr K \<in> set (k_queue K)" using assms(1) by simp
  show ?thesis
  proof (cases "find (runnable K) (ys @ xs)")
    case None
    then show ?thesis
      using start [OF c] nn [OF c] scheduler_rr_spec [OF assms]
      by (auto simp: scheduler_pick_next_task_def update_task_statistics_def ptr_or_null_def Let_def)
  next
    case (Some a)
    then have "a \<in> set (k_queue K)" using assms(1) find_in_set [OF Some] by auto
    then show ?thesis
      using start [of a] nn [of a] start [OF c] nn [OF c] Some scheduler_rr_spec [OF assms]
      by (auto simp: scheduler_pick_next_task_def update_task_statistics_def ptr_or_null_def Let_def)
  qed
qed

section \<open>Runs without signals\<close>

lemma sched_signal_none_pending:
  "get_task K a = Some t \<Longrightarrow> sp_list (t_pending t) = [] \<Longrightarrow>
   sched_signal junk (Do_signal_loop K a f) = do { K \<leftarrow> unlock_task_sighand K a; Some (0, K, f) }"
  by (subst sched_signal.simps) simp

definition stored :: "kernel \<Rightarrow> addr \<Rightarrow> pt_regs \<Rightarrow> kernel" where
  "stored K a f = K\<lparr>k_tasks := (k_tasks K)(a \<mapsto> (task_of K a)\<lparr>t_regs := f\<rparr>)\<rparr>"

text \<open>Taking and releasing the lock leaves no trace.\<close>

lemma lock_unlock:
  assumes "get_task K a = Some t" and "\<not> siglock (t_sighand t)"
  shows "lock_task_sighand K a = Some (K\<lparr>k_tasks := (k_tasks K)(a \<mapsto>
      t\<lparr>t_sighand := (t_sighand t)\<lparr>siglock := True\<rparr>\<rparr>)\<rparr>)"
    and "unlock_task_sighand (K\<lparr>k_tasks := (k_tasks K)(a \<mapsto>
      t\<lparr>t_sighand := (t_sighand t)\<lparr>siglock := True\<rparr>\<rparr>)\<rparr>) a = Some K"
proof -
  show "lock_task_sighand K a = Some (K\<lparr>k_tasks := (k_tasks K)(a \<mapsto>
      t\<lparr>t_sighand := (t_sighand t)\<lparr>siglock := True\<rparr>\<rparr>)\<rparr>)"
    using assms by (simp add: lock_task_sighand_def upd_task_def)
  have "t\<lparr>t_sighand := (t_sighand t)\<lparr>siglock := False\<rparr>\<rparr> = t" using assms(2) by simp
  then show "unlock_task_sighand (K\<lparr>k_tasks := (k_tasks K)(a \<mapsto>
      t\<lparr>t_sighand := (t_sighand t)\<lparr>siglock := True\<rparr>\<rparr>)\<rparr>) a = Some K"
    using assms(1) by (auto simp: unlock_task_sighand_def upd_task_def get_task_eq fun_upd_idem)
qed

lemma scheduler_run_quiet:
  assumes t: "get_task K (k_curr K) = Some t" and lk: "\<not> siglock (t_sighand t)" and q: "sp_list (t_pending t) = []"
  shows "scheduler_run junk K f = switch_task (stored K (k_curr K) f) f"
proof -
  let ?K = "stored K (k_curr K) f" and ?t = "t\<lparr>t_regs := f\<rparr>"
  have g: "get_task ?K (k_curr K) = Some ?t" using t by (auto simp: stored_def get_task_eq)
  have c: "k_curr ?K = k_curr K" by (simp add: stored_def)
  have st: "scheduler_store_context K f (k_curr K) = Some ?K"
    using t by (simp add: scheduler_store_context_def stored_def upd_task_def)
  have lk': "\<not> siglock (t_sighand ?t)" using lk by simp
  note lock = lock_unlock [OF g lk']
  have sig: "(lock_task_sighand ?K (k_curr K) \<bind>
      (\<lambda>K. sched_signal junk (Do_signal_loop K (k_curr K) f))) = Some (0, ?K, f)"
    unfolding lock(1) using g q lock(2) c
    by (simp add: sched_signal_none_pending get_task_eq)
  show ?thesis
    unfolding scheduler_run_def using t st sig c
    by (subst sched_signal.simps)
       (auto simp: get_task_eq Option.bind_map_option split: Option.bind_splits)
qed

text \<open>Every task of the run queue can run and none has a signal to handle.\<close>

definition quiet :: "kernel \<Rightarrow> bool" where
  "quiet K \<longleftrightarrow> distinct (k_queue K) \<and> k_curr K \<in> set (k_queue K) \<and> mapped K (k_queue K)
     \<and> (\<forall>a \<in> set (k_queue K). runnable K a \<and> t_mm (task_of K a) \<noteq> NULL
          \<and> sp_list (t_pending (task_of K a)) = [] \<and> \<not> siglock (t_sighand (task_of K a)))"

lemma task_of_upd:
  "b \<noteq> NULL \<Longrightarrow> task_of (K\<lparr>k_tasks := (k_tasks K)(b \<mapsto> t)\<rparr>) a = (if a = b then t else task_of K a)"
  by (auto simp: task_of_def)

lemma quiet_upd:
  assumes "quiet K" and "b \<in> set (k_queue K)" and "t_state t = t_state (task_of K b)"
    and "t_mm t = t_mm (task_of K b)" and "t_pending t = t_pending (task_of K b)" and "t_sighand t = t_sighand (task_of K b)"
  shows "quiet (K\<lparr>k_tasks := (k_tasks K)(b \<mapsto> t)\<rparr>)"
proof -
  have "b \<noteq> NULL" using assms(1,2) mapped_not_null by (auto simp: quiet_def)
  then show ?thesis
    using assms by (auto simp: quiet_def mapped_def runnable_def task_of_upd)
qed

lemma switch_task_quiet:
  assumes q: "quiet K" and sp: "k_queue K = xs @ k_curr K # ys" "k_curr K \<notin> set xs"
  shows "\<exists>K' f'. switch_task K f = Some (K', f') \<and> quiet K' \<and> k_queue K' = k_queue K
    \<and> k_curr K' = hd (ys @ xs @ [k_curr K])"
proof -
  let ?c = "k_curr K"
  define a where "a = hd (ys @ xs @ [?c])"
  have m: "mapped K (k_queue K)" and all: "\<forall>a \<in> set (k_queue K). runnable K a" using q by (auto simp: quiet_def)
  have a: "a \<in> set (k_queue K)" unfolding a_def sp(1) by (cases ys; cases xs) auto
  obtain t where t: "get_task K ?c = Some t" using m sp(1) by (auto simp: mapped_def)
  have nz: "t_state t \<noteq> EXIT_ZOMBIE"
    using all sp(1) t by (auto simp: runnable_def task_states task_of_def)
  have pick: "scheduler_pick_next_task K = Some (a, started K a)"
  proof -
    have "\<forall>x \<in> set (ys @ xs). runnable K x" using all sp(1) by auto
    then have "xs @ ys \<noteq> [] \<Longrightarrow> find (runnable K) (ys @ xs) = Some a" unfolding a_def by (cases ys; cases xs) auto
    moreover have "xs @ ys = [] \<Longrightarrow> a = ?c" by (simp add: a_def)
    ultimately show ?thesis using scheduler_pick_next_task_spec [OF sp m] by auto
  qed
  have qs: "quiet (started K a)" unfolding started_def by (rule quiet_upd [OF q a]) simp_all
  have k: "k_curr (started K a) = ?c" "k_queue (started K a) = k_queue K" by (simp_all add: started_def)
  show ?thesis
  proof (cases "a = ?c")
    case True
    then show ?thesis using t nz pick qs k by (auto simp: switch_task_def a_def)
  next
    case False
    obtain u where u: "get_task (started K a) a = Some u" "t_mm u \<noteq> NULL"
      using qs a k by (fastforce simp: quiet_def mapped_def task_of_def)
    let ?K' = "log_call ((started K a)\<lparr>k_curr := a\<rparr>) (Vmm_switch_directory (k_pgd K (t_mm u)))"
    have "quiet ?K'"
      using qs a k by (auto simp: quiet_def mapped_def runnable_def task_of_def log_call_def get_task_def)
    then show ?thesis
      using t nz pick u False k
      by (auto simp: switch_task_def scheduler_restore_context_def a_def log_call_def started_def Let_def)
  qed
qed

lemma scheduler_run_quiet_step:
  assumes q: "quiet K" and i: "i < length (k_queue K)" "k_curr K = k_queue K ! i"
  shows "\<exists>K' f'. scheduler_run junk K f = Some (K', f') \<and> quiet K' \<and> k_queue K' = k_queue K
    \<and> k_curr K' = k_queue K ! (Suc i mod length (k_queue K))"
proof -
  let ?Q = "k_queue K" and ?c = "k_curr K"
  have m: "?c \<in> set ?Q" "mapped K ?Q" "distinct ?Q" using q by (auto simp: quiet_def)
  have nn: "?c \<noteq> NULL" by (rule mapped_not_null [OF m(2,1)])
  obtain t where t: "get_task K ?c = Some t" using m by (auto simp: mapped_def)
  have tt: "sp_list (t_pending t) = []" "\<not> siglock (t_sighand t)" using q t m(1) by (auto simp: quiet_def)
  have run: "scheduler_run junk K f = switch_task (stored K ?c f) f" by (rule scheduler_run_quiet [OF t tt(2,1)])
  have qs: "quiet (stored K ?c f)" unfolding stored_def by (rule quiet_upd [OF q m(1)]) simp_all
  have sp: "?Q = take i ?Q @ ?c # drop (Suc i) ?Q" using i by (simp add: id_take_nth_drop)
  have ni: "?c \<notin> set (take i ?Q)" using m(3) sp by (metis distinct_append IntI disjoint_iff list.set_intros(1))
  have c: "k_curr (stored K ?c f) = ?c" "k_queue (stored K ?c f) = ?Q" by (simp_all add: stored_def)
  have "hd (drop (Suc i) ?Q @ take i ?Q @ [?c]) = ?Q ! (Suc i mod length ?Q)"
  proof (cases "Suc i < length ?Q")
    case True
    then show ?thesis by (simp add: hd_append hd_drop_conv_nth)
  next
    case False
    then have "Suc i = length ?Q" using i(1) by simp
    then show ?thesis using i by (cases i) (auto simp: hd_append hd_conv_nth)
  qed
  then show ?thesis
    using switch_task_quiet [OF qs, of "take i ?Q" "drop (Suc i) ?Q" f] sp ni c run by auto
qed

text \<open>The scheduler is run several times; each run is given the registers of the timer interrupt.\<close>

fun scheduler_runs :: "sigset_t \<Rightarrow> kernel \<Rightarrow> pt_regs list \<Rightarrow> kernel option" where
  "scheduler_runs junk K [] = Some K"
| "scheduler_runs junk K (f # fs) = do {
     (K, _) \<leftarrow> scheduler_run junk K f;
     scheduler_runs junk K fs
   }"

lemma scheduler_runs_quiet:
  "quiet K \<Longrightarrow> i < length (k_queue K) \<Longrightarrow> k_curr K = k_queue K ! i \<Longrightarrow>
   \<exists>K'. scheduler_runs junk K fs = Some K' \<and> quiet K' \<and> k_queue K' = k_queue K
     \<and> k_curr K' = k_queue K ! ((i + length fs) mod length (k_queue K))"
proof (induction fs arbitrary: K i)
  case (Cons f fs)
  obtain K1 f1 where K1: "scheduler_run junk K f = Some (K1, f1)" "quiet K1" "k_queue K1 = k_queue K"
      "k_curr K1 = k_queue K ! (Suc i mod length (k_queue K))"
    using scheduler_run_quiet_step [OF Cons.prems] by blast
  have lt: "Suc i mod length (k_queue K) < length (k_queue K1)"
    unfolding K1(3) by (rule mod_less_divisor) (use Cons.prems(2) in linarith)
  obtain K2 where "scheduler_runs junk K1 fs = Some K2" "quiet K2" "k_queue K2 = k_queue K1"
      "k_curr K2 = k_queue K1 ! ((Suc i mod length (k_queue K) + length fs) mod length (k_queue K1))"
    using Cons.IH [OF K1(2) lt] K1(3,4) by auto
  then show ?case using K1 by (simp add: mod_add_left_eq)
qed auto

section \<open>Priorities\<close>

lemma sys_nice_eq:
  fixes increment :: int
  assumes c: "get_task K (k_curr K) = Some c" and p: "MAX_RT_PRIO \<le> se_prio (t_se c)" "se_prio (t_se c) < MAX_PRIO"
  defines "n \<equiv> max MIN_NICE (min MAX_NICE (PRIO_TO_NICE (se_prio (t_se c)) + increment))"
  shows "sys_nice K increment = Some (n, if PRIO_TO_NICE (se_prio (t_se c)) = n then K
      else K\<lparr>k_tasks := (k_tasks K)(k_curr K \<mapsto> c\<lparr>t_se := (t_se c)\<lparr>se_prio := NICE_TO_PRIO n\<rparr>\<rparr>)\<rparr>)"
proof -
  let ?i = "if (if increment < - 40 then - 40 else increment) > 40 then 40 else if increment < - 40 then - 40 else increment"
  let ?m = "PRIO_TO_NICE (se_prio (t_se c)) + ?i"
  have n: "(if (if ?m < MIN_NICE then MIN_NICE else ?m) > MAX_NICE then MAX_NICE else if ?m < MIN_NICE then MIN_NICE else ?m) = n"
    unfolding n_def using p by (auto simp: prio_defs)
  have b: "MIN_NICE \<le> n" "n \<le> MAX_NICE" "PRIO_TO_NICE (NICE_TO_PRIO n) = n" unfolding n_def by (auto simp: prio_defs)
  have nn: "k_curr K \<noteq> NULL" using c by (simp add: get_task_eq)
  show ?thesis
    unfolding sys_nice_def Let_def using c by (simp add: n b upd_task_def nn)
qed

section \<open>Small kernels\<close>

text \<open>The tasks have the pids and the addresses 1, 2, 3 and so on, and are all on the run queue.\<close>

definition regs0 :: pt_regs where
  "regs0 = \<lparr>r_gs = 35, r_fs = 35, r_es = 35, r_ds = 35, r_edi = 0, r_esi = 0, r_ebp = 0, r_esp = 0, r_ebx = 0, r_edx = 0,
     r_ecx = 0, r_eax = 0, r_int_no = 0, r_err_code = 0, r_eip = 4096, r_cs = 27, r_eflags = 512, r_useresp = 65536, r_ss = 35\<rparr>"

definition task0 :: "int \<Rightarrow> int \<Rightarrow> task_struct" where
  "task0 pid state = \<lparr>t_pid = pid, t_sid = 0, t_pgid = 0, t_gid = 0, t_uid = 0, t_state = state, t_parent = NULL,
     t_children = [], t_regs = regs0, t_signal_regs = regs0,
     t_se = default_se 0, t_exit_code = 0, t_name = ''t'', t_mm = 4096, t_error_no = 0, t_cwd = ''/'', t_sigreturn_addr = 0,
     t_sighand = \<lparr>action = replicate (nat NSIG) default_action, siglock = False\<rparr>,
     t_blocked = empty_sigset, t_real_blocked = empty_sigset, t_saved_sigmask = empty_sigset,
     t_pending = \<lparr>sp_list = [], sp_signal = empty_sigset\<rparr>,
     t_real_timer = NULL, it_real_incr = 0, it_real_value = 0, it_virt_incr = 0, it_virt_value = 0, it_prof_incr = 0,
     it_prof_value = 0, t_termios = default_termios,
     t_keyboard_rb = \<lparr>rb_size = 1, rb_read = 0, rb_write = 0, rb_buffer = [0]\<rparr>\<rparr>"

definition demo_kernel :: "addr \<Rightarrow> task_struct list \<Rightarrow> kernel" where
  "demo_kernel c ts = \<lparr>k_tasks = map_of (zip (map (\<lambda>t. word_of_int (t_pid t)) ts) ts),
     k_queue = map (\<lambda>t. word_of_int (t_pid t)) ts, k_curr = c, num_active = word_of_nat (length ts), num_periodic = 0,
     k_tid = word_of_nat (length ts) + 1, k_stopped = [], k_ticks = 0, k_pgd = (\<lambda>_. 8192), k_umem = (\<lambda>_. 0), k_errno = 0,
     k_no_memory = False, k_calls = []\<rparr>"

section \<open>Properties\<close>

text \<open>C25. Round robin: with \<open>xs\<close> before and \<open>ys\<close> after the current task on the run queue, the
  next task is the first runnable one after it, going round; a task that is alone is picked again, whatever its state.
  When other tasks are queued and none of them is runnable the assertion of
  \<^verbatim>\<open>scheduler_pick_next_task\<close> fails, although the current task may be runnable.\<close>

theorem scheduler_pick_next_task_round_robin:
  assumes "k_queue K = xs @ k_curr K # ys" and "k_curr K \<notin> set xs" and "mapped K (k_queue K)"
  shows "map_option fst (scheduler_pick_next_task K) =
    (if xs @ ys = [] then Some (k_curr K)
     else find (\<lambda>a. t_state (task_of K a) = TASK_RUNNING) (ys @ xs))"
  using scheduler_pick_next_task_spec [OF assms] by (auto simp: runnable_fun split: option.splits)

theorem scheduler_pick_next_task_round_robin_witness:
  "map_option fst (scheduler_pick_next_task (demo_kernel 2 [task0 1 TASK_RUNNING, task0 2 TASK_RUNNING, task0 3 TASK_STOPPED]))
     = Some 1
   \<and> map_option fst (scheduler_pick_next_task (demo_kernel 1 [task0 1 TASK_RUNNING, task0 2 TASK_STOPPED])) = None"
  using scheduler_pick_next_task_round_robin [of "demo_kernel 2 [task0 1 TASK_RUNNING, task0 2 TASK_RUNNING, task0 3 TASK_STOPPED]" "[1]" "[3]"]
    scheduler_pick_next_task_round_robin [of "demo_kernel 1 [task0 1 TASK_RUNNING, task0 2 TASK_STOPPED]" "[]" "[2]"]
  by (simp add: demo_kernel_def mapped_def get_task_def task_of_def task0_def task_states)

text \<open>C5. Every task gets its turn: when all the tasks of the run queue are runnable and mapped, have a memory image, no pending
  signal and a free lock, every run of the scheduler returns, and after \<open>m\<close> runs the current task is the \<open>m\<close>-th after
  the first one, counted round the queue. So each of \<open>n\<close> tasks runs once in \<open>n\<close> runs.\<close>

theorem scheduler_run_fair:
  assumes "quiet K" and "i < length (k_queue K)" and "k_curr K = k_queue K ! i"
  shows "\<exists>K'. scheduler_runs junk K fs = Some K' \<and> k_queue K' = k_queue K
    \<and> k_curr K' = k_queue K ! ((i + length fs) mod length (k_queue K))"
  using scheduler_runs_quiet [OF assms] by blast

theorem scheduler_run_fair_witness:
  "\<exists>K'. scheduler_runs empty_sigset (demo_kernel 2 [task0 1 TASK_RUNNING, task0 2 TASK_RUNNING, task0 3 TASK_RUNNING])
      [regs0, regs0] = Some K' \<and> k_curr K' = 1"
proof -
  let ?K = "demo_kernel 2 [task0 1 TASK_RUNNING, task0 2 TASK_RUNNING, task0 3 TASK_RUNNING]"
  have "quiet ?K"
    by (auto simp: quiet_def demo_kernel_def mapped_def get_task_def task_of_def task0_def runnable_def)
  then show ?thesis
    using scheduler_run_fair [of ?K 1 empty_sigset "[regs0, regs0]"] by (auto simp: demo_kernel_def task0_def)
qed

text \<open>\<^verbatim>\<open>sys_nice\<close> with any increment returns a nice value between -20 and 19 and leaves the task of a
  valid priority with a valid priority: the returned nice value is the old one plus the increment, clamped to the bounds.\<close>

theorem sys_nice_clamped:
  assumes "get_task K (k_curr K) = Some c" and "MAX_RT_PRIO \<le> se_prio (t_se c)" and "se_prio (t_se c) < MAX_PRIO"
  shows "\<exists>K' c'. sys_nice K increment = Some (max MIN_NICE (min MAX_NICE (PRIO_TO_NICE (se_prio (t_se c)) + increment)), K')
    \<and> get_task K' (k_curr K') = Some c' \<and> MAX_RT_PRIO \<le> se_prio (t_se c') \<and> se_prio (t_se c') < MAX_PRIO
    \<and> GET_WEIGHT (se_prio (t_se c')) \<noteq> None"
proof -
  let ?n = "max MIN_NICE (min MAX_NICE (PRIO_TO_NICE (se_prio (t_se c)) + increment))"
  let ?c = "c\<lparr>t_se := (t_se c)\<lparr>se_prio := NICE_TO_PRIO ?n\<rparr>\<rparr>"
  have b: "MAX_RT_PRIO \<le> NICE_TO_PRIO ?n" "NICE_TO_PRIO ?n < MAX_PRIO" "PRIO_TO_NICE (NICE_TO_PRIO ?n) = ?n"
    by (auto simp: prio_defs)
  have "sys_nice K increment = Some (?n, if PRIO_TO_NICE (se_prio (t_se c)) = ?n then K
      else K\<lparr>k_tasks := (k_tasks K)(k_curr K \<mapsto> ?c)\<rparr>)"
    by (rule sys_nice_eq [OF assms])
  moreover have "GET_WEIGHT p \<noteq> None" if "MAX_RT_PRIO \<le> p" "p < MAX_PRIO" for p
    using that by (simp add: GET_WEIGHT_def prio_defs prio_to_weight_def)
  ultimately show ?thesis using assms b by (cases "PRIO_TO_NICE (se_prio (t_se c)) = ?n") (auto simp: get_task_eq)
qed

theorem sys_nice_clamped_witness:
  "\<exists>K'. sys_nice (demo_kernel 1 [task0 1 TASK_RUNNING]) (- 2147483648) = Some (- 20, K')"
  using sys_nice_clamped [of "demo_kernel 1 [task0 1 TASK_RUNNING]" "task0 1 TASK_RUNNING" "- 2147483648"]
  by (auto simp: demo_kernel_def task0_def default_se_def get_task_def prio_defs)

end
