(* ===== verification/Process_Props.thy ===== *)
theory Process_Props
  imports Sched_Props
begin

text \<open>
  Properties of the life of processes: what leaving hands over to the first process, what waiting for a child
  frees, how the number of active processes goes wrong, and what a new process gets.
\<close>

lemma bind_SomeE: "m \<bind> f = Some y \<Longrightarrow> (\<And>x. m = Some x \<Longrightarrow> f x = Some y \<Longrightarrow> P) \<Longrightarrow> P"
  by (cases m) auto

lemma get_task_not_null: "get_task K a = Some t \<Longrightarrow> a \<noteq> NULL"
  by (simp add: get_task_eq)

lemma get_task_upd_twice [simp]:
  "get_task (K\<lparr>k_tasks := (k_tasks K)(a \<mapsto> t, b \<mapsto> u)\<rparr>) c =
   (if c = b \<and> b \<noteq> NULL then Some u else if c = a \<and> a \<noteq> NULL then Some t else get_task K c)"
  by (simp add: get_task_def)

section \<open>What sending a signal leaves alone\<close>

definition core :: "task_struct \<Rightarrow> int \<times> int \<times> addr \<times> addr list \<times> addr \<times> u32 \<times> addr" where
  "core t = (t_pid t, t_state t, t_parent t, t_children t, t_mm t, t_exit_code t, t_real_timer t)"

definition same_core :: "kernel \<Rightarrow> kernel \<Rightarrow> bool" where
  "same_core K K' \<longleftrightarrow> k_queue K' = k_queue K \<and> k_curr K' = k_curr K \<and> num_active K' = num_active K
     \<and> k_calls K' = k_calls K \<and> (\<forall>a. map_option core (get_task K' a) = map_option core (get_task K a))"

lemma same_core_refl [simp]: "same_core K K"
  by (simp add: same_core_def)

lemma same_core_trans: "same_core K1 K2 \<Longrightarrow> same_core K2 K3 \<Longrightarrow> same_core K1 K3"
  by (simp add: same_core_def)

lemma same_core_upd:
  "upd_task K a f = Some K' \<Longrightarrow> (\<And>t. core (f t) = core t) \<Longrightarrow> same_core K K'"
  by (auto simp: same_core_def upd_task_def dest: get_task_not_null split: bind_splits)

lemma same_core_lock: "lock_task_sighand K a = Some K' \<Longrightarrow> same_core K K'"
  by (auto simp: lock_task_sighand_def core_def split: bind_splits if_splits elim!: same_core_upd)

lemma same_core_unlock: "unlock_task_sighand K a = Some K' \<Longrightarrow> same_core K K'"
  by (auto simp: unlock_task_sighand_def core_def elim!: same_core_upd)

lemma same_core_send_signal:
  assumes "send_signal K sig info a = Some (r, K')"
  shows "same_core K K'"
proof -
  obtain K1 K2 where 1: "lock_task_sighand K a = Some K1" and 3: "unlock_task_sighand K2 a = Some K'"
    and 2: "K2 = K1 \<or> (\<exists>S. upd_task K1 a (\<lambda>t. t\<lparr>t_pending := \<lparr>sp_list = sp_list (t_pending t) @ [info], sp_signal = S\<rparr>\<rparr>) = Some K2)"
    using assms by (fastforce simp: send_signal_def split: bind_splits if_splits)
  have "same_core K1 K2" using 2 by (auto simp: core_def elim!: same_core_upd)
  then show ?thesis using same_core_lock [OF 1] same_core_unlock [OF 3] same_core_trans by blast
qed

text \<open>The signals that neither stop nor continue a task.\<close>

definition plain_signal :: "int \<Rightarrow> bool" where
  "plain_signal sig \<longleftrightarrow> 1 \<le> sig \<and> sig < NSIG \<and> sig \<notin> {SIGCONT, SIGSTOP, SIGTSTP, SIGTTIN, SIGTTOU}"

lemma plain_SIGCHLD [simp]: "plain_signal SIGCHLD"
  by (simp add: plain_signal_def signal_numbers)

lemma same_core_send_sig_info:
  assumes "send_sig_info junk K sig info a = Some (r, K')" "plain_signal sig"
  shows "same_core K K'"
proof -
  obtain K1 K2 r' where K: "lock_task_sighand K a = Some K1" "unlock_task_sighand K1 a = Some K2"
      "send_signal K2 sig info a = Some (r', K')"
    using assms by (auto simp: send_sig_info_def handle_stop_signal_def plain_signal_def split: bind_splits)
  show ?thesis
    by (rule same_core_trans [OF same_core_lock [OF K(1)]
          same_core_trans [OF same_core_unlock [OF K(2)] same_core_send_signal [OF K(3)]]])
qed

lemma same_core_kill: "sys_kill junk K pid sig = Some (r, K') \<Longrightarrow> plain_signal sig \<Longrightarrow> same_core K K'"
  by (auto simp: sys_kill_def split: bind_splits if_splits elim: same_core_send_sig_info)

lemmas same_core_sys_kill = same_core_kill [OF _ plain_SIGCHLD]

lemma same_core_task:
  "same_core K K' \<Longrightarrow> get_task K a = Some t \<Longrightarrow> \<exists>t'. get_task K' a = Some t' \<and> core t' = core t"
  by (auto simp: same_core_def dest!: spec [of _ a])

section \<open>Children\<close>

lemma set_parents_spec:
  assumes "set_parents K p as = Some K'"
  shows "k_queue K' = k_queue K \<and> k_curr K' = k_curr K \<and> num_active K' = num_active K \<and> k_calls K' = k_calls K
    \<and> (\<forall>a. get_task K' a = map_option (\<lambda>t. if a \<in> set as then t\<lparr>t_parent := p\<rparr> else t) (get_task K a))"
  using assms
proof (induction K p as arbitrary: K' rule: set_parents.induct)
  case (1 K p)
  then show ?case by (simp add: option.map_ident)
next
  case (2 K p a as)
  then obtain K1 where K1: "upd_task K a (\<lambda>t. t\<lparr>t_parent := p\<rparr>) = Some K1" "set_parents K1 p as = Some K'"
    by (auto split: bind_splits)
  then show ?case
    using "2.IH" [OF K1]
    by (auto simp: upd_task_def dest: get_task_not_null split: bind_splits)
qed

section \<open>Signals are always sent\<close>

definition signal_ready :: "task_struct \<Rightarrow> bool" where
  "signal_ready t \<longleftrightarrow> \<not> siglock (t_sighand t) \<and> length (action (t_sighand t)) = nat NSIG"

lemma sig_is_ignored_total:
  "signal_ready t \<Longrightarrow> 1 \<le> sig \<Longrightarrow> sig < NSIG \<Longrightarrow>
   \<exists>b. sig_is_ignored (t\<lparr>t_sighand := (t_sighand t)\<lparr>siglock := l\<rparr>\<rparr>) sig = Some b"
  by (auto simp: signal_ready_def sig_is_ignored_def sigismember_def sig_index_def get_handler_def get_action_def NSIG_def)

lemma send_signal_total:
  assumes t: "get_task K a = Some t" "signal_ready t" and s: "1 \<le> sig" "sig < NSIG"
  shows "\<exists>r K'. send_signal K sig info a = Some (r, K')"
proof -
  let ?t = "t\<lparr>t_sighand := (t_sighand t)\<lparr>siglock := True\<rparr>\<rparr>"
  have nn: "a \<noteq> NULL" using t(1) by (rule get_task_not_null)
  have lk: "lock_task_sighand K a = Some (K\<lparr>k_tasks := (k_tasks K)(a \<mapsto> ?t)\<rparr>)"
    using t by (simp add: lock_task_sighand_def upd_task_def signal_ready_def)
  obtain b where b: "sig_is_ignored ?t sig = Some b" using sig_is_ignored_total [OF t(2) s] by blast
  show ?thesis
    using lk b s nn
    by (auto simp: send_signal_def unlock_task_sighand_def upd_task_def sigaddset_def sig_index_def NSIG_def)
qed

lemma sys_kill_total:
  assumes q: "\<And>a. a \<in> set (k_queue K) \<Longrightarrow> \<exists>t. get_task K a = Some t \<and> signal_ready t" and p: "plain_signal sig"
  shows "\<exists>r K'. sys_kill junk K pid sig = Some (r, K')"
proof -
  have m: "mapped K (k_queue K)" using q by (fastforce simp: mapped_def)
  let ?f = "find (\<lambda>a. t_pid (task_of K a) = pid) (k_queue K)"
  have f: "scheduler_get_running_process K pid = Some (ptr_or_null ?f)"
    unfolding scheduler_get_running_process_def by (rule find_task_spec [OF m])
  show ?thesis
  proof (cases ?f)
    case None
    then show ?thesis using f by (simp add: sys_kill_def ptr_or_null_def)
  next
    case (Some a)
    then obtain t where t: "get_task K a = Some t" "signal_ready t" using q find_in_set [OF Some] by blast
    have nn: "a \<noteq> NULL" using t(1) by (rule get_task_not_null)
    note lk = lock_unlock [OF t(1)]
    obtain r K' where "send_signal K sig (user_siginfo sig SI_USER t) a = Some (r, K')"
      using send_signal_total [OF t, of sig] p by (fastforce simp: plain_signal_def)
    then show ?thesis
      using f Some t nn lk p
      by (auto simp: sys_kill_def ptr_or_null_def send_sig_info_def handle_stop_signal_def signal_ready_def plain_signal_def)
  qed
qed

lemmas sys_kill_SIGCHLD_total = sys_kill_total [OF _ plain_SIGCHLD]

section \<open>Leaving\<close>

lemma get_task_upd_task:
  "upd_task K a f = Some K' \<Longrightarrow> get_task K' b = (if b = a then map_option f (get_task K a) else get_task K b)"
  by (auto simp: upd_task_def dest: get_task_not_null split: bind_splits)

lemma upd_task_other:
  "upd_task K a f = Some K' \<Longrightarrow> k_queue K' = k_queue K \<and> k_curr K' = k_curr K \<and> num_active K' = num_active K
     \<and> k_calls K' = k_calls K"
  by (auto simp: upd_task_def split: bind_splits)

lemma set_parents_total:
  "(\<And>a. a \<in> set as \<Longrightarrow> get_task K a \<noteq> None) \<Longrightarrow> \<exists>K'. set_parents K p as = Some K'"
proof (induction K p as rule: set_parents.induct)
  case (2 K p a as)
  then obtain t where t: "get_task K a = Some t" by force
  then have "\<exists>K'. set_parents (K\<lparr>k_tasks := (k_tasks K)(a \<mapsto> t\<lparr>t_parent := p\<rparr>)\<rparr>) p as = Some K'"
    using 2 by (auto simp: upd_task_eq dest: get_task_not_null)
  then show ?case using t by (simp add: upd_task_eq)
qed simp

text \<open>The kernel after the notification of the parent.\<close>

lemma sys_exit_notify:
  fixes code :: u32
  assumes t: "get_task K (k_curr K) = Some t"
    and q: "\<And>a. a \<in> set (k_queue K) \<Longrightarrow> \<exists>t. get_task K a = Some t \<and> signal_ready t"
    and p: "t_parent t \<noteq> NULL \<Longrightarrow> get_task K (t_parent t) \<noteq> None"
  defines "z \<equiv> K\<lparr>k_tasks := (k_tasks K)(k_curr K \<mapsto> t\<lparr>t_exit_code := push_bit 8 code AND 0xFF00, t_state := EXIT_ZOMBIE\<rparr>)\<rparr>"
  shows "\<exists>K1. (if t_parent t \<noteq> NULL then do {
            p \<leftarrow> get_task z (t_parent t);
            (_, K) \<leftarrow> sys_kill junk z (t_pid p) SIGCHLD;
            Some K
          }
          else Some z) = Some K1 \<and> same_core z K1"
proof (cases "t_parent t = NULL")
  case False
  have nn: "k_curr K \<noteq> NULL" using t by (rule get_task_not_null)
  obtain p where p: "get_task z (t_parent t) = Some p" using p [OF False] nn by (cases "t_parent t = k_curr K") (auto simp: z_def)
  have "\<exists>t. get_task z a = Some t \<and> signal_ready t" if "a \<in> set (k_queue z)" for a
    using q [of a] that t nn by (auto simp: z_def signal_ready_def)
  then obtain r K1 where K1: "sys_kill junk z (t_pid p) SIGCHLD = Some (r, K1)"
    using sys_kill_SIGCHLD_total by blast
  then show ?thesis using False p same_core_sys_kill [OF K1] by auto
qed simp

lemma log_call_other:
  "k_queue (log_call K x) = k_queue K" "k_curr (log_call K x) = k_curr K" "k_calls (log_call K x) = k_calls K @ [x]"
  by (simp_all add: log_call_def)

text \<open>The children are handed over.\<close>

lemma hand_over:
  assumes t: "get_task K a = Some t" and i: "get_task K i = Some it" and ne: "a \<noteq> i" "t_children t \<noteq> []" "t_children it \<noteq> []"
    and m: "\<And>b. b \<in> set (t_children t) \<Longrightarrow> get_task K b \<noteq> None" and na: "a \<notin> set (t_children t)" "i \<notin> set (t_children t)"
  shows "\<exists>K'. (do { K \<leftarrow> set_parents K i (t_children t); append_children K i a }) = Some K'
    \<and> k_queue K' = k_queue K \<and> k_calls K' = k_calls K
    \<and> get_task K' a = Some (t\<lparr>t_children := []\<rparr>) \<and> get_task K' i = Some (it\<lparr>t_children := t_children it @ t_children t\<rparr>)
    \<and> (\<forall>b. b \<noteq> a \<longrightarrow> b \<noteq> i \<longrightarrow>
         get_task K' b = map_option (\<lambda>u. if b \<in> set (t_children t) then u\<lparr>t_parent := i\<rparr> else u) (get_task K b))"
proof -
  obtain K1 where K1: "set_parents K i (t_children t) = Some K1" using set_parents_total m by blast
  note s = set_parents_spec [OF K1]
  have g: "get_task K1 a = Some t" "get_task K1 i = Some it" using s t i na by auto
  have nn: "a \<noteq> NULL" "i \<noteq> NULL" using t i by (auto dest: get_task_not_null)
  have ap: "append_children K1 i a = Some (K1\<lparr>k_tasks := (k_tasks K1)(i \<mapsto> it\<lparr>t_children := t_children it @ t_children t\<rparr>,
      a \<mapsto> t\<lparr>t_children := []\<rparr>)\<rparr>)"
    using g ne nn by (simp add: append_children_def upd_task_def)
  have "get_task K1 b = map_option (\<lambda>u. if b \<in> set (t_children t) then u\<lparr>t_parent := i\<rparr> else u) (get_task K b)" for b
    using s by blast
  then show ?thesis
    using K1 s ap ne(1) nn by simp
qed

lemma sys_exit_spec:
  assumes t: "get_task K (k_curr K) = Some t"
    and q: "\<And>a. a \<in> set (k_queue K) \<Longrightarrow> \<exists>t. get_task K a = Some t \<and> signal_ready t"
    and p: "t_parent t \<noteq> NULL \<Longrightarrow> get_task K (t_parent t) \<noteq> None"
    and i: "scheduler_get_running_process K 1 = Some i" "get_task K i = Some it" "k_curr K \<noteq> i" "t_children it \<noteq> []"
    and m: "\<And>b. b \<in> set (t_children t) \<Longrightarrow> get_task K b \<noteq> None"
    and na: "k_curr K \<notin> set (t_children t)" "i \<notin> set (t_children t)"
  shows "\<exists>K'. sys_exit junk K code = Some K' \<and> k_queue K' = k_queue K
    \<and> k_calls K' = k_calls K @ [Mmu_destroy_process_image (t_mm t)]
    \<and> (\<exists>t'. get_task K' (k_curr K) = Some t' \<and> t_state t' = EXIT_ZOMBIE \<and> t_children t' = []
          \<and> t_exit_code t' = push_bit 8 code AND 0xFF00)
    \<and> (\<exists>it'. get_task K' i = Some it' \<and> t_children it' = t_children it @ t_children t)
    \<and> (\<forall>b \<in> set (t_children t). \<exists>u. get_task K' b = Some u \<and> t_parent u = i)"
proof -
  let ?c = "k_curr K"
  let ?t = "t\<lparr>t_exit_code := push_bit 8 code AND 0xFF00, t_state := EXIT_ZOMBIE\<rparr>"
  define z where "z = K\<lparr>k_tasks := (k_tasks K)(?c \<mapsto> ?t)\<rparr>"
  have z: "upd_task K ?c (\<lambda>t. t\<lparr>t_exit_code := push_bit 8 code AND 0xFF00, t_state := EXIT_ZOMBIE\<rparr>) = Some z"
    using t by (simp add: upd_task_def z_def)
  have nn: "?c \<noteq> NULL" using t by (rule get_task_not_null)
  have zt: "get_task z ?c = Some ?t" "get_task z i = Some it" using nn i by (simp_all add: z_def)
  obtain K1 where K1: "(if t_parent t \<noteq> NULL then do {
            p \<leftarrow> get_task z (t_parent t);
            (_, K) \<leftarrow> sys_kill junk z (t_pid p) SIGCHLD;
            Some K
          }
          else Some z) = Some K1" "same_core z K1"
    using sys_exit_notify [OF t q p] unfolding z_def by blast
  have kz: "k_queue K1 = k_queue K" "k_calls K1 = k_calls K" using K1(2) by (simp_all add: same_core_def z_def)
  obtain t1 where t1: "get_task K1 ?c = Some t1" "core t1 = core ?t" using same_core_task [OF K1(2) zt(1)] by blast
  obtain it1 where it1: "get_task K1 i = Some it1" "core it1 = core it" using same_core_task [OF K1(2) zt(2)] by blast
  have m1: "get_task K1 b \<noteq> None" if "b \<in> set (t_children t1)" for b
  proof -
    have "get_task z b \<noteq> None" using m [of b] that t1(2) nn by (simp add: core_def z_def)
    then show ?thesis using same_core_task [OF K1(2)] by blast
  qed
  have f: "t_children t1 = t_children t" "t_mm t1 = t_mm t" "t_state t1 = EXIT_ZOMBIE" "t_children it1 = t_children it"
      "t_exit_code t1 = push_bit 8 code AND 0xFF00"
    using t1(2) it1(2) by (simp_all add: core_def)
  have sys: "sys_exit junk K code = (do {
      K \<leftarrow> (if t_children t1 \<noteq> [] then do { K \<leftarrow> set_parents K1 i (t_children t1); append_children K i ?c } else Some K1);
      Some (log_call K (Mmu_destroy_process_image (t_mm t1)))
    })"
    unfolding sys_exit_def Let_def using t i z K1(1) t1(1) by simp
  show ?thesis
  proof (cases "t_children t = []")
    case True
    then show ?thesis using sys f kz t1(1) it1(1) by (simp add: log_call_other)
  next
    case False
    obtain K2 where "(do { K \<leftarrow> set_parents K1 i (t_children t1); append_children K i ?c }) = Some K2"
       "k_queue K2 = k_queue K1" "k_calls K2 = k_calls K1" "get_task K2 ?c = Some (t1\<lparr>t_children := []\<rparr>)"
       "get_task K2 i = Some (it1\<lparr>t_children := t_children it1 @ t_children t1\<rparr>)"
       "\<forall>b. b \<noteq> ?c \<longrightarrow> b \<noteq> i \<longrightarrow>
         get_task K2 b = map_option (\<lambda>u. if b \<in> set (t_children t1) then u\<lparr>t_parent := i\<rparr> else u) (get_task K1 b)"
      using hand_over [OF t1(1) it1(1) i(3)] False i(4) m1 na f by auto
    moreover have "b \<noteq> ?c \<and> b \<noteq> i" if "b \<in> set (t_children t)" for b using that na by auto
    ultimately show ?thesis using sys f kz False m1 by (fastforce simp: log_call_other)
  qed
qed

section \<open>Waiting\<close>

definition matches :: "kernel \<Rightarrow> int \<Rightarrow> addr \<Rightarrow> bool" where
  "matches K pid a \<longleftrightarrow> t_state (task_of K a) = EXIT_ZOMBIE \<and> (pid > 1 \<longrightarrow> t_pid (task_of K a) = pid)"

lemma find_zombie_spec:
  "mapped K as \<Longrightarrow> find_zombie K pid as = Some (ptr_or_null (find (matches K pid) as))"
  by (induction as) (auto simp: mapped_def ptr_or_null_def task_of_def matches_def)

lemma reap_spec:
  assumes c: "get_task K (k_curr K) = Some c" and e: "get_task K a = Some e" and ne: "a \<noteq> k_curr K"
  shows "\<exists>K'. reap K a = Some K' \<and> get_task K' a = None
    \<and> get_task K' (k_curr K) = Some (c\<lparr>t_children := remove1 a (t_children c)\<rparr>)
    \<and> (\<forall>b. b \<noteq> a \<longrightarrow> b \<noteq> k_curr K \<longrightarrow> get_task K' b = get_task K b)
    \<and> k_curr K' = k_curr K \<and> k_queue K' = remove1 a (k_queue K) \<and> num_active K' = num_active K - 1
    \<and> k_calls K' = k_calls K @ [Vfs_destroy_task a]"
proof -
  have nn: "k_curr K \<noteq> NULL" "a \<noteq> NULL" using c e by (auto dest: get_task_not_null)
  then show ?thesis
    using c e ne
    by (auto simp: reap_def Let_def upd_task_def scheduler_dequeue_task_def get_task_def log_call_def)
qed

section \<open>A process killed by a signal\<close>

definition zombie_current :: "kernel \<Rightarrow> addr \<Rightarrow> bool" where
  "zombie_current K c \<longleftrightarrow> k_curr K = c \<and> (\<exists>t. get_task K c = Some t \<and> t_state t = EXIT_ZOMBIE)"

lemma zombie_same_core: "zombie_current K c \<Longrightarrow> same_core K K' \<Longrightarrow> zombie_current K' c"
  using same_core_task [of K K' c] by (fastforce simp: zombie_current_def same_core_def core_def)

lemma zombie_set_parents: "zombie_current K c \<Longrightarrow> set_parents K p as = Some K' \<Longrightarrow> zombie_current K' c"
  using set_parents_spec [of K p as K'] by (cases "c \<in> set as") (auto simp: zombie_current_def)

lemma zombie_append_children: "zombie_current K c \<Longrightarrow> append_children K i c = Some K' \<Longrightarrow> zombie_current K' c"
  by (auto simp: zombie_current_def append_children_def upd_task_def dest: get_task_not_null split: bind_splits if_splits)

lemma sys_exit_frame:
  assumes "sys_exit junk K code = Some K'"
  shows "zombie_current K' (k_curr K)"
proof -
  let ?c = "k_curr K"
  let ?f = "\<lambda>t. t\<lparr>t_exit_code := push_bit 8 code AND 0xFF00, t_state := EXIT_ZOMBIE\<rparr>"
  obtain t where t: "get_task K ?c = Some t" using assms by (cases "get_task K ?c") (auto simp: sys_exit_def)
  obtain i where i: "scheduler_get_running_process K 1 = Some i"
    using assms t by (cases "scheduler_get_running_process K 1") (auto simp: sys_exit_def)
  obtain K1 where K1: "upd_task K ?c ?f = Some K1" using t by (simp add: upd_task_def)
  have r: "(do {
      K \<leftarrow> (if t_parent t \<noteq> NULL then do {
            p \<leftarrow> get_task K1 (t_parent t);
            (_, K) \<leftarrow> sys_kill junk K1 (t_pid p) SIGCHLD;
            Some K
          }
          else Some K1);
      c \<leftarrow> get_task K ?c;
      K \<leftarrow> (if t_children c \<noteq> [] then do { K \<leftarrow> set_parents K i (t_children c); append_children K i ?c } else Some K);
      Some (log_call K (Mmu_destroy_process_image (t_mm c)))
    }) = Some K'"
    using assms t i K1 unfolding sys_exit_def Let_def by (simp split: if_splits)
  have z: "zombie_current K1 ?c" using t K1 by (auto simp: zombie_current_def upd_task_def dest: get_task_not_null)
  obtain K2 where e: "(if t_parent t \<noteq> NULL then do {
            p \<leftarrow> get_task K1 (t_parent t);
            (_, K) \<leftarrow> sys_kill junk K1 (t_pid p) SIGCHLD;
            Some K
          }
          else Some K1) = Some K2"
    and r2: "(do {
      c \<leftarrow> get_task K2 ?c;
      K \<leftarrow> (if t_children c \<noteq> [] then do { K \<leftarrow> set_parents K2 i (t_children c); append_children K i ?c } else Some K2);
      Some (log_call K (Mmu_destroy_process_image (t_mm c)))
    }) = Some K'"
    using r by (rule bind_SomeE)
  have K2: "same_core K1 K2"
  proof (cases "t_parent t = NULL")
    case False
    then obtain p where "get_task K1 (t_parent t) = Some p" using e by (cases "get_task K1 (t_parent t)") simp_all
    then show ?thesis
      using e False by (cases "sys_kill junk K1 (t_pid p) SIGCHLD") (auto simp: same_core_sys_kill)
  qed (use e in simp)
  have z2: "zombie_current K2 ?c" by (rule zombie_same_core [OF z K2])
  obtain c where "get_task K2 ?c = Some c" and r3: "(do {
      K \<leftarrow> (if t_children c \<noteq> [] then do { K \<leftarrow> set_parents K2 i (t_children c); append_children K i ?c } else Some K2);
      Some (log_call K (Mmu_destroy_process_image (t_mm c)))
    }) = Some K'"
    using r2 by (rule bind_SomeE)
  obtain K3 where e3: "(if t_children c \<noteq> [] then do { K \<leftarrow> set_parents K2 i (t_children c); append_children K i ?c }
        else Some K2) = Some K3"
    and "Some (log_call K3 (Mmu_destroy_process_image (t_mm c))) = Some K'"
    using r3 by (rule bind_SomeE)
  then have K': "K' = log_call K3 (Mmu_destroy_process_image (t_mm c))" by simp
  have "zombie_current K3 ?c"
  proof (cases "t_children c = []")
    case True
    then show ?thesis using e3 z2 by simp
  next
    case False
    then obtain K4 where "set_parents K2 i (t_children c) = Some K4" "append_children K4 i ?c = Some K3"
      using e3 by (cases "set_parents K2 i (t_children c)") simp_all
    then show ?thesis by (rule zombie_append_children [OF zombie_set_parents [OF z2]])
  qed
  then show ?thesis unfolding K' by (simp add: zombie_current_def log_call_other)
qed

text \<open>The current task when the signal has been taken from its queue, with the lock held.\<close>

definition taken :: "kernel \<Rightarrow> task_struct \<Rightarrow> pt_regs \<Rightarrow> sigpending_t \<Rightarrow> kernel" where
  "taken K t f pd = K\<lparr>k_tasks := (k_tasks K)(k_curr K \<mapsto>
     t\<lparr>t_regs := f, t_sighand := (t_sighand t)\<lparr>siglock := True\<rparr>, t_pending := pd\<rparr>)\<rparr>"

definition kills_by_default :: "task_struct \<Rightarrow> int \<Rightarrow> bool" where
  "kills_by_default t s \<longleftrightarrow> 0 < s \<and> s < NSIG \<and> get_handler t s = Some SIG_DFL \<and> \<not> ignored_by_default s
     \<and> s \<notin> {SIGTSTP, SIGTTIN, SIGTTOU, SIGSTOP, SIGQUIT, SIGILL, SIGTRAP, SIGABRT}"

lemma scheduler_run_killed:
  assumes t: "get_task K (k_curr K) = Some t" "t_pid t \<noteq> 1" "\<not> siglock (t_sighand t)" and cs: "r_cs f AND 3 = 3"
    and p: "sp_list (t_pending t) = q # qs"
    and d: "\<And>K. dequeue_signal K (t_pending t) (t_blocked t) = Some (s, pd, info)" and k: "kills_by_default t s"
  shows "scheduler_run junk K f =
    map_option (\<lambda>K'. (K', f)) (do { K2 \<leftarrow> sys_exit junk (taken K t f pd) (word_of_int s); unlock_task_sighand K2 (k_curr K) })"
proof -
  let ?c = "k_curr K"
  let ?t = "t\<lparr>t_regs := f, t_sighand := (t_sighand t)\<lparr>siglock := True\<rparr>\<rparr>"
  have nn: "?c \<noteq> NULL" using t(1) by (rule get_task_not_null)
  define K1 where "K1 = K\<lparr>k_tasks := (k_tasks K)(?c \<mapsto> ?t)\<rparr>"
  define K0 where "K0 = K\<lparr>k_tasks := (k_tasks K)(?c \<mapsto> t\<lparr>t_regs := f\<rparr>)\<rparr>"
  have lk: "scheduler_store_context K f ?c = Some K0" "lock_task_sighand K0 ?c = Some K1" "k_curr K0 = ?c" "k_curr K1 = ?c"
    using t nn by (simp_all add: scheduler_store_context_def lock_task_sighand_def upd_task_def K0_def K1_def)
  obtain ka where ka: "get_action t s = Some ka" "sa_handler ka = SIG_DFL"
    using k by (auto simp: kills_by_default_def get_handler_def)
  have ka': "get_action ?t s = Some ka" using ka(1) by (auto simp: get_action_def split: if_splits)
  have K1: "get_task K1 ?c = Some ?t" "upd_task K1 ?c (\<lambda>t. t\<lparr>t_pending := pd\<rparr>) = Some (taken K t f pd)"
    using nn by (simp_all add: K1_def upd_task_def taken_def)
  have sg: "SIG_DFL \<noteq> SIG_IGN" by (simp add: SIG_DFL_def SIG_IGN_def)
  have loop: "sched_signal junk (Do_signal_loop K1 ?c f) =
      map_option (\<lambda>K'. (1, K', f)) (do { K2 \<leftarrow> sys_exit junk (taken K t f pd) (word_of_int s); unlock_task_sighand K2 ?c })"
    using K1 ka ka' d k p t(2) sg
    by (subst sched_signal.simps) (auto simp: kills_by_default_def map_conv_bind_option bind_assoc comp_def)
  let ?x = "do { K2 \<leftarrow> sys_exit junk (taken K t f pd) (word_of_int s); unlock_task_sighand K2 ?c }"
  have "sched_signal junk (Scheduler_run K f) = (do {
      (r, K, f) \<leftarrow> map_option (\<lambda>K'. (1::int, K', f)) ?x;
      if r = 0 then do { (K, f) \<leftarrow> switch_task K f; Some (0, K, f) } else Some (0, K, f) })"
    by (subst sched_signal.simps) (simp add: lk nn cs loop)
  also have "\<dots> = map_option (\<lambda>K'. (0, K', f)) ?x" by (cases ?x) simp_all
  finally show ?thesis unfolding scheduler_run_def by (simp add: option.map_comp comp_def)
qed

section \<open>Properties\<close>

text \<open>C26. Leaving: when every queued task can receive signals, \<^verbatim>\<open>sys_exit\<close> returns with the current task a
  zombie with its exit code, its parent's address kept, its memory image destroyed, and its children handed over to
  the first process: they follow the children of that process, which must have some, and have it as parent.\<close>

theorem sys_exit_hands_over:
  assumes "get_task K (k_curr K) = Some t"
    and "\<And>a. a \<in> set (k_queue K) \<Longrightarrow> \<exists>t. get_task K a = Some t \<and> signal_ready t"
    and "t_parent t \<noteq> NULL \<Longrightarrow> get_task K (t_parent t) \<noteq> None"
    and "scheduler_get_running_process K 1 = Some i" "get_task K i = Some it" "k_curr K \<noteq> i" "t_children it \<noteq> []"
    and "\<And>b. b \<in> set (t_children t) \<Longrightarrow> get_task K b \<noteq> None"
    and "k_curr K \<notin> set (t_children t)" "i \<notin> set (t_children t)"
  shows "\<exists>K'. sys_exit junk K code = Some K' \<and> k_queue K' = k_queue K
    \<and> k_calls K' = k_calls K @ [Mmu_destroy_process_image (t_mm t)]
    \<and> (\<exists>t'. get_task K' (k_curr K) = Some t' \<and> t_state t' = EXIT_ZOMBIE \<and> t_children t' = []
          \<and> t_exit_code t' = push_bit 8 code AND 0xFF00)
    \<and> (\<exists>it'. get_task K' i = Some it' \<and> t_children it' = t_children it @ t_children t)
    \<and> (\<forall>b \<in> set (t_children t). \<exists>u. get_task K' b = Some u \<and> t_parent u = i)"
  using sys_exit_spec [OF assms] .

definition family_kernel :: kernel where
  "family_kernel = demo_kernel 2
     [(task0 1 TASK_RUNNING)\<lparr>t_children := [2]\<rparr>, (task0 2 TASK_RUNNING)\<lparr>t_parent := 1, t_children := [3]\<rparr>,
      (task0 3 TASK_RUNNING)\<lparr>t_parent := 2\<rparr>]"

lemma family_kernel_tasks:
  "get_task family_kernel 1 = Some ((task0 1 TASK_RUNNING)\<lparr>t_children := [2]\<rparr>)"
  "get_task family_kernel 2 = Some ((task0 2 TASK_RUNNING)\<lparr>t_parent := 1, t_children := [3]\<rparr>)"
  "get_task family_kernel 3 = Some ((task0 3 TASK_RUNNING)\<lparr>t_parent := 2\<rparr>)"
  "k_curr family_kernel = 2" "k_queue family_kernel = [1, 2, 3]"
  by (simp_all add: family_kernel_def demo_kernel_def get_task_def task0_def)

theorem sys_exit_hands_over_witness:
  "\<exists>K' it u. sys_exit empty_sigset family_kernel 7 = Some K' \<and> get_task K' 1 = Some it \<and> t_children it = [2, 3]
     \<and> get_task K' 3 = Some u \<and> t_parent u = 1"
proof -
  have r: "signal_ready ((task0 p s)\<lparr>t_children := c\<rparr>)" "signal_ready ((task0 p s)\<lparr>t_parent := b, t_children := c\<rparr>)"
    "signal_ready ((task0 p s)\<lparr>t_parent := b\<rparr>)" for p s b c
    by (simp_all add: signal_ready_def task0_def)
  have f: "scheduler_get_running_process family_kernel 1 = Some 1"
    by (simp add: scheduler_get_running_process_def family_kernel_tasks) (simp add: task0_def)
  have q: "\<exists>t. get_task family_kernel a = Some t \<and> signal_ready t" if "a \<in> set (k_queue family_kernel)" for a
    using that r by (auto simp: family_kernel_tasks)
  note w = sys_exit_hands_over [of family_kernel "(task0 2 TASK_RUNNING)\<lparr>t_parent := 1, t_children := [3]\<rparr>" 1
        "(task0 1 TASK_RUNNING)\<lparr>t_children := [2]\<rparr>" empty_sigset 7, OF _ q _ f]
  show ?thesis using w by (auto simp: family_kernel_tasks)
qed

text \<open>The child \<open>a\<close> has ended and is one that \<open>pid\<close> asks for: -1 is any child.\<close>

definition awaited :: "kernel \<Rightarrow> int \<Rightarrow> addr \<Rightarrow> bool" where
  "awaited K pid a \<longleftrightarrow> t_state (task_of K a) = EXIT_ZOMBIE \<and> (pid = - 1 \<or> t_pid (task_of K a) = pid)"

lemma sys_waitpid_spec:
  assumes "get_task K (k_curr K) = Some c" and "mapped K (t_children c)" and "k_curr K \<notin> set (t_children c)"
    and "pid = - 1 \<or> pid > 0" and "pid \<noteq> t_pid c" and "options = 0 \<or> options = WNOHANG"
  shows "case find (matches K pid) (t_children c) of
      None \<Rightarrow> sys_waitpid K pid options = Some (if t_children c = [] then - ECHILD else 0, None, K)
    | Some a \<Rightarrow> \<exists>K'. sys_waitpid K pid options = Some (t_pid (task_of K a), Some EXIT_ZOMBIE, K')
        \<and> get_task K' a = None \<and> get_task K' (k_curr K) = Some (c\<lparr>t_children := remove1 a (t_children c)\<rparr>)
        \<and> (\<forall>b. b \<noteq> a \<longrightarrow> b \<noteq> k_curr K \<longrightarrow> get_task K' b = get_task K b)
        \<and> k_queue K' = remove1 a (k_queue K) \<and> k_calls K' = k_calls K @ [Vfs_destroy_task a]"
proof (cases "find (matches K pid) (t_children c)")
  case None
  then show ?thesis
    using assms find_zombie_spec [OF assms(2), of pid] by (auto simp: sys_waitpid_def ptr_or_null_def)
next
  case (Some a)
  then have a: "a \<in> set (t_children c)" "matches K pid a" using find_in_set [OF Some] by auto
  obtain e where e: "get_task K a = Some e" using a(1) assms(2) by (auto simp: mapped_def)
  have ne: "a \<noteq> k_curr K" using a(1) assms(3) by auto
  have z: "find_zombie K pid (t_children c) = Some a" using find_zombie_spec [OF assms(2), of pid] Some by (simp add: ptr_or_null_def)
  have s: "t_state e = EXIT_ZOMBIE" "task_of K a = e" "a \<noteq> NULL" "t_children c \<noteq> []"
    using a e get_task_not_null [OF e] by (auto simp: matches_def)
  obtain K' where "reap K a = Some K'" "get_task K' a = None"
      "get_task K' (k_curr K) = Some (c\<lparr>t_children := remove1 a (t_children c)\<rparr>)"
      "\<forall>b. b \<noteq> a \<longrightarrow> b \<noteq> k_curr K \<longrightarrow> get_task K' b = get_task K b"
      "k_queue K' = remove1 a (k_queue K)" "k_calls K' = k_calls K @ [Vfs_destroy_task a]"
    using reap_spec [OF assms(1) e ne] by blast
  then show ?thesis using Some assms z e s by (auto simp: sys_waitpid_def)
qed

text \<open>C27. Waiting, for options that are accepted: for the pid -1 or a pid above 1, \<^verbatim>\<open>sys_waitpid\<close> frees the first child that has ended and that
  the pid asks for: it leaves the children, the run queue and the memory, and no other task changes. Without such a
  child the call does not suspend the task, even with the options 0: it returns 0 at once, or \<open>-ECHILD\<close> when there are no children, and nothing changes.
  The pid 1 does not ask for the child 1 but for any child, like -1.\<close>

theorem sys_waitpid_reaps:
  assumes "get_task K (k_curr K) = Some c" and "mapped K (t_children c)" and "k_curr K \<notin> set (t_children c)"
    and "pid = - 1 \<or> pid > 1" and "pid \<noteq> t_pid c" and "options = 0 \<or> options = WNOHANG"
  shows "(case find (awaited K pid) (t_children c) of
      None \<Rightarrow> sys_waitpid K pid options = Some (if t_children c = [] then - ECHILD else 0, None, K)
    | Some a \<Rightarrow> \<exists>K'. sys_waitpid K pid options = Some (t_pid (task_of K a), Some EXIT_ZOMBIE, K')
        \<and> get_task K' a = None \<and> get_task K' (k_curr K) = Some (c\<lparr>t_children := remove1 a (t_children c)\<rparr>)
        \<and> (\<forall>b. b \<noteq> a \<longrightarrow> b \<noteq> k_curr K \<longrightarrow> get_task K' b = get_task K b)
        \<and> k_queue K' = remove1 a (k_queue K) \<and> k_calls K' = k_calls K @ [Vfs_destroy_task a])
    \<and> (t_pid c \<noteq> 1 \<longrightarrow> t_pid c \<noteq> - 1 \<longrightarrow> sys_waitpid K 1 options = sys_waitpid K (- 1) options)"
proof
  have m: "matches K pid = awaited K pid" "matches K 1 = matches K (- 1)"
    using assms(4) by (auto simp: matches_def awaited_def fun_eq_iff)
  have p: "pid = - 1 \<or> pid > 0" using assms(4) by auto
  show "case find (awaited K pid) (t_children c) of
      None \<Rightarrow> sys_waitpid K pid options = Some (if t_children c = [] then - ECHILD else 0, None, K)
    | Some a \<Rightarrow> \<exists>K'. sys_waitpid K pid options = Some (t_pid (task_of K a), Some EXIT_ZOMBIE, K')
        \<and> get_task K' a = None \<and> get_task K' (k_curr K) = Some (c\<lparr>t_children := remove1 a (t_children c)\<rparr>)
        \<and> (\<forall>b. b \<noteq> a \<longrightarrow> b \<noteq> k_curr K \<longrightarrow> get_task K' b = get_task K b)
        \<and> k_queue K' = remove1 a (k_queue K) \<and> k_calls K' = k_calls K @ [Vfs_destroy_task a]"
    unfolding m(1) [symmetric] by (rule sys_waitpid_spec [OF assms(1-3) p assms(5,6)])
  show "t_pid c \<noteq> 1 \<longrightarrow> t_pid c \<noteq> - 1 \<longrightarrow> sys_waitpid K 1 options = sys_waitpid K (- 1) options"
    using find_zombie_spec [OF assms(2), of 1] find_zombie_spec [OF assms(2), of "- 1"] assms(1)
    by (simp add: sys_waitpid_def m(2))
qed

theorem sys_waitpid_reaps_witness:
  "\<exists>K'. sys_waitpid (demo_kernel 1 [(task0 1 TASK_RUNNING)\<lparr>t_children := [2, 3]\<rparr>, task0 2 TASK_RUNNING, task0 3 EXIT_ZOMBIE])
      (- 1) 0 = Some (3, Some EXIT_ZOMBIE, K') \<and> get_task K' 3 = None \<and> k_queue K' = [1, 2]
    \<and> sys_waitpid (demo_kernel 1 [(task0 1 TASK_RUNNING)\<lparr>t_children := [2, 3]\<rparr>, task0 2 TASK_RUNNING, task0 3 EXIT_ZOMBIE]) 2 0
      = Some (0, None, demo_kernel 1 [(task0 1 TASK_RUNNING)\<lparr>t_children := [2, 3]\<rparr>, task0 2 TASK_RUNNING, task0 3 EXIT_ZOMBIE])"
proof -
  let ?c = "(task0 1 TASK_RUNNING)\<lparr>t_children := [2, 3]\<rparr>"
  let ?K = "demo_kernel 1 [?c, task0 2 TASK_RUNNING, task0 3 EXIT_ZOMBIE]"
  have k: "get_task ?K 1 = Some ?c" "get_task ?K 2 = Some (task0 2 TASK_RUNNING)" "get_task ?K 3 = Some (task0 3 EXIT_ZOMBIE)"
    "k_curr ?K = 1" "k_queue ?K = [1, 2, 3]"
    by (simp_all add: demo_kernel_def get_task_def task0_def)
  have t: "t_state (task0 p s) = s" "t_pid (task0 p s) = p" for p s by (simp_all add: task0_def)
  have f: "find (awaited ?K (- 1)) [2, 3] = Some 3" "find (awaited ?K 2) [2, 3] = None"
    using k t by (simp_all add: awaited_def task_states)
  have m: "mapped ?K [2, 3]" using k by (simp add: mapped_def)
  show ?thesis
    using sys_waitpid_reaps [of ?K ?c "- 1" 0] sys_waitpid_reaps [of ?K ?c 2 0] k t f m by auto
qed

text \<open>C28. A zombie is counted twice: the scheduler takes a zombie off the run queue and counts it as gone when it
  switches away from it, and when its parent then waits for it it is counted as gone again. The run queue has one task
  less, the number of active tasks is two less.\<close>

theorem zombie_counted_twice:
  assumes q: "k_queue K = xs @ k_curr K # ys" "distinct (k_queue K)" "xs @ ys \<noteq> []"
    and c: "get_task K (k_curr K) = Some t" "t_state t = EXIT_ZOMBIE"
    and p: "get_task K (hd (ys @ xs)) = Some pt" "t_mm pt \<noteq> NULL" "t_children pt = k_curr K # cs" "t_pid pt \<noteq> - 1"
  shows "\<exists>K1 f1 K2 st. switch_task K f = Some (K1, f1) \<and> k_curr K1 = hd (ys @ xs)
    \<and> sys_waitpid K1 (- 1) 0 = Some (t_pid t, st, K2)
    \<and> k_queue K2 = xs @ ys \<and> num_active K2 = num_active K - 2"
proof -
  let ?c = "k_curr K"
  define p where "p = hd (ys @ xs)"
  have ni: "?c \<notin> set xs" "?c \<notin> set ys" using q by auto
  have rn: "ring_next (k_queue K) ?c = p" using ring_next_split [OF ni(1)] q p_def by (cases ys; cases xs) auto
  have pin: "p \<in> set (xs @ ys)" unfolding p_def using q(3) by (cases ys; cases xs) auto
  then have ne: "p \<noteq> ?c" using ni by auto
  have nn: "p \<noteq> NULL" "?c \<noteq> NULL" using p(1) c(1) p_def by (auto dest: get_task_not_null)
  define K0 where "K0 = K\<lparr>k_queue := remove1 ?c (k_queue K), num_active := num_active K - 1,
      num_periodic := (if is_periodic (t_se t) then num_periodic K - 1 else num_periodic K)\<rparr>"
  have dq: "scheduler_dequeue_task K ?c = Some K0"
    using c(1) by (simp add: scheduler_dequeue_task_def K0_def)
  define K1 where "K1 = log_call (K0\<lparr>k_curr := p\<rparr>) (Vmm_switch_directory (k_pgd K (t_mm pt)))"
  have sw: "switch_task K f = Some (K1, t_regs pt)"
    using c dq rn ne nn p(1,2) p_def
    by (simp add: switch_task_def zombie_next_def scheduler_restore_context_def Let_def K1_def K0_def get_task_def)
  have k1: "k_curr K1 = p" "get_task K1 p = Some pt" "get_task K1 ?c = Some t" "num_active K1 = num_active K - 1"
      "k_queue K1 = remove1 ?c (k_queue K)"
    using p(1) c(1) p_def by (simp_all add: K1_def K0_def log_call_def get_task_def split: if_splits)
  obtain K2 where K2: "reap K1 ?c = Some K2" "k_queue K2 = remove1 ?c (k_queue K1)" "num_active K2 = num_active K1 - 1"
    using reap_spec [of K1 pt ?c t] k1 ne by auto
  have "sys_waitpid K1 (- 1) 0 = Some (t_pid t, Some EXIT_ZOMBIE, K2)"
    using k1 p c K2(1) nn by (simp add: sys_waitpid_def)
  moreover have "k_queue K2 = xs @ ys"
    using K2(2) k1(5) q(1) ni by (simp add: remove1_append remove1_idem)
  ultimately show ?thesis using sw k1 K2(3) p_def by auto
qed

theorem zombie_counted_twice_witness:
  "\<exists>K1 f1 K2 st. switch_task (demo_kernel 2 [(task0 1 TASK_RUNNING)\<lparr>t_children := [2]\<rparr>, task0 2 EXIT_ZOMBIE]) regs0 = Some (K1, f1)
    \<and> sys_waitpid K1 (- 1) 0 = Some (2, st, K2) \<and> k_queue K2 = [1] \<and> num_active K2 = 0"
proof -
  let ?p = "(task0 1 TASK_RUNNING)\<lparr>t_children := [2]\<rparr>"
  let ?K = "demo_kernel 2 [?p, task0 2 EXIT_ZOMBIE]"
  have k: "get_task ?K 1 = Some ?p" "get_task ?K 2 = Some (task0 2 EXIT_ZOMBIE)" "k_curr ?K = 2" "k_queue ?K = [1, 2]" "num_active ?K = 2"
    by (simp_all add: demo_kernel_def get_task_def task0_def)
  have t: "t_state (task0 p s) = s" "t_pid (task0 p s) = p" "t_mm (task0 p s) = 4096" for p s by (simp_all add: task0_def)
  show ?thesis
    using zombie_counted_twice [of ?K "[1]" "[]" "task0 2 EXIT_ZOMBIE" ?p "[]" regs0] k t by auto
qed

text \<open>C29. A process that a signal kills goes on: when the only pending signal of the current task ends the process by
  default, \<^verbatim>\<open>scheduler_run\<close> ends it and returns to its own registers: no other task is chosen, although it
  is a zombie and its memory image has been destroyed.\<close>

theorem scheduler_run_returns_to_killed:
  assumes "get_task K (k_curr K) = Some t" "t_pid t \<noteq> 1" "\<not> siglock (t_sighand t)" and "r_cs f AND 3 = 3"
    and "sp_list (t_pending t) = [q]" and "si_signo q = s" and "next_signal (t_pending t) (t_blocked t) = s"
    and "kills_by_default t s"
    and "sigdelset (sp_signal (t_pending t)) s = Some S"
    and "sys_exit junk (taken K t f \<lparr>sp_list = [], sp_signal = S\<rparr>) (word_of_int s) = Some K2"
  shows "\<exists>K'. scheduler_run junk K f = Some (K', f) \<and> k_curr K' = k_curr K
    \<and> (\<exists>t'. get_task K' (k_curr K) = Some t' \<and> t_state t' = EXIT_ZOMBIE)"
proof -
  let ?pd = "\<lparr>sp_list = [], sp_signal = S\<rparr>"
  have d: "dequeue_signal L (t_pending t) (t_blocked t) = Some (s, ?pd, Some q)" for L
    using assms(5-9) by (simp add: dequeue_signal_def collect_signal_def kills_by_default_def)
  have z: "zombie_current K2 (k_curr K)" using sys_exit_frame [OF assms(10)] by (simp add: taken_def)
  then obtain t2 where t2: "get_task K2 (k_curr K) = Some t2" "t_state t2 = EXIT_ZOMBIE" "k_curr K2 = k_curr K"
    by (auto simp: zombie_current_def)
  then have u: "\<exists>K'. unlock_task_sighand K2 (k_curr K) = Some K' \<and> k_curr K' = k_curr K
      \<and> (\<exists>t'. get_task K' (k_curr K) = Some t' \<and> t_state t' = EXIT_ZOMBIE)"
    by (auto simp: unlock_task_sighand_def upd_task_def dest: get_task_not_null)
  show ?thesis
    using scheduler_run_killed [OF assms(1-5) d assms(8)] assms(10) u by auto
qed

text \<open>A process at address 5 with a pending signal 15 and no parent.\<close>

definition killed_kernel :: kernel where
  "killed_kernel = demo_kernel 5 [task0 1 TASK_RUNNING,
     (task0 5 TASK_RUNNING)\<lparr>t_pending := \<lparr>sp_list = [user_siginfo 15 SI_USER (task0 5 TASK_RUNNING)],
        sp_signal = \<lparr>sig0 = 16384, sig1 = 0\<rparr>\<rparr>\<rparr>]"

theorem scheduler_run_returns_to_killed_witness:
  "\<exists>K'. scheduler_run empty_sigset killed_kernel regs0 = Some (K', regs0) \<and> k_curr K' = 5
    \<and> (\<exists>t'. get_task K' 5 = Some t' \<and> t_state t' = EXIT_ZOMBIE)"
proof -
  let ?q = "user_siginfo 15 SI_USER (task0 5 TASK_RUNNING)"
  let ?t = "(task0 5 TASK_RUNNING)\<lparr>t_pending := \<lparr>sp_list = [?q], sp_signal = \<lparr>sig0 = 16384, sig1 = 0\<rparr>\<rparr>\<rparr>"
  let ?k = "taken killed_kernel ?t regs0 \<lparr>sp_list = [], sp_signal = empty_sigset\<rparr>"
  have k: "get_task killed_kernel 5 = Some ?t" "k_curr killed_kernel = 5"
    by (simp_all add: killed_kernel_def demo_kernel_def get_task_def task0_def)
  have t: "t_pid ?t = 5" "\<not> siglock (t_sighand ?t)" "si_signo ?q = 15" "t_blocked ?t = empty_sigset"
    by (simp_all add: task0_def user_siginfo_def)
  have n: "next_signal (t_pending ?t) (t_blocked ?t) = 15" unfolding t(4) by code_simp
  have b: "kills_by_default ?t 15"
    by (simp add: kills_by_default_def signal_numbers get_handler_def get_action_def task0_def ignored_by_default_def default_action_def)
  have S: "sigdelset (sp_signal (t_pending ?t)) 15 = Some empty_sigset" by (simp, code_simp)
  have x: "\<exists>K2. sys_exit empty_sigset ?k (word_of_int 15) = Some K2"
    by (simp add: sys_exit_def scheduler_get_running_process_def killed_kernel_def demo_kernel_def taken_def get_task_def task0_def upd_task_def)
  then obtain K2 where K2: "sys_exit empty_sigset ?k (word_of_int 15) = Some K2" by blast
  have cs: "r_cs regs0 AND 3 = 3" by (simp add: regs0_def)
  show ?thesis
    using scheduler_run_returns_to_killed [of killed_kernel ?t regs0 ?q 15 empty_sigset empty_sigset K2] k t n b S K2 cs
    by simp
qed

end
