(* ===== verification/Signal_Props.thy ===== *)
theory Signal_Props
  imports Process_Props
begin

text \<open>
  Properties of signals: signal sets as sets of numbers, the choice of the next signal, the queue of pending
  signals and its set, and running a handler.
\<close>

section \<open>Signal sets as sets\<close>

definition sigs :: "sigset_t \<Rightarrow> int set" where
  "sigs S = {s. 1 \<le> s \<and> s \<le> 64 \<and> bit (sig_word S (nat (s - 1) div 32)) (nat (s - 1) mod 32)}"

lemma sig_place_eq:
  assumes "1 \<le> s" "1 \<le> u" and "nat (s - 1) div 32 = nat (u - 1) div 32" "nat (s - 1) mod 32 = nat (u - 1) mod 32"
  shows "s = u"
proof -
  have "nat (s - 1) = nat (u - 1)" by (metis assms(3,4) div_mult_mod_eq)
  then show ?thesis using assms(1,2) by linarith
qed

lemma sig_word_set: "i < 2 \<Longrightarrow> j < 2 \<Longrightarrow> sig_word (set_sig_word S i w) j = (if j = i then w else sig_word S j)"
  by (auto simp: sig_word_def set_sig_word_def)

lemma sig_place_less: "1 \<le> s \<Longrightarrow> s \<le> 64 \<Longrightarrow> nat (s - 1) div 32 < 2"
  by auto

lemma sigismember_spec: "1 \<le> s \<Longrightarrow> s \<le> 64 \<Longrightarrow> sigismember S s = Some (s \<in> sigs S)"
  by (simp add: sigismember_def sig_index_def sigs_def)

lemma sigaddset_spec:
  assumes "1 \<le> s" "s \<le> 64"
  shows "\<exists>S'. sigaddset S s = Some (0, S') \<and> sigs S' = insert s (sigs S)"
proof -
  let ?i = "nat (s - 1) div 32" and ?b = "nat (s - 1) mod 32"
  let ?S = "set_sig_word S ?i (bit_set (sig_word S ?i) ?b)"
  have "u \<in> sigs ?S \<longleftrightarrow> u \<in> insert s (sigs S)" for u
    using sig_place_eq [of s u] sig_place_less [of u] sig_place_less [OF assms] assms
    by (auto simp: sigs_def sig_word_set split: if_splits)
  then show ?thesis using assms by (auto simp: sigaddset_def sig_index_def)
qed

lemma sigdelset_spec:
  assumes "1 \<le> s" "s \<le> 64"
  shows "\<exists>S'. sigdelset S s = Some S' \<and> sigs S' = sigs S - {s}"
proof -
  let ?i = "nat (s - 1) div 32" and ?b = "nat (s - 1) mod 32"
  let ?S = "set_sig_word S ?i (bit_clear (sig_word S ?i) ?b)"
  have "u \<in> sigs ?S \<longleftrightarrow> u \<in> sigs S - {s}" for u
    using sig_place_eq [of s u] sig_place_less [of u] sig_place_less [OF assms] assms
    by (auto simp: sigs_def sig_word_set split: if_splits)
  then show ?thesis using assms by (auto simp: sigdelset_def sig_index_def)
qed

lemma sigs_low: "s \<in> sigs S \<longleftrightarrow> bit (sig0 S) (nat (s - 1))" if "1 \<le> s" "s \<le> 32"
proof -
  have "nat (s - 1) < 32" using that by linarith
  then show ?thesis using that by (simp add: sigs_def sig_word_def)
qed

lemma sigs_high: "s \<in> sigs S \<longleftrightarrow> bit (sig1 S) (nat (s - 33))" if "33 \<le> s" "s \<le> 64"
proof -
  have "nat (s - 1) = nat (s - 33) + 32" "nat (s - 33) < 32" using that by linarith+
  then have "nat (s - 1) div 32 = 1" "nat (s - 1) mod 32 = nat (s - 33)" by simp_all
  then show ?thesis using that by (simp add: sigs_def sig_word_def)
qed

section \<open>The next signal\<close>

lemma word_zero_no_bits: "(x :: u32) = 0 \<longleftrightarrow> (\<forall>i < 32. \<not> bit x i)"
proof
  assume "\<forall>i<32. \<not> bit x i"
  then show "x = 0" by (intro bit_word_eqI) simp
qed simp

lemma bit_bitmask_clear: "i < 32 \<Longrightarrow> bit (bitmask_clear v m) i \<longleftrightarrow> bit v i \<and> \<not> bit m i"
  by (simp add: bitmask_clear_def bit_and_iff bit_not_iff)

lemma next_signal_spec:
  fixes p :: sigpending_t and msk :: sigset_t
  defines "D \<equiv> sigs (sp_signal p) - sigs msk"
  shows "next_signal p msk = (if D = {} then 0 else Min D)"
proof -
  let ?lo = "bitmask_clear (sig0 (sp_signal p)) (sig0 msk)" and ?hi = "bitmask_clear (sig1 (sp_signal p)) (sig1 msk)"
  have lo: "s \<in> D \<longleftrightarrow> bit ?lo (nat (s - 1))" if "1 \<le> s" "s \<le> 32" for s
    using that by (simp add: D_def sigs_low bit_bitmask_clear)
  have hi: "s \<in> D \<longleftrightarrow> bit ?hi (nat (s - 33))" if "33 \<le> s" "s \<le> 64" for s
    using that by (simp add: D_def sigs_high bit_bitmask_clear)
  have rng: "1 \<le> s \<and> s \<le> 64" if "s \<in> D" for s using that by (simp add: D_def sigs_def)
  then have fin: "finite D" by (intro finite_subset [of D "{1..64}"]) auto
  show ?thesis
  proof (cases "?lo = 0")
    case False
    note f = find_first_non_zero_spec [OF False]
    let ?s = "1 + int (find_first_non_zero ?lo)"
    have "?s \<in> D" using f lo by simp
    moreover have "?s \<le> s" if "s \<in> D" for s
    proof (cases "s \<le> 32")
      case True
      then have "\<not> nat (s - 1) < find_first_non_zero ?lo" using f(3) lo [of s] rng [OF that] that by blast
      then show ?thesis using rng [OF that] by linarith
    qed (use f(1) in linarith)
    ultimately have "Min D = ?s" using fin by (intro Min_eqI) auto
    then show ?thesis using False \<open>?s \<in> D\<close> by (auto simp: next_signal_def)
  next
    case True
    then have none: "s \<notin> D" if "s \<le> 32" for s using lo [of s] rng [of s] that by auto
    show ?thesis
    proof (cases "?hi = 0")
      case False
      note f = find_first_non_zero_spec [OF False]
      let ?s = "33 + int (find_first_non_zero ?hi)"
      have "?s \<in> D" using f hi by simp
      moreover have "?s \<le> s" if "s \<in> D" for s
      proof -
        have "33 \<le> s" "s \<le> 64" using none [of s] rng [OF that] that by force+
        then have "\<not> nat (s - 33) < find_first_non_zero ?hi" using f(3) hi [of s] that by blast
        then show ?thesis using \<open>33 \<le> s\<close> by linarith
      qed
      ultimately have "Min D = ?s" using fin by (intro Min_eqI) auto
      then show ?thesis using True False \<open>?s \<in> D\<close> by (auto simp: next_signal_def)
    next
      case hi0: True
      then have "s \<notin> D" for s using hi [of s] none [of s] rng [of s] by (cases "s \<le> 32") auto
      then show ?thesis using True hi0 by (auto simp: next_signal_def)
    qed
  qed
qed

section \<open>The queue of pending signals\<close>

text \<open>The set of the pending signals holds the numbers of the queue.\<close>

definition consistent :: "sigpending_t \<Rightarrow> bool" where
  "consistent p \<longleftrightarrow> sigs (sp_signal p) = si_signo ` set (sp_list p) \<and> (\<forall>q \<in> set (sp_list p). si_signo q < NSIG)"

lemma collect_scan_found: "collect_scan sig qs (Some q) = (Some q, \<exists>r \<in> set qs. si_signo r = sig)"
  by (induction qs) auto

lemma collect_scan_spec:
  "collect_scan sig qs None =
    (find (\<lambda>q. si_signo q = sig) qs, \<exists>r \<in> set (remove_first (\<lambda>q. si_signo q = sig) qs). si_signo r = sig)"
  by (induction qs) (auto simp: collect_scan_found)

lemma remove_first_image:
  "find P qs = Some q \<Longrightarrow> insert (f q) (f ` set (remove_first P qs)) = f ` set qs"
proof (induction qs)
  case (Cons r qs)
  then show ?case by (cases "P r") auto
qed simp

lemma remove_first_subset: "set (remove_first P qs) \<subseteq> set qs"
  by (induction qs) auto

lemma collect_signal_spec:
  assumes c: "consistent p" and s: "s \<in> sigs (sp_signal p)"
  shows "\<exists>q p'. find (\<lambda>q. si_signo q = s) (sp_list p) = Some q \<and> collect_signal K s p = Some (q, p')
    \<and> sp_list p' = remove_first (\<lambda>q. si_signo q = s) (sp_list p) \<and> consistent p'"
proof -
  let ?P = "\<lambda>q. si_signo q = s" and ?L = "sp_list p"
  have rng: "1 \<le> s" "s \<le> 64" using s by (simp_all add: sigs_def)
  have "find ?P ?L \<noteq> None" using c s by (auto simp: consistent_def find_None_iff)
  then obtain q where q: "find ?P ?L = Some q" by blast
  have sq: "si_signo q = s" using find_in_set [OF q] by simp
  have im: "insert s (si_signo ` set (remove_first ?P ?L)) = sigs (sp_signal p)"
    using remove_first_image [OF q, of si_signo] c sq by (simp add: consistent_def)
  have lt: "\<forall>q \<in> set (remove_first ?P ?L). si_signo q < NSIG"
    using c remove_first_subset [of ?P ?L] by (auto simp: consistent_def)
  obtain S where S: "sigdelset (sp_signal p) s = Some S" "sigs S = sigs (sp_signal p) - {s}"
    using sigdelset_spec [OF rng] by blast
  show ?thesis
  proof (cases "\<exists>r \<in> set (remove_first ?P ?L). si_signo r = s")
    case True
    then have "si_signo ` set (remove_first ?P ?L) = sigs (sp_signal p)" using im by (metis imageI insert_absorb)
    then have "consistent \<lparr>sp_list = remove_first ?P ?L, sp_signal = sp_signal p\<rparr>" using lt by (simp add: consistent_def)
    then show ?thesis using q True by (simp add: collect_signal_def collect_scan_spec)
  next
    case False
    then have "s \<notin> si_signo ` set (remove_first ?P ?L)" by auto
    then have "consistent \<lparr>sp_list = remove_first ?P ?L, sp_signal = S\<rparr>"
      using lt S(2) im by (auto simp: consistent_def)
    then show ?thesis using q False S by (simp add: collect_signal_def collect_scan_spec)
  qed
qed

lemma consistent_send_signal:
  assumes K': "send_signal K sig info a = Some (r, K')" and t: "get_task K a = Some t" "consistent (t_pending t)"
    and i: "si_signo info = sig" "1 \<le> sig" "sig < NSIG"
  shows "\<exists>t'. get_task K' a = Some t' \<and> consistent (t_pending t')"
proof -
  have nn: "a \<noteq> NULL" using t(1) by (rule get_task_not_null)
  have le: "sig \<le> 64" using i(3) by (simp add: NSIG_def)
  obtain S where S: "sigaddset (sp_signal (t_pending t)) sig = Some (0, S)" "sigs S = insert sig (sigs (sp_signal (t_pending t)))"
    using sigaddset_spec [OF i(2) le] by blast
  have "consistent \<lparr>sp_list = sp_list (t_pending t) @ [info], sp_signal = S\<rparr>"
    using t(2) S(2) i by (auto simp: consistent_def)
  then show ?thesis
    using K' t S nn
    by (auto simp: send_signal_def lock_task_sighand_def unlock_task_sighand_def upd_task_def split: bind_splits if_splits)
qed

section \<open>Stopping and continuing\<close>

text \<open>A task that takes signals: alive, unlocked, nothing blocked, no signal ignored.\<close>

definition receptive :: "task_struct \<Rightarrow> bool" where
  "receptive t \<longleftrightarrow> signal_ready t \<and> t_state t \<noteq> EXIT_ZOMBIE \<and> t_state t \<noteq> EXIT_DEAD
     \<and> t_blocked t = empty_sigset \<and> t_real_blocked t = empty_sigset
     \<and> (\<forall>ka \<in> set (action (t_sighand t)). sa_handler ka \<noteq> SIG_IGN)"

lemma sigs_empty [simp]: "sigs empty_sigset = {}"
  by (auto simp: sigs_def empty_sigset_def sig_word_def)

lemma unlocked_task:
  "\<not> siglock (t_sighand t) \<Longrightarrow> t\<lparr>t_pending := x, t_sighand := (t_sighand t)\<lparr>siglock := False\<rparr>\<rparr> = t\<lparr>t_pending := x\<rparr>"
  by simp

lemma send_signal_adds:
  assumes t: "get_task K a = Some t" "receptive t" and m: "\<not> k_no_memory K" and s: "1 \<le> sig" "sig < NSIG"
    and S: "sigaddset (sp_signal (t_pending t)) sig = Some (0, S)"
  shows "send_signal K sig info a =
    Some (0, K\<lparr>k_tasks := (k_tasks K)(a \<mapsto> t\<lparr>t_pending := \<lparr>sp_list = sp_list (t_pending t) @ [info], sp_signal = S\<rparr>\<rparr>)\<rparr>)"
proof -
  let ?t = "t\<lparr>t_sighand := (t_sighand t)\<lparr>siglock := True\<rparr>\<rparr>"
  have nn: "a \<noteq> NULL" using t(1) by (rule get_task_not_null)
  have r: "\<not> siglock (t_sighand t)" "length (action (t_sighand t)) = nat NSIG" using t(2) by (simp_all add: receptive_def signal_ready_def)
  have le: "sig \<le> 64" "nat (sig - 1) < length (action (t_sighand t))" using s r(2) by (auto simp: NSIG_def)
  have "sa_handler (action (t_sighand t) ! nat (sig - 1)) \<noteq> SIG_IGN" using t(2) le(2) by (simp add: receptive_def)
  then have ig: "sig_is_ignored ?t sig = Some False"
    using t(2) s le by (simp add: sig_is_ignored_def sigismember_spec receptive_def get_handler_def get_action_def)
  have lk: "lock_task_sighand K a = Some (K\<lparr>k_tasks := (k_tasks K)(a \<mapsto> ?t)\<rparr>)"
    using t r by (simp add: lock_task_sighand_def upd_task_def)
  show ?thesis
    using lk ig S m nn t(2) r(1)
    by (simp add: send_signal_def receptive_def upd_task_def unlock_task_sighand_def unlocked_task)
qed

lemma sigaddset_low:
  assumes "1 \<le> s" "s \<le> 32"
  shows "\<exists>S'. sigaddset S s = Some (0, S') \<and> sigs S' = insert s (sigs S)"
  using sigaddset_spec [of s S] assms by auto

lemma mask_of_spec:
  "\<forall>s \<in> set ss. 1 \<le> s \<and> s \<le> 32 \<Longrightarrow> \<exists>S. mask_of junk ss = Some S \<and> (\<forall>s. s \<le> 32 \<longrightarrow> s \<in> sigs S \<longleftrightarrow> s \<in> set ss)"
proof -
  assume ss: "\<forall>s \<in> set ss. 1 \<le> s \<and> s \<le> 32"
  let ?f = "\<lambda>s m. do { S \<leftarrow> m; (_, S) \<leftarrow> sigaddset S s; Some S }"
  have *: "\<exists>S. fold ?f ss (Some S0) = Some S \<and> sigs S = sigs S0 \<union> set ss" for S0
    using ss
  proof (induction ss arbitrary: S0)
    case (Cons s ss)
    obtain S1 where S1: "sigaddset S0 s = Some (0, S1)" "sigs S1 = insert s (sigs S0)" using sigaddset_low [of s S0] Cons.prems by auto
    then show ?case using Cons.IH [of S1] Cons.prems by auto
  qed simp
  have e: "s \<notin> sigs (sigemptyset junk)" if "s \<le> 32" for s
    using that sigs_low [of s] by (cases "1 \<le> s") (auto simp: sigemptyset_def sigs_def)
  show ?thesis unfolding mask_of_def using * [of "sigemptyset junk"] e by auto
qed

text \<open>What removing entries leaves of the queue; the set of pending signals stays.\<close>

lemma send_sig_info_stop_cont:
  assumes t: "get_task K a = Some t" "receptive t" and m: "\<not> k_no_memory K" "k_stopped K = []"
    and sig: "sig = SIGSTOP \<and> ss = [SIGCONT] \<or> sig = SIGCONT \<and> ss = [SIGSTOP, SIGTSTP, SIGTTIN, SIGTTOU]"
    and rm: "\<And>msk. (\<forall>s. s \<le> 32 \<longrightarrow> s \<in> sigs msk \<longleftrightarrow> s \<in> set ss) \<Longrightarrow> rm_from_queue_loop msk (sp_list (t_pending t)) = Some qs"
    and S: "sigaddset (sp_signal (t_pending t)) sig = Some (0, S)"
  shows "send_sig_info junk K sig info a =
    Some (0, K\<lparr>k_tasks := (k_tasks K)(a \<mapsto> t\<lparr>t_pending := \<lparr>sp_list = qs @ [info], sp_signal = S\<rparr>\<rparr>)\<rparr>)"
proof -
  let ?t = "t\<lparr>t_sighand := (t_sighand t)\<lparr>siglock := True\<rparr>\<rparr>"
  let ?p = "(t_pending t)\<lparr>sp_list := qs\<rparr>"
  let ?L = "K\<lparr>k_tasks := (k_tasks K)(a \<mapsto> ?t)\<rparr>"
  let ?U = "K\<lparr>k_tasks := (k_tasks K)(a \<mapsto> t\<lparr>t_pending := ?p\<rparr>)\<rparr>"
  have nn: "a \<noteq> NULL" using t(1) by (rule get_task_not_null)
  have r: "\<not> siglock (t_sighand t)" using t(2) by (simp add: receptive_def signal_ready_def)
  have lk: "lock_task_sighand K a = Some ?L" using t r by (simp add: lock_task_sighand_def upd_task_def)
  have rng: "\<forall>s \<in> set ss. 1 \<le> s \<and> s \<le> 32" using sig by (auto simp: signal_numbers)
  obtain msk where msk: "mask_of junk ss = Some msk" "\<forall>s. s \<le> 32 \<longrightarrow> s \<in> sigs msk \<longleftrightarrow> s \<in> set ss"
    using mask_of_spec [OF rng] by blast
  have hs: "handle_stop_signal junk ?L sig a = Some (K\<lparr>k_tasks := (k_tasks K)(a \<mapsto> ?t\<lparr>t_pending := ?p\<rparr>)\<rparr>)"
    using sig msk rm [OF msk(2)] nn m(2)
    by (auto simp: handle_stop_signal_def signal_numbers rm_from_queue_def upd_task_def)
  have ul: "unlock_task_sighand (K\<lparr>k_tasks := (k_tasks K)(a \<mapsto> ?t\<lparr>t_pending := ?p\<rparr>)\<rparr>) a = Some ?U"
    using nn r by (simp add: unlock_task_sighand_def upd_task_def unlocked_task)
  have g: "get_task ?U a = Some (t\<lparr>t_pending := ?p\<rparr>)" "receptive (t\<lparr>t_pending := ?p\<rparr>)"
    using nn t(2) by (simp_all add: receptive_def signal_ready_def)
  have n: "1 \<le> sig" "sig < NSIG" "\<not> (sig < 0 \<or> NSIG < sig)" "sig \<noteq> 0" using sig by (auto simp: signal_numbers)
  have "send_signal ?U sig info a =
      Some (0, K\<lparr>k_tasks := (k_tasks K)(a \<mapsto> t\<lparr>t_pending := \<lparr>sp_list = qs @ [info], sp_signal = S\<rparr>\<rparr>)\<rparr>)"
    using send_signal_adds [OF g _ n(1,2), of S info] S m(1) by simp
  then show ?thesis using lk hs ul n by (simp add: send_sig_info_def)
qed

section \<open>Properties\<close>

text \<open>C30. Signal sets are sets: with \<open>sigs S\<close> the numbers in \<open>S\<close>, adding, deleting and testing a number
  from 1 to 64 are the operations of sets, in both words of the structure.\<close>

theorem sigset_operations:
  assumes "1 \<le> s" and "s \<le> 64"
  shows "map_option (sigs \<circ> snd) (sigaddset S s) = Some (insert s (sigs S)) \<and>
    map_option sigs (sigdelset S s) = Some (sigs S - {s}) \<and> sigismember S s = Some (s \<in> sigs S)"
  using sigaddset_spec [OF assms, of S] sigdelset_spec [OF assms, of S] sigismember_spec [OF assms] by auto

theorem sigset_operations_witness:
  "map_option (sigs \<circ> snd) (sigaddset empty_sigset 33) = Some {33} \<and> sigismember empty_sigset 33 = Some False"
  using sigset_operations [of 33 empty_sigset] by simp

text \<open>C11. Taking a signal: when the set of the pending signals holds the numbers of the queue, the signal that is
  taken is the lowest pending one that is not blocked, its information is that of its oldest entry in the queue, that
  entry is removed, and the set holds the numbers of the queue again. Without such a signal nothing changes.\<close>

theorem dequeue_signal_takes_lowest:
  assumes "consistent p"
  shows "if sigs (sp_signal p) - sigs msk = {} then dequeue_signal K p msk = Some (0, p, None)
    else (let s = Min (sigs (sp_signal p) - sigs msk) in
        \<exists>q p'. find (\<lambda>q. si_signo q = s) (sp_list p) = Some q \<and> dequeue_signal K p msk = Some (s, p', Some q)
          \<and> sp_list p' = remove_first (\<lambda>q. si_signo q = s) (sp_list p) \<and> consistent p')"
proof (cases "sigs (sp_signal p) - sigs msk = {}")
  case True
  then show ?thesis using next_signal_spec [of p msk] by (simp add: dequeue_signal_def)
next
  case False
  let ?D = "sigs (sp_signal p) - sigs msk"
  have "finite ?D" by (rule finite_subset [of _ "{1..64}"]) (auto simp: sigs_def)
  then have "Min ?D \<in> ?D" using False by (rule Min_in)
  then have s: "Min ?D \<in> sigs (sp_signal p)" by simp
  have "Min ?D > 0" using s by (simp add: sigs_def)
  moreover have "Min ?D < NSIG" using s assms by (auto simp: consistent_def)
  ultimately show ?thesis
    using False next_signal_spec [of p msk] collect_signal_spec [OF assms s, of K] by (auto simp: dequeue_signal_def Let_def)
qed

lemma sigs_2_15: "sigs \<lparr>sig0 = 16386, sig1 = 0\<rparr> = {2, 15}"
proof -
  have "sigaddset empty_sigset 15 = Some (0, \<lparr>sig0 = 16384, sig1 = 0\<rparr>)"
    "sigaddset \<lparr>sig0 = 16384, sig1 = 0\<rparr> 2 = Some (0, \<lparr>sig0 = 16386, sig1 = 0\<rparr>)"
    by code_simp+
  then show ?thesis using sigaddset_spec [of 15 empty_sigset] sigaddset_spec [of 2 "\<lparr>sig0 = 16384, sig1 = 0\<rparr>"] by simp
qed

theorem dequeue_signal_takes_lowest_witness:
  "\<exists>q p'. dequeue_signal killed_kernel \<lparr>sp_list = [user_siginfo 15 SI_USER (task0 5 0), user_siginfo 2 SI_USER (task0 7 0)],
      sp_signal = \<lparr>sig0 = 16386, sig1 = 0\<rparr>\<rparr> empty_sigset = Some (2, p', Some q) \<and> si_pid q = 7"
proof -
  let ?p = "\<lparr>sp_list = [user_siginfo 15 SI_USER (task0 5 0), user_siginfo 2 SI_USER (task0 7 0)],
      sp_signal = \<lparr>sig0 = 16386, sig1 = 0\<rparr>\<rparr>"
  have c: "consistent ?p" by (auto simp: consistent_def sigs_2_15 user_siginfo_def NSIG_def)
  have "t_pid (task0 7 0) = 7" by (simp add: task0_def)
  then show ?thesis
    using dequeue_signal_takes_lowest [OF c, where msk = empty_sigset and K = killed_kernel]
    by (auto simp: sigs_2_15 Let_def user_siginfo_def)
qed

text \<open>C31. A stop signal survives a continue signal: when a task that takes signals is sent SIGSTOP and then SIGCONT
  before it runs, the entry of SIGSTOP is removed from the queue but its number stays in the set of pending signals, so
  that the next signal delivered to the task is SIGSTOP.\<close>

theorem stop_survives_continue:
  assumes t: "get_task K a = Some t" "receptive t" "t_pending t = \<lparr>sp_list = [], sp_signal = empty_sigset\<rparr>"
    and m: "\<not> k_no_memory K" "k_stopped K = []" and i: "si_signo i1 = SIGSTOP" "si_signo i2 = SIGCONT"
  shows "\<exists>K1 K2 t2. send_sig_info junk K SIGSTOP i1 a = Some (0, K1) \<and> send_sig_info junk K1 SIGCONT i2 a = Some (0, K2)
    \<and> get_task K2 a = Some t2 \<and> sp_list (t_pending t2) = [i2] \<and> next_signal (t_pending t2) (t_blocked t2) = SIGSTOP"
proof -
  have nn: "a \<noteq> NULL" using t(1) by (rule get_task_not_null)
  obtain S1 where S1: "sigaddset empty_sigset SIGSTOP = Some (0, S1)" "sigs S1 = {SIGSTOP}"
    using sigaddset_spec [of SIGSTOP empty_sigset] by (auto simp: signal_numbers)
  obtain S2 where S2: "sigaddset S1 SIGCONT = Some (0, S2)" "sigs S2 = {SIGCONT, SIGSTOP}"
    using sigaddset_spec [of SIGCONT S1] S1(2) by (auto simp: signal_numbers)
  define t1 where "t1 = t\<lparr>t_pending := \<lparr>sp_list = [i1], sp_signal = S1\<rparr>\<rparr>"
  define K1 where "K1 = K\<lparr>k_tasks := (k_tasks K)(a \<mapsto> t1)\<rparr>"
  have 1: "send_sig_info junk K SIGSTOP i1 a = Some (0, K1)"
    using send_sig_info_stop_cont [OF t(1,2) m, of SIGSTOP "[SIGCONT]" "[]" S1 junk i1] t(3) S1
    by (simp add: K1_def t1_def)
  have k1: "get_task K1 a = Some t1" "receptive t1" "\<not> k_no_memory K1" "k_stopped K1 = []"
    using nn m t(2) by (simp_all add: K1_def t1_def receptive_def signal_ready_def)
  have rm: "rm_from_queue_loop msk (sp_list (t_pending t1)) = Some []"
    if "\<forall>s. s \<le> 32 \<longrightarrow> s \<in> sigs msk \<longleftrightarrow> s \<in> set [SIGSTOP, SIGTSTP, SIGTTIN, SIGTTOU]" for msk
    using that i by (auto simp: t1_def sigismember_spec signal_numbers)
  let ?t2 = "t1\<lparr>t_pending := \<lparr>sp_list = [i2], sp_signal = S2\<rparr>\<rparr>"
  have 2: "send_sig_info junk K1 SIGCONT i2 a = Some (0, K1\<lparr>k_tasks := (k_tasks K1)(a \<mapsto> ?t2)\<rparr>)"
    using send_sig_info_stop_cont [OF k1, of SIGCONT "[SIGSTOP, SIGTSTP, SIGTTIN, SIGTTOU]" "[]" S2 junk i2] rm S2(1)
    by (simp add: t1_def)
  have "next_signal (t_pending ?t2) (t_blocked ?t2) = SIGSTOP"
    using next_signal_spec [of "t_pending ?t2" "t_blocked ?t2"] t(2) S2(2)
    by (simp add: t1_def receptive_def signal_numbers)
  then show ?thesis using 1 2 nn by auto
qed

theorem stop_survives_continue_witness:
  "\<exists>K1 K2 t2. send_sig_info empty_sigset (demo_kernel 1 [task0 1 TASK_RUNNING, task0 2 TASK_RUNNING]) SIGSTOP
       (user_siginfo SIGSTOP SI_USER (task0 1 TASK_RUNNING)) 2 = Some (0, K1)
    \<and> send_sig_info empty_sigset K1 SIGCONT (user_siginfo SIGCONT SI_USER (task0 1 TASK_RUNNING)) 2 = Some (0, K2)
    \<and> get_task K2 2 = Some t2 \<and> next_signal (t_pending t2) (t_blocked t2) = SIGSTOP"
proof -
  let ?K = "demo_kernel 1 [task0 1 TASK_RUNNING, task0 2 TASK_RUNNING]" and ?t = "task0 2 TASK_RUNNING"
  have k: "get_task ?K 2 = Some ?t" "\<not> k_no_memory ?K" "k_stopped ?K = []"
    by (simp_all add: demo_kernel_def get_task_def task0_def)
  have t: "t_pending ?t = \<lparr>sp_list = [], sp_signal = empty_sigset\<rparr>" by (simp add: task0_def)
  have r: "receptive ?t"
    by (auto simp: receptive_def signal_ready_def task0_def task_states default_action_def SIG_DFL_def SIG_IGN_def)
  have u: "si_signo (user_siginfo s c x) = s" for s c x by (simp add: user_siginfo_def)
  show ?thesis
    using stop_survives_continue [OF k(1) r t k(2,3) u u] by blast
qed



text \<open>\<^verbatim>\<open>sys_sigprocmask\<close> on a process other than the first one changes the set of blocked signals by union,
  difference or replacement, returns the old set, and rejects other operations and a call without any set.\<close>

theorem sys_sigprocmask_sets:
  assumes t: "get_task K (k_curr K) = Some t" "t_pid t \<noteq> 1"
  shows "sys_sigprocmask K how None False = Some (- EFAULT, None, K)
    \<and> (how \<notin> {SIG_BLOCK, SIG_UNBLOCK, SIG_SETMASK} \<longrightarrow> sys_sigprocmask K how (Some S) want_old = Some (- EINVAL, None, K))
    \<and> (how \<in> {SIG_BLOCK, SIG_UNBLOCK, SIG_SETMASK} \<longrightarrow>
        (\<exists>K' t'. sys_sigprocmask K how (Some S) want_old = Some (0, (if want_old then Some (t_blocked t) else None), K')
          \<and> get_task K' (k_curr K) = Some t'
          \<and> sigs (t_blocked t') = (if how = SIG_BLOCK then sigs (t_blocked t) \<union> sigs S
                                   else if how = SIG_UNBLOCK then sigs (t_blocked t) - sigs S else sigs S)))"
proof -
  have nn: "k_curr K \<noteq> NULL" using t(1) by (rule get_task_not_null)
  have b: "i mod 32 < 32" for i :: nat by simp
  have "sigs \<lparr>sig0 = sig0 X OR sig0 S, sig1 = sig1 X OR sig1 S\<rparr> = sigs X \<union> sigs S" for X
    by (auto simp: sigs_def sig_word_def bit_or_iff)
  moreover have "sigs \<lparr>sig0 = sig0 X AND NOT (sig0 S), sig1 = sig1 X AND NOT (sig1 S)\<rparr> = sigs X - sigs S" for X
    using b by (auto simp: sigs_def sig_word_def bit_and_iff bit_not_iff)
  moreover have "sigs \<lparr>sig0 = sig0 S, sig1 = sig1 S\<rparr> = sigs S" by (simp add: sigs_def sig_word_def)
  ultimately show ?thesis
    using t nn by (auto simp: sys_sigprocmask_def SIG_BLOCK_def SIG_UNBLOCK_def SIG_SETMASK_def upd_task_def Let_def)
qed

theorem sys_sigprocmask_sets_witness:
  "\<exists>K' t'. sys_sigprocmask (demo_kernel 2 [task0 1 0, task0 2 0]) SIG_BLOCK (Some \<lparr>sig0 = 16386, sig1 = 0\<rparr>) True
      = Some (0, Some empty_sigset, K') \<and> get_task K' 2 = Some t' \<and> sigs (t_blocked t') = {2, 15}"
proof -
  let ?K = "demo_kernel 2 [task0 1 0, task0 2 0]"
  have k: "get_task ?K (k_curr ?K) = Some (task0 2 0)" "k_curr ?K = 2" by (simp_all add: demo_kernel_def get_task_def task0_def)
  have t: "t_pid (task0 2 0) \<noteq> 1" "t_blocked (task0 2 0) = empty_sigset" by (simp_all add: task0_def)
  show ?thesis
    using sys_sigprocmask_sets [OF k(1) t(1), of SIG_BLOCK "\<lparr>sig0 = 16386, sig1 = 0\<rparr>" True] k(2) t(2) sigs_2_15 by auto
qed

text \<open>C33. Installing a handler: for a signal from 1 to 31 of a process other than the first one, \<^verbatim>\<open>sys_signal\<close> returns
  the handler in force and installs the new one for that signal only. Signal 0, which the range test lets through, has no entry
  in the array of the actions: the call reads and writes outside of it.\<close>

theorem sys_signal_installs:
  assumes t: "get_task K (k_curr K) = Some t" "t_pid t \<noteq> 1" "signal_ready t"
  shows "sys_signal junk K 0 handler ret = None
    \<and> (\<forall>s. 1 \<le> s \<and> s < NSIG \<longrightarrow> (\<exists>K' t' old. sys_signal junk K s handler ret = Some (old, K')
        \<and> get_handler t s = Some old \<and> get_task K' (k_curr K) = Some t' \<and> get_handler t' s = Some handler
        \<and> (\<forall>u. u \<noteq> s \<longrightarrow> 1 \<le> u \<longrightarrow> get_action t' u = get_action t u) \<and> t_sigreturn_addr t' = ret))"
proof -
  have nn: "k_curr K \<noteq> NULL" using t(1) by (rule get_task_not_null)
  have r: "\<not> siglock (t_sighand t)" "length (action (t_sighand t)) = 32" using t(3) by (simp_all add: signal_ready_def NSIG_def)
  have z: "sys_signal junk K 0 handler ret = None"
    using t nn r(1)
    by (simp add: sys_signal_def lock_task_sighand_def upd_task_def get_handler_def get_action_def NSIG_def Let_def)
  have "\<exists>K' t' old. sys_signal junk K s handler ret = Some (old, K')
        \<and> get_handler t s = Some old \<and> get_task K' (k_curr K) = Some t' \<and> get_handler t' s = Some handler
        \<and> (\<forall>u. u \<noteq> s \<longrightarrow> 1 \<le> u \<longrightarrow> get_action t' u = get_action t u) \<and> t_sigreturn_addr t' = ret"
    if s: "1 \<le> s" "s < NSIG" for s
  proof -
    let ?n = "\<lparr>sa_handler = handler, sa_mask = sigemptyset junk, sa_flags = SA_RESETHAND OR SA_NODEFER\<rparr>"
    let ?t = "t\<lparr>t_sigreturn_addr := ret, t_sighand := (t_sighand t)\<lparr>action := (action (t_sighand t))[nat (s - 1) := ?n], siglock := False\<rparr>\<rparr>"
    have l: "nat (s - 1) < 32" using s by (simp add: NSIG_def)
    have "sys_signal junk K s handler ret =
        Some (sa_handler (action (t_sighand t) ! nat (s - 1)), K\<lparr>k_tasks := (k_tasks K)(k_curr K \<mapsto> ?t)\<rparr>)"
      using t nn r s l
      by (simp add: sys_signal_def lock_task_sighand_def unlock_task_sighand_def upd_task_def get_handler_def get_action_def
          set_action_def Let_def)
    moreover have "get_action ?t u = get_action t u" if "u \<noteq> s" "1 \<le> u" for u
    proof -
      have "nat (u - 1) \<noteq> nat (s - 1)" using that s(1) by linarith
      then show ?thesis by (simp add: get_action_def)
    qed
    ultimately show ?thesis using nn r s l by (simp add: get_handler_def get_action_def)
  qed
  then show ?thesis using z by blast
qed

theorem sys_signal_installs_witness:
  "\<exists>K' t'. sys_signal empty_sigset (demo_kernel 2 [task0 1 0, task0 2 0]) 15 8192 12288 = Some (SIG_DFL, K')
    \<and> get_task K' 2 = Some t' \<and> get_handler t' 15 = Some 8192"
proof -
  let ?K = "demo_kernel 2 [task0 1 0, task0 2 0]"
  have k: "get_task ?K (k_curr ?K) = Some (task0 2 0)" "k_curr ?K = 2" by (simp_all add: demo_kernel_def get_task_def task0_def)
  have t: "t_pid (task0 2 0) \<noteq> 1" "signal_ready (task0 2 0)" "get_handler (task0 2 0) 15 = Some SIG_DFL"
    by (simp_all add: task0_def signal_ready_def get_handler_def get_action_def NSIG_def default_action_def)
  have s: "(1::int) \<le> 15 \<and> 15 < NSIG" by (simp add: NSIG_def)
  obtain K' t' old where "sys_signal empty_sigset ?K 15 8192 12288 = Some (old, K')" "get_handler (task0 2 0) 15 = Some old"
      "get_task K' (k_curr ?K) = Some t'" "get_handler t' 15 = Some 8192"
    using sys_signal_installs [OF k(1) t(1,2), of empty_sigset 8192 12288, THEN conjunct2, rule_format, OF s] by blast
  then show ?thesis using k(2) t(3) by simp
qed

end
