(* ===== verification/Libgen_Props.thy ===== *)
theory Libgen_Props
  imports Libgen
begin

text \<open>
  Properties of the path functions: \<^verbatim>\<open>realpath\<close> computes the normal form of a path, and \<^verbatim>\<open>dirname\<close> and
  \<^verbatim>\<open>basename\<close> split a path without a final slash.
\<close>

section \<open>Components\<close>

definition comp_ok :: "string \<Rightarrow> bool" where
  "comp_ok c \<longleftrightarrow> slash \<notin> set c \<and> NUL_CHR \<notin> set c"

lemma split_path_ne [simp]: "split_path s \<noteq> []"
  by (cases s) auto

lemma join_path_simps [simp]:
  "join_path [] = []" "join_path (c # cs) = slash # c @ join_path cs" "join_path (cs @ ds) = join_path cs @ join_path ds"
  by (simp_all add: join_path_def)

lemma join_split: "join_path (split_path s) = slash # s"
proof (induction s)
  case (Cons c s)
  obtain x xs where "split_path s = x # xs" by (cases "split_path s") auto
  then show ?case using Cons by auto
qed simp

lemma split_path_comps: "NUL_CHR \<notin> set s \<Longrightarrow> \<forall>c \<in> set (split_path s). comp_ok c"
proof (induction s)
  case (Cons c s)
  obtain x xs where "split_path s = x # xs" by (cases "split_path s") auto
  then show ?case using Cons by (auto simp: comp_ok_def)
qed (simp add: comp_ok_def)

lemma norm_comps_Cons:
  "c = [] \<or> c = ''.'' \<Longrightarrow> norm_comps ds (c # cs) = norm_comps ds cs"
  "norm_comps ds (''..'' # cs) = norm_comps (butlast ds) cs"
  "c \<noteq> [] \<Longrightarrow> c \<noteq> ''.'' \<Longrightarrow> c \<noteq> ''..'' \<Longrightarrow> norm_comps ds (c # cs) = norm_comps (ds @ [c]) cs"
  by (simp_all only: norm_comps.simps if_True if_False simp_thms list.distinct char.inject list.inject)

declare norm_comps.simps(2) [simp del]

lemma norm_comps_ok:
  "\<forall>c \<in> set cs. comp_ok c \<Longrightarrow> \<forall>c \<in> set ds. comp_ok c \<and> c \<noteq> [] \<Longrightarrow> \<forall>c \<in> set (norm_comps ds cs). comp_ok c \<and> c \<noteq> []"
proof (induction ds cs rule: norm_comps.induct)
  case (2 ds c cs)
  have c: "comp_ok c" "\<forall>c \<in> set cs. comp_ok c" using "2.prems" by simp_all
  have b: "\<forall>c \<in> set (butlast ds). comp_ok c \<and> c \<noteq> []" using "2.prems"(2) by (blast dest: in_set_butlastD)
  consider (skip) "c = [] \<or> c = ''.''" | (up) "\<not> (c = [] \<or> c = ''.'')" "c = ''..''"
    | (down) "\<not> (c = [] \<or> c = ''.'')" "c \<noteq> ''..''" by blast
  then show ?case
  proof cases
    case skip
    show ?thesis unfolding norm_comps_Cons(1) [OF skip] by (rule "2.IH"(1) [OF skip c(2) "2.prems"(2)])
  next
    case up
    show ?thesis unfolding up(2) norm_comps_Cons(2) by (rule "2.IH"(2) [OF up c(2) b])
  next
    case down
    then have d: "\<forall>d \<in> set (ds @ [c]). comp_ok d \<and> d \<noteq> []" using c(1) "2.prems"(2) by simp
    have e: "norm_comps ds (c # cs) = norm_comps (ds @ [c]) cs" by (rule norm_comps_Cons(3)) (use down in blast)+
    show ?thesis unfolding e by (rule "2.IH"(3) [OF down c(2) d])
  qed
qed simp

lemma join_path_no_nul: "\<forall>c \<in> set cs. comp_ok c \<Longrightarrow> NUL_CHR \<notin> set (join_path cs)"
  by (induction cs) (auto simp: comp_ok_def)

section \<open>The loop of realpath\<close>

lemma starts_simps [simp]:
  "starts [] s" "starts (a # t) [] \<longleftrightarrow> False" "starts (a # t) (x # s) \<longleftrightarrow> a = x \<and> starts t s"
  by (auto simp: starts_def)

text \<open>Writing a word into the array.\<close>

definition paste :: "'a list \<Rightarrow> nat \<Rightarrow> 'a list \<Rightarrow> 'a list" where
  "paste R i c = take i R @ c @ drop (i + length c) R"

lemma paste_Nil [simp]: "paste R i [] = R"
  by (simp add: paste_def)

lemma length_paste: "i + length c \<le> length R \<Longrightarrow> length (paste R i c) = length R"
  by (simp add: paste_def)

lemma take_paste: "i + length c \<le> length R \<Longrightarrow> take (i + length c) (paste R i c) = take i R @ c"
  by (simp add: paste_def)

lemma paste_Cons:
  assumes "i < length R"
  shows "paste (R[i := x]) (Suc i) c = paste R i (x # c)"
proof -
  have "take (Suc i) (R[i := x]) = take i R @ [x]" using assms by (simp add: take_Suc_conv_app_nth)
  moreover have "drop (Suc i + length c) (R[i := x]) = drop (i + length (x # c)) R" by simp
  ultimately show ?thesis by (simp add: paste_def)
qed

lemma realpath_loop_copy:
  "slash \<notin> set c \<Longrightarrow> i + length c \<le> length R \<Longrightarrow>
   realpath_loop (c @ rest) R i = realpath_loop rest (paste R i c) (i + length c)"
proof (induction c arbitrary: R i)
  case (Cons x c)
  have "realpath_loop ((x # c) @ rest) R i = realpath_loop (c @ rest) (R[i := x]) (Suc i)"
    using Cons.prems by (subst realpath_loop.simps) (simp add: put_def)
  also have "\<dots> = realpath_loop rest (paste (R[i := x]) (Suc i) c) (Suc i + length c)"
    using Cons.prems by (intro Cons.IH) auto
  finally show ?case using Cons.prems by (simp add: paste_Cons)
qed simp

lemma back_to_slash_stop:
  "k \<le> j \<Longrightarrow> (\<And>l. k < l \<Longrightarrow> l \<le> j \<Longrightarrow> R ! l \<noteq> slash) \<Longrightarrow> R ! k = slash \<Longrightarrow> back_to_slash R j = k"
proof (induction j)
  case (Suc j)
  show ?case
  proof (cases "k = Suc j")
    case False
    then have "R ! Suc j \<noteq> slash" using Suc.prems by simp
    moreover have "back_to_slash R j = k" using False Suc.prems by (intro Suc.IH) auto
    ultimately show ?thesis by simp
  qed (use Suc.prems in simp)
qed simp

lemma back_to_slash_comp:
  assumes R: "take i R = join_path ds @ slash # c" and c: "slash \<notin> set c" "c \<noteq> []" and i: "i = length (join_path ds) + 1 + length c"
  shows "back_to_slash R (i - 1) = length (join_path ds)"
proof (rule back_to_slash_stop)
  let ?k = "length (join_path ds)"
  have nth: "R ! l = (join_path ds @ slash # c) ! l" if "l < i" for l
    using that by (metis R nth_take)
  show "?k \<le> i - 1" using i by simp
  show "R ! ?k = slash" using nth [of ?k] i by simp
  show "R ! l \<noteq> slash" if "?k < l" "l \<le> i - 1" for l
  proof -
    have l: "l < i" "l - ?k - 1 < length c" using that i c(2) by (auto simp: Suc_le_eq)
    then have "R ! l = c ! (l - ?k - 1)" using nth [OF l(1)] that by (simp add: nth_append nth_Cons')
    then show ?thesis using c(1) l(2) by (metis nth_mem)
  qed
qed

text \<open>The four ways the loop goes at a component.\<close>

lemma slash_rest: "\<exists>r. join_path cs @ ''/'' = slash # r"
  by (cases cs) auto

lemma starts_slash_comp:
  assumes "slash \<notin> set c" and "slash \<notin> set t"
  shows "starts (slash # t @ [slash]) (slash # c @ slash # r) \<longleftrightarrow> c = t"
proof -
  have "starts (t @ [slash]) (c @ slash # r) \<longleftrightarrow> c = t"
    using assms
  proof (induction t arbitrary: c)
    case Nil
    then show ?case by (cases c) auto
  next
    case (Cons x t)
    then show ?case by (cases c) auto
  qed
  then show ?thesis by simp
qed

lemma realpath_loop_component:
  assumes c: "slash \<notin> set c" and i: "i + 1 + length c \<le> length R"
  shows "realpath_loop (slash # c @ slash # r) R i =
    (if c = [] \<or> c = ''.'' then realpath_loop (slash # r) R i
     else if c = ''..'' then realpath_loop (slash # r) R (back_to_slash R (i - 1))
     else realpath_loop (slash # r) (paste R i (slash # c)) (i + 1 + length c))"
proof -
  let ?s = "slash # c @ slash # r"
  have s0: "starts ''//'' ?s \<longleftrightarrow> c = []" using starts_slash_comp [OF c, of "[]" r] by simp
  have s2: "starts ''/../'' ?s \<longleftrightarrow> c = ''..''" using starts_slash_comp [OF c, of "''..''" r] by simp
  have s1: "starts ''/./'' ?s \<longleftrightarrow> c = ''.''" using starts_slash_comp [OF c, of "''.''" r] by simp
  consider (e) "c = []" | (u) "c = ''..''" | (d) "c = ''.''" | (w) "c \<noteq> []" "c \<noteq> ''..''" "c \<noteq> ''.''" by blast
  then show ?thesis
  proof cases
    case e
    then show ?thesis by (subst realpath_loop.simps) simp
  next
    case u
    then show ?thesis by (subst realpath_loop.simps) simp
  next
    case d
    then show ?thesis by (subst realpath_loop.simps) simp
  next
    case w
    have ns: "\<not> starts ''//'' ?s" "\<not> starts ''/../'' ?s" "\<not> starts ''/./'' ?s" using s0 s1 s2 w by blast+
    have il: "i < length R" using i by linarith
    have "realpath_loop ?s R i = realpath_loop (c @ slash # r) (R[i := slash]) (i + 1)"
      by (subst realpath_loop.simps, subst if_not_P, blast, subst if_not_P, rule ns, subst if_not_P, rule ns,
          subst if_not_P, rule ns) (simp add: put_def il)
    also have "\<dots> = realpath_loop (slash # r) (paste (R[i := slash]) (i + 1) c) (i + 1 + length c)"
      using c i by (intro realpath_loop_copy) auto
    also have "paste (R[i := slash]) (i + 1) c = paste R i (slash # c)" using paste_Cons [OF il] by simp
    finally show ?thesis by (subst if_not_P, use w in blast, subst if_not_P, use w in blast)
  qed
qed

lemma realpath_loop_spec:
  assumes "\<forall>c \<in> set cs. comp_ok c" and "\<forall>d \<in> set ds. comp_ok d \<and> d \<noteq> []"
    and "take i R = join_path ds" and "i = length (join_path ds)" and "i + length (join_path cs) + 1 \<le> length R"
  shows "\<exists>R'. realpath_loop (join_path cs @ ''/'') R i = Some (R', length (join_path (norm_comps ds cs)) + 1)
    \<and> length R' = length R \<and> take (length (join_path (norm_comps ds cs))) R' = join_path (norm_comps ds cs)
    \<and> R' ! length (join_path (norm_comps ds cs)) = slash \<and> length (join_path (norm_comps ds cs)) < length R'"
  using assms
proof (induction cs arbitrary: ds R i)
  case Nil
  have il: "i < length R" using Nil.prems by simp
  have "realpath_loop ''/'' R i = Some (R[i := slash], i + 1)"
    using il by (subst realpath_loop.simps, subst realpath_loop.simps) (simp add: put_def)
  then show ?case using Nil.prems il by simp
next
  case (Cons c cs)
  obtain r where r: "join_path cs @ ''/'' = slash # r" using slash_rest by blast
  have c: "comp_ok c" "slash \<notin> set c" "\<forall>c \<in> set cs. comp_ok c" using Cons.prems(1) by (auto simp: comp_ok_def)
  have il: "i + 1 + length c \<le> length R" using Cons.prems(5) by simp
  have loop: "realpath_loop (join_path (c # cs) @ ''/'') R i =
    (if c = [] \<or> c = ''.'' then realpath_loop (join_path cs @ ''/'') R i
     else if c = ''..'' then realpath_loop (join_path cs @ ''/'') R (back_to_slash R (i - 1))
     else realpath_loop (join_path cs @ ''/'') (paste R i (slash # c)) (i + 1 + length c))"
    unfolding r using realpath_loop_component [OF c(2) il, of r] r by simp
  consider (skip) "c = [] \<or> c = ''.''" | (up) "c = ''..''" | (down) "c \<noteq> []" "c \<noteq> ''.''" "c \<noteq> ''..''" by blast
  then show ?case
  proof cases
    case skip
    have len: "i + length (join_path cs) + 1 \<le> length R" using Cons.prems(5) by simp
    show ?thesis unfolding loop if_P [OF skip] norm_comps_Cons(1) [OF skip]
      by (rule Cons.IH [OF c(3) Cons.prems(2,3,4) len])
  next
    case up
    have b: "\<forall>d \<in> set (butlast ds). comp_ok d \<and> d \<noteq> []" using Cons.prems(2) by (blast dest: in_set_butlastD)
    have bk: "back_to_slash R (i - 1) = length (join_path (butlast ds)) \<and> take (length (join_path (butlast ds))) R = join_path (butlast ds)"
    proof (cases ds rule: rev_cases)
      case Nil
      then show ?thesis using Cons.prems(4) by simp
    next
      case (snoc es e)
      have "slash \<notin> set e" "e \<noteq> []" using Cons.prems(2) snoc by (auto simp: comp_ok_def)
      then have "back_to_slash R (i - 1) = length (join_path es)"
        using back_to_slash_comp [of i R es e] Cons.prems(3,4) snoc by simp
      moreover have "take (length (join_path es)) R = take (length (join_path es)) (take i R)" using Cons.prems(4) snoc by simp
      ultimately show ?thesis using Cons.prems(3) snoc by simp
    qed
    have len: "length (join_path (butlast ds)) + length (join_path cs) + 1 \<le> length R"
      using Cons.prems(4,5) by (cases ds rule: rev_cases) auto
    have e: "realpath_loop (join_path (c # cs) @ ''/'') R i = realpath_loop (join_path cs @ ''/'') R (length (join_path (butlast ds)))"
      unfolding loop using bk up by simp
    show ?thesis unfolding e unfolding up norm_comps_Cons(2)
      by (rule Cons.IH [OF c(3) b _ refl len]) (use bk in blast)
  next
    case down
    have e: "realpath_loop (join_path (c # cs) @ ''/'') R i = realpath_loop (join_path cs @ ''/'') (paste R i (slash # c)) (i + 1 + length c)"
      unfolding loop by (subst if_not_P, use down in blast, subst if_not_P, use down in blast, rule refl)
    have d: "\<forall>d \<in> set (ds @ [c]). comp_ok d \<and> d \<noteq> []" using Cons.prems(2) c(1) down(1) by simp
    have lp: "length (paste R i (slash # c)) = length R" using il by (intro length_paste) simp
    have tk: "take (i + 1 + length c) (paste R i (slash # c)) = join_path (ds @ [c])"
      using take_paste [of i "slash # c" R] il Cons.prems(3) by simp
    have "\<exists>R'. realpath_loop (join_path cs @ ''/'') (paste R i (slash # c)) (i + 1 + length c)
        = Some (R', length (join_path (norm_comps (ds @ [c]) cs)) + 1)
      \<and> length R' = length (paste R i (slash # c))
      \<and> take (length (join_path (norm_comps (ds @ [c]) cs))) R' = join_path (norm_comps (ds @ [c]) cs)
      \<and> R' ! length (join_path (norm_comps (ds @ [c]) cs)) = slash
      \<and> length (join_path (norm_comps (ds @ [c]) cs)) < length R'"
      by (rule Cons.IH [OF c(3) d tk]) (use Cons.prems(4,5) lp in auto)
    then show ?thesis unfolding e norm_comps_Cons(3) [OF down] lp .
  qed
qed

section \<open>Properties\<close>

text \<open>The path that is normalised.\<close>

definition full_path :: "string \<Rightarrow> string \<Rightarrow> string" where
  "full_path cwd path = (if path \<noteq> [] \<and> hd path = slash then path else cwd @ slash # path)"

lemma realpath_abs_spec:
  assumes "length (full_path cwd path) + 1 < PATH_MAX" and "cwd \<noteq> []" and "hd cwd = slash"
  shows "realpath_abs cwd path = Some (full_path cwd path @ ''/'')"
proof (cases "path \<noteq> [] \<and> hd path = slash")
  case True
  then show ?thesis using assms(1) by (simp add: realpath_abs_def full_path_def str_ncat_def)
next
  case False
  then have "full_path cwd path = cwd @ slash # path" by (auto simp: full_path_def)
  then have "length cwd + length path + 2 < PATH_MAX" using assms(1) by simp
  then show ?thesis using False assms(2,3) by (auto simp: realpath_abs_def full_path_def str_ncat_def Let_def)
qed

lemma norm_path_split:
  "norm_path (slash # p) = (case norm_comps [] (split_path p) of [] \<Rightarrow> ''/'' | cs \<Rightarrow> join_path cs)"
  by (simp add: norm_path_def norm_comps_Cons(1))

lemma takeWhile_cut:
  assumes "n < length R" and "take n R = s" and "z \<notin> set s"
  shows "takeWhile (\<lambda>c. c \<noteq> z) (R[n := z]) = s"
proof -
  have "R[n := z] = s @ z # drop (Suc n) R" using assms(1,2) by (simp add: upd_conv_take_nth_drop)
  then show ?thesis using assms(3) by (auto simp: takeWhile_append)
qed

text \<open>C6. \<^verbatim>\<open>realpath\<close> computes the normal form of the path, taken from the working directory when it does not start
  with a slash: it always returns, and the result has no empty component, no dot and no pair of dots, a pair of dots
  having removed the component before it. The path and the final slash must fit the array.\<close>

theorem realpath_normalises:
  assumes "length (full_path cwd path) + 1 < PATH_MAX" and "NUL_CHR \<notin> set (full_path cwd path)"
    and "cwd \<noteq> []" and "hd cwd = slash" and "length R = PATH_MAX"
  shows "realpath cwd path R = Some (norm_path (full_path cwd path))"
proof -
  have "full_path cwd path \<noteq> [] \<and> hd (full_path cwd path) = slash" using assms(3,4) by (auto simp: full_path_def)
  then obtain p where p: "full_path cwd path = slash # p" by (cases "full_path cwd path") auto
  let ?cs = "split_path p"
  define n where "n = norm_comps [] ?cs"
  have ok: "\<forall>c \<in> set ?cs. comp_ok c" using split_path_comps assms(2) p by simp
  have nok: "\<forall>c \<in> set n. comp_ok c \<and> c \<noteq> []" unfolding n_def by (rule norm_comps_ok [OF ok]) simp
  have abs: "realpath_abs cwd path = Some (join_path ?cs @ ''/'')"
    using realpath_abs_spec [OF assms(1,3,4)] p join_split [of p] by simp
  obtain R' where R': "realpath_loop (join_path ?cs @ ''/'') R 0 = Some (R', length (join_path n) + 1)" "length R' = length R"
      "take (length (join_path n)) R' = join_path n" "R' ! length (join_path n) = slash" "length (join_path n) < length R'"
    using realpath_loop_spec [OF ok, of "[]" 0 R] join_split [of p] p assms(1,5) unfolding n_def by auto
  have nul: "NUL_CHR \<notin> set (join_path n)" using join_path_no_nul nok by blast
  show ?thesis
  proof (cases "n = []")
    case True
    have "R' ! 0 = slash" "1 < length R'" using R' True assms(5) by (simp_all add: PATH_MAX_def)
    moreover have "take 1 R' = ''/''" using calculation by (cases R') auto
    ultimately have "takeWhile (\<lambda>c. c \<noteq> NUL_CHR) (R'[1 := NUL_CHR]) = ''/''"
      by (intro takeWhile_cut) auto
    then show ?thesis
      using True abs R' \<open>1 < length R'\<close> p n_def by (simp add: realpath_def norm_path_split put_def)
  next
    case False
    then obtain c cs where n: "n = c # cs" by (cases n) auto
    then have "length (join_path n) > 1" using nok by (cases c) auto
    then show ?thesis
      using n abs R' p n_def takeWhile_cut [OF _ R'(3) nul]
      by (simp add: realpath_def norm_path_split put_def)
  qed
qed

theorem realpath_normalises_witness:
  "realpath ''/home/u'' ''../../bin//./ls'' (replicate PATH_MAX NUL_CHR) = Some ''/bin/ls''
   \<and> realpath ''/home/u'' ''/../..'' (replicate PATH_MAX NUL_CHR) = Some ''/''"
proof -
  have "norm_path (full_path ''/home/u'' ''../../bin//./ls'') = ''/bin/ls''"
    "norm_path (full_path ''/home/u'' ''/../..'') = ''/''" by code_simp+
  then show ?thesis
    using realpath_normalises [of "''/home/u''" "''../../bin//./ls''" "replicate PATH_MAX NUL_CHR"]
      realpath_normalises [of "''/home/u''" "''/../..''" "replicate PATH_MAX NUL_CHR"]
    by (simp add: full_path_def PATH_MAX_def)
qed

section \<open>The directory and the name\<close>

lemma last_index_split:
  assumes "x \<notin> set b"
  shows "last_index x (a @ x # b) = Some (length a)"
proof -
  let ?s = "a @ x # b"
  have "rev ?s ! length b = x" by (simp add: nth_append)
  moreover have "rev ?s ! j \<noteq> x" if "j < length b" for j
  proof -
    have "b ! (length b - Suc j) \<in> set b" using that by (intro nth_mem) simp
    then show ?thesis using that assms by (auto simp: nth_append rev_nth)
  qed
  ultimately have "find (\<lambda>i. rev ?s ! i = x) [0..<length ?s] = Some (length b)"
    by (subst find_upt_Some_iff) auto
  then show ?thesis by (simp add: last_index_def)
qed

lemma last_index_None: "x \<notin> set s \<Longrightarrow> last_index x s = None"
  by (auto simp: last_index_def find_None_iff rev_nth)

text \<open>C34. The directory and the name of a path: for a path whose last component is not empty, \<^verbatim>\<open>basename\<close> is that
  component and \<^verbatim>\<open>dirname\<close> is what is before its slash, or the root. A path with an initial and a final slash has the empty
  string as its directory, because the slash before the last one is searched from the start.\<close>

theorem dirname_basename:
  assumes "length (d @ slash # b) < PATH_MAX" and "slash \<notin> set b" and "b \<noteq> []"
  shows "dirname (Some (d @ slash # b)) = Some (if d = [] then ''/'' else d) \<and> basename (d @ slash # b) = b
    \<and> (d \<noteq> [] \<longrightarrow> hd d = slash \<longrightarrow> dirname (Some (d @ [slash])) = Some [])"
proof -
  have 1: "dirname (Some (d @ slash # b)) = Some (if d = [] then ''/'' else d)"
    using assms last_index_split [OF assms(2), of d]
    by (cases d) (auto simp: dirname_def Let_def split: nat.splits)
  have 2: "basename (d @ slash # b) = b"
    using last_index_split [OF assms(2), of d] by (simp add: basename_def)
  have 3: "dirname (Some (d @ [slash])) = Some []" if d: "d \<noteq> []" "hd d = slash"
  proof -
    have "first_index slash d = Some 0" unfolding first_index_def using d by (subst find_upt_Some_iff) (auto simp: hd_conv_nth)
    moreover have "last_index slash (d @ [slash]) = Some (length d)" using last_index_split [of slash "[]" d] by simp
    moreover have "length (d @ [slash]) < PATH_MAX" using assms(1,3) by (cases b) auto
    ultimately show ?thesis using d(1) by (cases "length d") (auto simp: dirname_def Let_def)
  qed
  show ?thesis using 1 2 3 by blast
qed

theorem dirname_basename_witness:
  "dirname (Some ''/proc/video'') = Some ''/proc'' \<and> basename ''/proc/video'' = ''video'' \<and> dirname (Some ''/proc/'') = Some []"
  using dirname_basename [of "''/proc''" "''video''"] by (simp add: PATH_MAX_def)

end
