(* ===== verification/Vfs.thy ===== *)
theory Vfs
  imports Libgen Hashmap Task
begin

text \<open>
  The virtual file system: \<^verbatim>\<open>src/kernel/fs/vfs.c\<close> with the structures of \<^verbatim>\<open>include/kernel/fs/vfs_types.h\<close>, the file types of
  \<^verbatim>\<open>include/kernel/dirent.h\<close>, the flags of \<^verbatim>\<open>include/kernel/fcntl.h\<close> and the structure of \<^verbatim>\<open>include/kernel/stat.h\<close>.

  The state \<open>'d vfs\<close> holds the open files by address, the mounted file systems in the order of the list, the table of file
  system types, and the data \<open>'d\<close> of the file systems below. \<open>v_kmalloc\<close> are the addresses that \<^verbatim>\<open>kmalloc\<close> answers next, the null
  pointer for a failure. The operations of a file are function pointers: a file has the addresses of its two tables of
  operations, and \<open>'d ops_env\<close>, an argument of every function that calls through such a table, says what is at these addresses.
  An entry \<open>None\<close> of a table is a null pointer.

  Paths are C strings, as in \<open>Libgen\<close>; the arrays that hold them are large enough or the result is \<open>None\<close>.
\<close>

section \<open>Constants\<close>

definition ENOENT :: int where "ENOENT = 2"
definition EBADF :: int where "EBADF = 9"
definition EACCES :: int where "EACCES = 13"
definition EBUSY :: int where "EBUSY = 16"
definition EEXIST :: int where "EEXIST = 17"
definition ENODEV :: int where "ENODEV = 19"
definition ENOTDIR :: int where "ENOTDIR = 20"
definition EISDIR :: int where "EISDIR = 21"
definition ENFILE :: int where "ENFILE = 23"
definition EMFILE :: int where "EMFILE = 24"
definition ENOSYS :: int where "ENOSYS = 38"
definition ENOTEMPTY :: int where "ENOTEMPTY = 39"

definition DT_DIR :: u32 where "DT_DIR = 4"
definition DT_REG :: u32 where "DT_REG = 8"

definition O_WRONLY :: u32 where "O_WRONLY = 1"
definition O_RDWR :: u32 where "O_RDWR = 2"
definition O_CREAT :: u32 where "O_CREAT = 0x40"
definition O_EXCL :: u32 where "O_EXCL = 0x80"
definition O_DIRECTORY :: u32 where "O_DIRECTORY = 0x10000"

definition S_IRUSR :: u32 where "S_IRUSR = 0x100"
definition S_IRGRP :: u32 where "S_IRGRP = 0x20"
definition S_IROTH :: u32 where "S_IROTH = 0x4"

definition MAX_OPEN_FD :: int where "MAX_OPEN_FD = 16"

section \<open>Data\<close>

record vfs_file_t =
  vf_name :: string
  vf_device :: addr
  vf_mask :: u32
  vf_uid :: u32
  vf_gid :: u32
  vf_flags :: u32
  vf_ino :: u32
  vf_length :: u32
  vf_impl :: u32
  vf_open_flags :: u32
  vf_count :: int
  vf_atime :: u32
  vf_mtime :: u32
  vf_ctime :: u32
  vf_sys_operations :: addr
  vf_fs_operations :: addr
  vf_f_pos :: u32
  vf_nlink :: u32
  vf_refcount :: int

record super_block_t =
  sb_name :: string
  sb_path :: string
  sb_root :: addr
  sb_type :: addr

record stat_t =
  st_dev :: u32
  st_ino :: u32
  st_mode :: u32
  st_uid :: u32
  st_gid :: u32
  st_size :: u32
  st_atime :: u32
  st_mtime :: u32
  st_ctime :: u32

record dirent_t =
  d_ino :: u32
  d_off :: u32
  d_reclen :: u16
  d_type :: u16
  d_name :: string

record 'd vfs =
  v_filesystems :: "string hashmap"
  v_super_blocks :: "super_block_t list"
  v_spinlock :: bool
  v_files :: "addr \<rightharpoonup> vfs_file_t"
  v_errno :: int
  v_kmalloc :: "addr list"
  v_cwd :: string
  v_time :: u32
  v_data :: 'd

record 'd vfs_sys_operations_t =
  mkdir_f :: "(string \<Rightarrow> u32 \<Rightarrow> 'd vfs \<Rightarrow> (int \<times> 'd vfs) option) option"
  rmdir_f :: "(string \<Rightarrow> 'd vfs \<Rightarrow> (int \<times> 'd vfs) option) option"
  stat_f :: "(string \<Rightarrow> stat_t \<Rightarrow> 'd vfs \<Rightarrow> (int \<times> stat_t \<times> 'd vfs) option) option"
  creat_f :: "(string \<Rightarrow> u32 \<Rightarrow> 'd vfs \<Rightarrow> (addr \<times> 'd vfs) option) option"

text \<open>
  A read returns the bytes that are put into the buffer, a write is given the bytes of the buffer; \<^verbatim>\<open>getdents\<close> returns the
  entries that are put into its buffer. The \<^verbatim>\<open>stat\<close> functions take and return the structure.
\<close>

record 'd vfs_file_operations_t =
  open_f :: "(string \<Rightarrow> u32 \<Rightarrow> u32 \<Rightarrow> 'd vfs \<Rightarrow> (addr \<times> 'd vfs) option) option"
  unlink_f :: "(string \<Rightarrow> 'd vfs \<Rightarrow> (int \<times> 'd vfs) option) option"
  close_f :: "(addr \<Rightarrow> 'd vfs \<Rightarrow> (int \<times> 'd vfs) option) option"
  read_f :: "(addr \<Rightarrow> u32 \<Rightarrow> u32 \<Rightarrow> 'd vfs \<Rightarrow> (int \<times> u8 list \<times> 'd vfs) option) option"
  write_f :: "(addr \<Rightarrow> u8 list \<Rightarrow> u32 \<Rightarrow> u32 \<Rightarrow> 'd vfs \<Rightarrow> (int \<times> 'd vfs) option) option"
  lseek_f :: "(addr \<Rightarrow> int \<Rightarrow> int \<Rightarrow> 'd vfs \<Rightarrow> (int \<times> 'd vfs) option) option"
  fstat_f :: "(addr \<Rightarrow> stat_t \<Rightarrow> 'd vfs \<Rightarrow> (int \<times> stat_t \<times> 'd vfs) option) option"
  ioctl_f :: "(addr \<Rightarrow> int \<Rightarrow> addr \<Rightarrow> 'd vfs \<Rightarrow> (int \<times> 'd vfs) option) option"
  getdents_f :: "(addr \<Rightarrow> u32 \<Rightarrow> u32 \<Rightarrow> 'd vfs \<Rightarrow> (int \<times> dirent_t list \<times> 'd vfs) option) option"

record 'd file_system_type =
  fst_name :: string
  fst_flags :: int
  fst_mount :: "(string \<Rightarrow> string \<Rightarrow> 'd vfs \<Rightarrow> (addr \<times> 'd vfs) option) option"

record 'd ops_env =
  sys_ops_at :: "addr \<Rightarrow> 'd vfs_sys_operations_t option"
  file_ops_at :: "addr \<Rightarrow> 'd vfs_file_operations_t option"
  fs_type_at :: "addr \<Rightarrow> 'd file_system_type option"

definition get_file :: "'d vfs \<Rightarrow> addr \<Rightarrow> vfs_file_t option" where
  "get_file V a = (if a = NULL then None else v_files V a)"

definition upd_file :: "'d vfs \<Rightarrow> addr \<Rightarrow> (vfs_file_t \<Rightarrow> vfs_file_t) \<Rightarrow> 'd vfs option" where
  "upd_file V a f = do {
     x \<leftarrow> get_file V a;
     Some (V\<lparr>v_files := (v_files V)(a \<mapsto> f x)\<rparr>)
   }"

definition kmalloc_next :: "'d vfs \<Rightarrow> (addr \<times> 'd vfs) option" where
  "kmalloc_next V = (case v_kmalloc V of [] \<Rightarrow> None | a # as \<Rightarrow> Some (a, V\<lparr>v_kmalloc := as\<rparr>))"

section \<open>File system types and mounts\<close>

definition fs_name_hash :: "string \<Rightarrow> u32" where
  "fs_name_hash s = sdbm 0 (map of_char s)"

definition vfs_filesystems_max :: u32 where "vfs_filesystems_max = 10"

definition vfs_init :: "'d vfs \<Rightarrow> 'd vfs" where
  "vfs_init V = V\<lparr>v_super_blocks := [],
     v_filesystems := hashmap_create vfs_filesystems_max fs_name_hash (=) hashmap_do_not_duplicate,
     v_spinlock := False\<rparr>"

definition vfs_register_filesystem :: "'d ops_env \<Rightarrow> 'd vfs \<Rightarrow> addr \<Rightarrow> (int \<times> 'd vfs) option" where
  "vfs_register_filesystem E V fs = do {
     t \<leftarrow> fs_type_at E fs;
     (old, m) \<leftarrow> hashmap_set (v_filesystems V) (fst_name t) fs;
     Some (if old \<noteq> NULL then 0 else 1, V\<lparr>v_filesystems := m\<rparr>)
   }"

definition vfs_unregister_filesystem :: "'d ops_env \<Rightarrow> 'd vfs \<Rightarrow> addr \<Rightarrow> (int \<times> 'd vfs) option" where
  "vfs_unregister_filesystem E V fs = do {
     t \<leftarrow> fs_type_at E fs;
     (old, m) \<leftarrow> hashmap_remove (v_filesystems V) (fst_name t);
     Some (if old \<noteq> NULL then 0 else 1, V\<lparr>v_filesystems := m\<rparr>)
   }"

text \<open>
  The position of the mounted file system whose path is a prefix of the given one, with the longest path. \<open>best\<close> is
  the best one so far with its length, 0 at the start, so that an empty path is never chosen.
\<close>

fun superblock_loop :: "string \<Rightarrow> super_block_t list \<Rightarrow> nat \<Rightarrow> nat \<Rightarrow> nat option \<Rightarrow> nat option" where
  "superblock_loop p [] i last_sb_len last_sb = last_sb"
| "superblock_loop p (sb # sbs) i last_sb_len last_sb =
     (let len = length (sb_path sb) in
      if take len p = sb_path sb \<and> len > last_sb_len then superblock_loop p sbs (i + 1) len (Some i)
      else superblock_loop p sbs (i + 1) last_sb_len last_sb)"

definition vfs_get_superblock :: "'d vfs \<Rightarrow> string \<Rightarrow> nat option" where
  "vfs_get_superblock V absolute_path = superblock_loop absolute_path (v_super_blocks V) 0 0 None"

text \<open>
  The lock is still held when the allocation fails. The type of the new file system is not set here; the null pointer
  stands for it.
\<close>

definition vfs_mount :: "'d vfs \<Rightarrow> string option \<Rightarrow> addr \<Rightarrow> (int \<times> 'd vfs) option" where
  "vfs_mount V path new_fs_root = (case path of
     None \<Rightarrow> Some (0, V)
   | Some p \<Rightarrow>
     if p = [] \<or> hd p \<noteq> slash then Some (0, V)
     else if new_fs_root = NULL then Some (0, V)
     else do {
       c_assert (\<not> v_spinlock V);
       let V = V\<lparr>v_spinlock := True\<rparr>;
       f \<leftarrow> get_file V new_fs_root;
       (sb, V) \<leftarrow> kmalloc_next V;
       if sb = NULL then Some (0, V)
       else do {
         c_assert (length (vf_name f) < NAME_MAX);
         c_assert (length p < PATH_MAX);
         let V = V\<lparr>v_super_blocks :=
               \<lparr>sb_name = vf_name f, sb_path = p, sb_root = new_fs_root, sb_type = NULL\<rparr> # v_super_blocks V\<rparr>;
         Some (1, V\<lparr>v_spinlock := False\<rparr>)
       }
     })"

definition do_mount :: "'d ops_env \<Rightarrow> 'd vfs \<Rightarrow> string \<Rightarrow> string \<Rightarrow> string \<Rightarrow> (int \<times> 'd vfs) option" where
  "do_mount E V type path args = do {
     fst \<leftarrow> hashmap_get (v_filesystems V) type;
     if fst = NULL then Some (- ENODEV, V)
     else do {
       t \<leftarrow> fs_type_at E fst;
       case fst_mount t of
         None \<Rightarrow> Some (- ENODEV, V)
       | Some mount \<Rightarrow> do {
           (file, V) \<leftarrow> mount path args V;
           if file = NULL then Some (- ENODEV, V)
           else do {
             (r, V) \<leftarrow> vfs_mount V (Some path) file;
             if r = 0 then Some (- ENODEV, V)
             else case vfs_get_superblock V path of
                 None \<Rightarrow> Some (- ENODEV, V)
               | Some i \<Rightarrow> Some (0, V\<lparr>v_super_blocks := (v_super_blocks V)[i := (v_super_blocks V ! i)\<lparr>sb_type := fst\<rparr>]\<rparr>)
           }
         }
     }
   }"

section \<open>Operations on paths\<close>

text \<open>
  The absolute path, in a local array. \<^verbatim>\<open>realpath\<close> returns the array it is given, never the null pointer, so that the branches
  for a null result are not reached.
\<close>

definition resolve :: "'d vfs \<Rightarrow> string \<Rightarrow> string option" where
  "resolve V path = realpath (v_cwd V) path (replicate PATH_MAX NUL_CHR)"

text \<open>The root of the file system a path is on: the error, or the root.\<close>

definition root_of :: "'d vfs \<Rightarrow> string \<Rightarrow> int \<Rightarrow> (int + addr)" where
  "root_of V absolute_path no_superblock = (case vfs_get_superblock V absolute_path of
     None \<Rightarrow> Inl no_superblock
   | Some i \<Rightarrow> let r = sb_root (v_super_blocks V ! i) in if r = NULL then Inl ENOENT else Inr r)"

definition file_ops :: "'d ops_env \<Rightarrow> 'd vfs \<Rightarrow> addr \<Rightarrow> 'd vfs_file_operations_t option" where
  "file_ops E V a = do { f \<leftarrow> get_file V a; file_ops_at E (vf_fs_operations f) }"

definition sys_ops :: "'d ops_env \<Rightarrow> 'd vfs \<Rightarrow> addr \<Rightarrow> 'd vfs_sys_operations_t option" where
  "sys_ops E V a = do { f \<leftarrow> get_file V a; sys_ops_at E (vf_sys_operations f) }"

definition vfs_open :: "'d ops_env \<Rightarrow> 'd vfs \<Rightarrow> string \<Rightarrow> u32 \<Rightarrow> u32 \<Rightarrow> (addr \<times> 'd vfs) option" where
  "vfs_open E V path flags mode = do {
     p \<leftarrow> resolve V path;
     case root_of V p ENOENT of
       Inl e \<Rightarrow> Some (NULL, V\<lparr>v_errno := e\<rparr>)
     | Inr root \<Rightarrow> do {
         ops \<leftarrow> file_ops E V root;
         case open_f ops of
           None \<Rightarrow> Some (NULL, V\<lparr>v_errno := ENOSYS\<rparr>)
         | Some f \<Rightarrow> do {
             (file, V) \<leftarrow> f p flags mode V;
             if file = NULL then Some (NULL, V)
             else do {
               V \<leftarrow> upd_file V file (\<lambda>x. x\<lparr>vf_count := vf_count x + 1\<rparr>);
               Some (file, V)
             }
           }
       }
   }"

definition vfs_close :: "'d ops_env \<Rightarrow> 'd vfs \<Rightarrow> addr \<Rightarrow> (int \<times> 'd vfs) option" where
  "vfs_close E V file = do {
     x \<leftarrow> get_file V file;
     c_assert (vf_count x > 0);
     V \<leftarrow> upd_file V file (\<lambda>x. x\<lparr>vf_count := vf_count x - 1\<rparr>);
     if vf_count x - 1 = 0 then do {
       ops \<leftarrow> file_ops E V file;
       case close_f ops of
         None \<Rightarrow> Some (- ENOSYS, V)
       | Some f \<Rightarrow> do { (_, V) \<leftarrow> f file V; Some (0, V) }
     }
     else Some (0, V)
   }"

definition vfs_read :: "'d ops_env \<Rightarrow> 'd vfs \<Rightarrow> addr \<Rightarrow> u32 \<Rightarrow> u32 \<Rightarrow> (int \<times> u8 list \<times> 'd vfs) option" where
  "vfs_read E V file offset nbytes = do {
     ops \<leftarrow> file_ops E V file;
     case read_f ops of None \<Rightarrow> Some (- ENOSYS, [], V) | Some f \<Rightarrow> f file offset nbytes V
   }"

definition vfs_write :: "'d ops_env \<Rightarrow> 'd vfs \<Rightarrow> addr \<Rightarrow> u8 list \<Rightarrow> u32 \<Rightarrow> u32 \<Rightarrow> (int \<times> 'd vfs) option" where
  "vfs_write E V file buf offset nbytes = do {
     ops \<leftarrow> file_ops E V file;
     case write_f ops of None \<Rightarrow> Some (- ENOSYS, V) | Some f \<Rightarrow> f file buf offset nbytes V
   }"

definition vfs_lseek :: "'d ops_env \<Rightarrow> 'd vfs \<Rightarrow> addr \<Rightarrow> int \<Rightarrow> int \<Rightarrow> (int \<times> 'd vfs) option" where
  "vfs_lseek E V file offset whence = do {
     ops \<leftarrow> file_ops E V file;
     case lseek_f ops of None \<Rightarrow> Some (- ENOSYS, V) | Some f \<Rightarrow> f file offset whence V
   }"

definition vfs_getdents :: "'d ops_env \<Rightarrow> 'd vfs \<Rightarrow> addr \<Rightarrow> u32 \<Rightarrow> u32 \<Rightarrow> (int \<times> dirent_t list \<times> 'd vfs) option" where
  "vfs_getdents E V file off count = do {
     ops \<leftarrow> file_ops E V file;
     case getdents_f ops of None \<Rightarrow> Some (- ENOSYS, [], V) | Some f \<Rightarrow> f file off count V
   }"

definition vfs_ioctl :: "'d ops_env \<Rightarrow> 'd vfs \<Rightarrow> addr \<Rightarrow> int \<Rightarrow> addr \<Rightarrow> (int \<times> 'd vfs) option" where
  "vfs_ioctl E V file request data = do {
     ops \<leftarrow> file_ops E V file;
     case ioctl_f ops of None \<Rightarrow> Some (- ENOSYS, V) | Some f \<Rightarrow> f file request data V
   }"

definition vfs_unlink :: "'d ops_env \<Rightarrow> 'd vfs \<Rightarrow> string \<Rightarrow> (int \<times> 'd vfs) option" where
  "vfs_unlink E V path = do {
     p \<leftarrow> resolve V path;
     case root_of V p ENODEV of
       Inl e \<Rightarrow> Some (- e, V)
     | Inr root \<Rightarrow> do {
         ops \<leftarrow> file_ops E V root;
         case unlink_f ops of None \<Rightarrow> Some (- ENOSYS, V) | Some f \<Rightarrow> f p V
       }
   }"

definition vfs_mkdir :: "'d ops_env \<Rightarrow> 'd vfs \<Rightarrow> string \<Rightarrow> u32 \<Rightarrow> (int \<times> 'd vfs) option" where
  "vfs_mkdir E V path mode = do {
     p \<leftarrow> resolve V path;
     case root_of V p ENODEV of
       Inl e \<Rightarrow> Some (- e, V)
     | Inr root \<Rightarrow> do {
         ops \<leftarrow> sys_ops E V root;
         case mkdir_f ops of None \<Rightarrow> Some (- ENOSYS, V) | Some f \<Rightarrow> f p mode V
       }
   }"

definition vfs_rmdir :: "'d ops_env \<Rightarrow> 'd vfs \<Rightarrow> string \<Rightarrow> (int \<times> 'd vfs) option" where
  "vfs_rmdir E V path = do {
     p \<leftarrow> resolve V path;
     case root_of V p ENODEV of
       Inl e \<Rightarrow> Some (- e, V)
     | Inr root \<Rightarrow> do {
         ops \<leftarrow> sys_ops E V root;
         case rmdir_f ops of None \<Rightarrow> Some (- ENOSYS, V) | Some f \<Rightarrow> f p V
       }
   }"

definition vfs_create :: "'d ops_env \<Rightarrow> 'd vfs \<Rightarrow> string \<Rightarrow> u32 \<Rightarrow> (addr \<times> 'd vfs) option" where
  "vfs_create E V path mode = do {
     p \<leftarrow> resolve V path;
     case root_of V p ENODEV of
       Inl e \<Rightarrow> Some (NULL, V\<lparr>v_errno := e\<rparr>)
     | Inr root \<Rightarrow> do {
         ops \<leftarrow> sys_ops E V root;
         case creat_f ops of
           None \<Rightarrow> Some (NULL, V\<lparr>v_errno := ENOSYS\<rparr>)
         | Some f \<Rightarrow> do {
             (file, V) \<leftarrow> f p mode V;
             if file = NULL then Some (NULL, V\<lparr>v_errno := ENOENT\<rparr>)
             else do {
               V \<leftarrow> upd_file V file (\<lambda>x. x\<lparr>vf_count := vf_count x + 1\<rparr>);
               Some (file, V)
             }
           }
       }
   }"

definition zero_stat :: stat_t where
  "zero_stat = \<lparr>st_dev = 0, st_ino = 0, st_mode = 0, st_uid = 0, st_gid = 0, st_size = 0, st_atime = 0, st_mtime = 0, st_ctime = 0\<rparr>"

definition vfs_stat :: "'d ops_env \<Rightarrow> 'd vfs \<Rightarrow> string \<Rightarrow> stat_t \<Rightarrow> (int \<times> stat_t \<times> 'd vfs) option" where
  "vfs_stat E V path buf = do {
     p \<leftarrow> resolve V path;
     case root_of V p ENODEV of
       Inl e \<Rightarrow> Some (- e, buf, V)
     | Inr root \<Rightarrow> do {
         ops \<leftarrow> sys_ops E V root;
         case stat_f ops of None \<Rightarrow> Some (- ENOSYS, buf, V) | Some f \<Rightarrow> f p zero_stat V
       }
   }"

definition vfs_fstat :: "'d ops_env \<Rightarrow> 'd vfs \<Rightarrow> addr \<Rightarrow> stat_t \<Rightarrow> (int \<times> stat_t \<times> 'd vfs) option" where
  "vfs_fstat E V file buf = do {
     ops \<leftarrow> file_ops E V file;
     case fstat_f ops of None \<Rightarrow> Some (- ENOSYS, buf, V) | Some f \<Rightarrow> f file zero_stat V
   }"

definition vfs_lock :: "'d vfs \<Rightarrow> addr \<Rightarrow> 'd vfs option" where
  "vfs_lock V file = upd_file V file (\<lambda>x. x\<lparr>vf_refcount := - 1\<rparr>)"

section \<open>File descriptors of tasks\<close>

record vfs_file_descriptor_t =
  file_struct :: addr
  flags_mask :: int

text \<open>\<open>fd_list\<close> is \<open>None\<close> for the null pointer.\<close>

record fd_table =
  fd_list :: "vfs_file_descriptor_t list option"
  max_fd :: int

definition no_fd :: vfs_file_descriptor_t where
  "no_fd = \<lparr>file_struct = NULL, flags_mask = 0\<rparr>"

text \<open>
  The new table has the contents \<open>junk\<close> of the memory that \<^verbatim>\<open>kmalloc\<close> returns, except for its first \<open>max_fd\<close> entries,
  which are cleared and then overwritten by the old ones.
\<close>

definition vfs_extend_task_fd_list ::
  "(nat \<Rightarrow> vfs_file_descriptor_t) \<Rightarrow> 'd vfs \<Rightarrow> fd_table \<Rightarrow> (int \<times> fd_table \<times> 'd vfs) option" where
  "vfs_extend_task_fd_list junk V task = do {
     let new_max_fd = (if fd_list task \<noteq> None then max_fd task * 2 + 1 else MAX_OPEN_FD);
     (a, V) \<leftarrow> kmalloc_next V;
     if a = NULL then Some (0, task, V\<lparr>v_errno := EMFILE\<rparr>)
     else do {
       let fresh = map junk [0..<nat new_max_fd];
       let cleared = replicate (nat (max_fd task)) no_fd @ drop (nat (max_fd task)) fresh;
       let new = (case fd_list task of None \<Rightarrow> cleared
                  | Some old \<Rightarrow> take (nat (max_fd task)) old @ drop (nat (max_fd task)) cleared);
       Some (1, \<lparr>fd_list = Some new, max_fd = new_max_fd\<rparr>, V)
     }
   }"

text \<open>
  \<open>proc_entry\<close> is the result of \<^verbatim>\<open>procr_create_entry_pid\<close> or \<^verbatim>\<open>procr_destroy_entry_pid\<close> of \<^verbatim>\<open>procr.c\<close>, which is not modelled; the entries
  that they add to and remove from the process file system are not part of the state here.
\<close>

definition vfs_init_task ::
  "(nat \<Rightarrow> vfs_file_descriptor_t) \<Rightarrow> int \<Rightarrow> 'd vfs \<Rightarrow> fd_table \<Rightarrow> (int \<times> fd_table \<times> 'd vfs) option" where
  "vfs_init_task junk proc_entry V task = do {
     (r, task, V) \<leftarrow> vfs_extend_task_fd_list junk V task;
     if r = 0 then Some (0, task, V)
     else if proc_entry \<noteq> 0 then Some (0, task, V)
     else Some (1, task, V)
   }"

fun dup_counts :: "'d vfs \<Rightarrow> vfs_file_descriptor_t list \<Rightarrow> 'd vfs option" where
  "dup_counts V [] = Some V"
| "dup_counts V (d # ds) = do {
     V \<leftarrow> (if file_struct d \<noteq> NULL then upd_file V (file_struct d) (\<lambda>x. x\<lparr>vf_count := vf_count x + 1\<rparr>) else Some V);
     dup_counts V ds
   }"

definition vfs_dup_task :: "int \<Rightarrow> 'd vfs \<Rightarrow> fd_table \<Rightarrow> (int \<times> fd_table \<times> 'd vfs) option" where
  "vfs_dup_task proc_entry V old_task = do {
     (a, V) \<leftarrow> kmalloc_next V;
     c_assert (a \<noteq> NULL);
     old \<leftarrow> fd_list old_task;
     c_assert (nat (max_fd old_task) \<le> length old);
     let new = take (nat (max_fd old_task)) old;
     V \<leftarrow> dup_counts V new;
     let task = \<lparr>fd_list = Some new, max_fd = max_fd old_task\<rparr>;
     if proc_entry \<noteq> 0 then Some (0, task, V) else Some (1, task, V)
   }"

fun drop_counts :: "'d ops_env \<Rightarrow> 'd vfs \<Rightarrow> vfs_file_descriptor_t list \<Rightarrow> 'd vfs option" where
  "drop_counts E V [] = Some V"
| "drop_counts E V (d # ds) = do {
     V \<leftarrow> (if file_struct d \<noteq> NULL then do {
            V \<leftarrow> upd_file V (file_struct d) (\<lambda>x. x\<lparr>vf_count := vf_count x - 1\<rparr>);
            x \<leftarrow> get_file V (file_struct d);
            if vf_count x = 0 then do {
              ops \<leftarrow> file_ops E V (file_struct d);
              f \<leftarrow> close_f ops;
              (_, V) \<leftarrow> f (file_struct d) V;
              Some V
            }
            else Some V
          }
          else Some V);
     drop_counts E V ds
   }"

definition vfs_destroy_task :: "'d ops_env \<Rightarrow> int \<Rightarrow> 'd vfs \<Rightarrow> fd_table \<Rightarrow> (int \<times> fd_table \<times> 'd vfs) option" where
  "vfs_destroy_task E proc_entry V task = do {
     V \<leftarrow> (case fd_list task of
            None \<Rightarrow> if max_fd task > 0 then None else Some V
          | Some ds \<Rightarrow> do { c_assert (nat (max_fd task) \<le> length ds); drop_counts E V (take (nat (max_fd task)) ds) });
     let task = \<lparr>fd_list = None, max_fd = 0\<rparr>;
     if proc_entry \<noteq> 0 then Some (0, task, V) else Some (1, task, V)
   }"

end
