(* ===== verification/Vfs_Props.thy ===== *)
theory Vfs_Props
  imports Vfs "HOL-Library.Sublist"
begin

text \<open>
  Properties of the virtual file system: which mounted file system a path belongs to, and the counts of the open files under
  \<^verbatim>\<open>vfs_dup_task\<close> and \<^verbatim>\<open>vfs_destroy_task\<close>.
\<close>

section \<open>Mounted file systems\<close>

lemma take_eq_prefix: "take (length xs) ys = xs \<longleftrightarrow> prefix xs ys"
  by (metis append_eq_conv_conj append_take_drop_id prefix_def)

text \<open>The result of the loop: the first one among the longest, if one is longer than the best so far.\<close>

lemma superblock_loop_SomeD:
  "superblock_loop p sbs i n r = Some k \<Longrightarrow>
   (Some k = r \<and> (\<forall>sb \<in> set sbs. prefix (sb_path sb) p \<longrightarrow> length (sb_path sb) \<le> n)) \<or>
   (\<exists>j < length sbs. k = i + j \<and> prefix (sb_path (sbs ! j)) p \<and> n < length (sb_path (sbs ! j)) \<and>
      (\<forall>m < length sbs. prefix (sb_path (sbs ! m)) p \<longrightarrow> length (sb_path (sbs ! m)) \<le> length (sb_path (sbs ! j))
         \<and> (length (sb_path (sbs ! m)) = length (sb_path (sbs ! j)) \<longrightarrow> j \<le> m)))"
proof (induction sbs arbitrary: i n r)
  case Nil
  then show ?case by simp
next
  case (Cons sb sbs)
  show ?case
  proof (cases "prefix (sb_path sb) p \<and> n < length (sb_path sb)")
    case True
    with Cons.prems have "superblock_loop p sbs (i + 1) (length (sb_path sb)) (Some i) = Some k"
      by (simp add: take_eq_prefix)
    from Cons.IH [OF this] show ?thesis
    proof (elim disjE exE conjE)
      assume "Some k = Some i" and le: "\<forall>sb' \<in> set sbs. prefix (sb_path sb') p \<longrightarrow> length (sb_path sb') \<le> length (sb_path sb)"
      then show ?thesis using True by (intro disjI2 exI [of _ 0]) (auto simp: nth_Cons split: nat.split)
    next
      fix j
      assume "j < length sbs" "k = i + 1 + j" "prefix (sb_path (sbs ! j)) p" "length (sb_path sb) < length (sb_path (sbs ! j))"
        "\<forall>m<length sbs. prefix (sb_path (sbs ! m)) p \<longrightarrow> length (sb_path (sbs ! m)) \<le> length (sb_path (sbs ! j))
           \<and> (length (sb_path (sbs ! m)) = length (sb_path (sbs ! j)) \<longrightarrow> j \<le> m)"
      then show ?thesis using True by (intro disjI2 exI [of _ "Suc j"]) (auto simp: nth_Cons split: nat.split)
    qed
  next
    case False
    with Cons.prems have "superblock_loop p sbs (i + 1) n r = Some k"
      by (auto simp: take_eq_prefix)
    from Cons.IH [OF this] show ?thesis
    proof (elim disjE exE conjE)
      assume "Some k = r" and "\<forall>sb' \<in> set sbs. prefix (sb_path sb') p \<longrightarrow> length (sb_path sb') \<le> n"
      then show ?thesis using False by auto
    next
      fix j
      assume "j < length sbs" "k = i + 1 + j" "prefix (sb_path (sbs ! j)) p" "n < length (sb_path (sbs ! j))"
        "\<forall>m<length sbs. prefix (sb_path (sbs ! m)) p \<longrightarrow> length (sb_path (sbs ! m)) \<le> length (sb_path (sbs ! j))
           \<and> (length (sb_path (sbs ! m)) = length (sb_path (sbs ! j)) \<longrightarrow> j \<le> m)"
      then show ?thesis using False by (intro disjI2 exI [of _ "Suc j"]) (auto simp: nth_Cons split: nat.split)
    qed
  qed
qed

lemma superblock_loop_NoneD:
  "superblock_loop p sbs i n r = None \<Longrightarrow> r = None \<and> (\<forall>sb \<in> set sbs. prefix (sb_path sb) p \<longrightarrow> length (sb_path sb) \<le> n)"
  by (induction p sbs i n r rule: superblock_loop.induct) (fastforce simp: take_eq_prefix Let_def split: if_splits)+

text \<open>C7. The file system of a path is the mounted one with the longest path that is a prefix of the path, the one mounted last
  among those mounted on the same path; there is none only when no mounted path, the empty one apart, is a prefix. The prefix
  is one of characters and not of components: with one file system mounted on a path, the same path followed by any further
  characters belongs to it too.\<close>

theorem vfs_get_superblock_longest:
  shows "(case vfs_get_superblock V p of
       None \<Rightarrow> \<forall>sb \<in> set (v_super_blocks V). sb_path sb = [] \<or> \<not> prefix (sb_path sb) p
     | Some i \<Rightarrow> i < length (v_super_blocks V) \<and> prefix (sb_path (v_super_blocks V ! i)) p \<and>
         (\<forall>m < length (v_super_blocks V). prefix (sb_path (v_super_blocks V ! m)) p \<longrightarrow>
            length (sb_path (v_super_blocks V ! m)) \<le> length (sb_path (v_super_blocks V ! i))
            \<and> (sb_path (v_super_blocks V ! m) = sb_path (v_super_blocks V ! i) \<longrightarrow> i \<le> m)))
   \<and> (v_super_blocks V = [sb] \<longrightarrow> sb_path sb \<noteq> [] \<longrightarrow> vfs_get_superblock V (sb_path sb @ rest) = Some 0)"
proof (intro conjI impI)
  show "case vfs_get_superblock V p of
       None \<Rightarrow> \<forall>sb \<in> set (v_super_blocks V). sb_path sb = [] \<or> \<not> prefix (sb_path sb) p
     | Some i \<Rightarrow> i < length (v_super_blocks V) \<and> prefix (sb_path (v_super_blocks V ! i)) p \<and>
         (\<forall>m < length (v_super_blocks V). prefix (sb_path (v_super_blocks V ! m)) p \<longrightarrow>
            length (sb_path (v_super_blocks V ! m)) \<le> length (sb_path (v_super_blocks V ! i))
            \<and> (sb_path (v_super_blocks V ! m) = sb_path (v_super_blocks V ! i) \<longrightarrow> i \<le> m))"
  proof (cases "vfs_get_superblock V p")
    case None
    from superblock_loop_NoneD [OF this [unfolded vfs_get_superblock_def]] None show ?thesis by auto
  next
    case (Some i)
    from superblock_loop_SomeD [OF this [unfolded vfs_get_superblock_def]] Some show ?thesis by auto
  qed
qed (simp add: vfs_get_superblock_def)

definition root_and_proc :: "unit vfs" where
  "root_and_proc = \<lparr>v_filesystems = hashmap_create vfs_filesystems_max fs_name_hash (=) hashmap_do_not_duplicate,
     v_super_blocks = [\<lparr>sb_name = ''proc'', sb_path = ''/proc'', sb_root = 8, sb_type = 16\<rparr>,
                       \<lparr>sb_name = ''ext2'', sb_path = ''/'', sb_root = 24, sb_type = 32\<rparr>],
     v_spinlock = False, v_files = Map.empty, v_errno = 0, v_kmalloc = [], v_cwd = ''/'', v_time = 0, v_data = ()\<rparr>"

theorem vfs_get_superblock_longest_witness:
  "vfs_get_superblock root_and_proc ''/proc/video'' = Some 0 \<and> vfs_get_superblock root_and_proc ''/bin'' = Some 1 \<and>
   length (sb_path (v_super_blocks root_and_proc ! 1)) \<le> length (sb_path (v_super_blocks root_and_proc ! 0)) \<and>
   vfs_get_superblock (root_and_proc\<lparr>v_super_blocks := [\<lparr>sb_name = ''proc'', sb_path = ''/proc'', sb_root = 8, sb_type = 16\<rparr>]\<rparr>)
     ''/proc2'' = Some 0"
proof -
  have 1: "vfs_get_superblock root_and_proc ''/proc/video'' = Some 0"
    and 2: "vfs_get_superblock root_and_proc ''/bin'' = Some 1"
    by (simp_all add: vfs_get_superblock_def root_and_proc_def Let_def)
  have 3: "length (sb_path (v_super_blocks root_and_proc ! 1)) \<le> length (sb_path (v_super_blocks root_and_proc ! 0))"
    using vfs_get_superblock_longest [of root_and_proc "''/proc/video''"] 1
    by (auto simp: root_and_proc_def dest: spec [where x = 1])
  have 4: "vfs_get_superblock (root_and_proc\<lparr>v_super_blocks := [\<lparr>sb_name = ''proc'', sb_path = ''/proc'', sb_root = 8, sb_type = 16\<rparr>]\<rparr>)
     ''/proc2'' = Some 0"
    using vfs_get_superblock_longest [of "root_and_proc\<lparr>v_super_blocks := [\<lparr>sb_name = ''proc'', sb_path = ''/proc'', sb_root = 8, sb_type = 16\<rparr>]\<rparr>" "[]"
      "\<lparr>sb_name = ''proc'', sb_path = ''/proc'', sb_root = 8, sb_type = 16\<rparr>" "''2''"] by simp
  from 1 2 3 4 show ?thesis by simp
qed

section \<open>Counts of open files\<close>

text \<open>The state with \<open>f a\<close> added to the count of every file \<open>a\<close>, and how often a file occurs in a list of descriptors.\<close>

definition bump :: "'d vfs \<Rightarrow> (addr \<Rightarrow> int) \<Rightarrow> 'd vfs" where
  "bump V f = V\<lparr>v_files := \<lambda>a. map_option (\<lambda>x. x\<lparr>vf_count := vf_count x + f a\<rparr>) (v_files V a)\<rparr>"

definition uses :: "vfs_file_descriptor_t list \<Rightarrow> addr \<Rightarrow> int" where
  "uses ds a = int (length (filter (\<lambda>d. file_struct d = a \<and> a \<noteq> NULL) ds))"

definition all_open :: "'d vfs \<Rightarrow> vfs_file_descriptor_t list \<Rightarrow> bool" where
  "all_open V ds \<longleftrightarrow> (\<forall>d \<in> set ds. file_struct d \<noteq> NULL \<longrightarrow> (\<exists>x. v_files V (file_struct d) = Some x \<and> 0 < vf_count x))"

lemma bump_0 [simp]: "bump V (\<lambda>a. 0) = V"
  by (simp add: bump_def map_option.id [unfolded id_def])

lemma get_file_bump:
  "get_file (bump V f) a = map_option (\<lambda>x. x\<lparr>vf_count := vf_count x + f a\<rparr>) (get_file V a)"
  by (simp add: get_file_def bump_def)

lemma upd_file_bump:
  assumes "v_files V a = Some x" and "a \<noteq> NULL"
  shows "upd_file (bump V f) a (\<lambda>x. x\<lparr>vf_count := vf_count x + c\<rparr>) = Some (bump V (\<lambda>b. f b + (if b = a then c else 0)))"
  using assms by (auto simp: upd_file_def get_file_def bump_def fun_eq_iff add.assoc intro!: vfs.fold_congs)

lemma uses_Cons:
  "uses (d # ds) a = (if file_struct d = a \<and> a \<noteq> NULL then 1 else 0) + uses ds a"
  by (simp add: uses_def)

lemma uses_nonneg [simp]: "0 \<le> uses ds a"
  by (simp add: uses_def)

lemma dup_counts_bump:
  "all_open V ds \<Longrightarrow> dup_counts (bump V f) ds = Some (bump V (\<lambda>a. f a + uses ds a))"
proof (induction ds arbitrary: f)
  case Nil
  then show ?case by (simp add: uses_def)
next
  case (Cons d ds)
  then have IH: "dup_counts (bump V g) ds = Some (bump V (\<lambda>a. g a + uses ds a))" for g by (simp add: all_open_def)
  show ?case
  proof (cases "file_struct d = NULL")
    case True
    then show ?thesis using IH [of f] by (auto simp: uses_Cons intro!: arg_cong [where f = "bump V"])
  next
    case False
    with Cons.prems obtain x where "v_files V (file_struct d) = Some x" by (auto simp: all_open_def)
    from upd_file_bump [OF this False, of f 1] False show ?thesis
      by (auto simp: IH uses_Cons fun_eq_iff intro!: arg_cong [where f = "bump V"])
  qed
qed

lemma drop_counts_bump:
  "all_open V ds \<Longrightarrow> (\<And>a. 0 \<le> f a) \<Longrightarrow> drop_counts E (bump V (\<lambda>a. f a + uses ds a)) ds = Some (bump V f)"
proof (induction ds)
  case Nil
  then show ?case by (simp add: uses_def)
next
  case (Cons d ds)
  then have IH: "drop_counts E (bump V (\<lambda>a. f a + uses ds a)) ds = Some (bump V f)" by (simp add: all_open_def)
  show ?case
  proof (cases "file_struct d = NULL")
    case True
    then have "(\<lambda>a. f a + uses (d # ds) a) = (\<lambda>a. f a + uses ds a)" by (auto simp: uses_Cons)
    then show ?thesis using IH True by simp
  next
    case False
    with Cons.prems obtain x where x: "v_files V (file_struct d) = Some x" "0 < vf_count x" by (auto simp: all_open_def)
    have eq: "(\<lambda>b. f b + uses (d # ds) b + (if b = file_struct d then - 1 else 0)) = (\<lambda>a. f a + uses ds a)"
      using False by (auto simp: uses_Cons)
    have u: "upd_file (bump V (\<lambda>a. f a + uses (d # ds) a)) (file_struct d) (\<lambda>x. x\<lparr>vf_count := vf_count x - 1\<rparr>)
        = Some (bump V (\<lambda>a. f a + uses ds a))"
      using upd_file_bump [OF x(1) False, of "\<lambda>a. f a + uses (d # ds) a" "- 1"] by (simp add: eq)
    have "get_file V (file_struct d) = Some x" using x False by (simp add: get_file_def)
    then have g: "get_file (bump V (\<lambda>a. f a + uses ds a)) (file_struct d)
        = Some (x\<lparr>vf_count := vf_count x + (f (file_struct d) + uses ds (file_struct d))\<rparr>)"
      by (simp add: get_file_bump)
    have "0 < vf_count x + (f (file_struct d) + uses ds (file_struct d))"
      using x(2) Cons.prems(2) [of "file_struct d"] uses_nonneg [of ds "file_struct d"] by linarith
    then show ?thesis using False u g IH by simp
  qed
qed

text \<open>C35. Descriptors are shared by a fork: when every file in the table of a process is open, \<^verbatim>\<open>vfs_dup_task\<close> gives the child
  the same table and counts every occurrence of a file. Closing any of these files in one of the two processes then only takes
  one off its count. \<^verbatim>\<open>vfs_destroy_task\<close> of the child closes no file either, and every file is as it was before the fork.\<close>

theorem vfs_dup_destroy_task:
  assumes o: "all_open V ds" and t: "fd_list t = Some ds" "max_fd t = int (length ds)" and k: "v_kmalloc V = a # as" "a \<noteq> NULL"
  shows "\<exists>V1. vfs_dup_task 0 V t = Some (1, t, V1)
    \<and> (\<forall>d \<in> set ds. \<forall>x. v_files V (file_struct d) = Some x \<and> file_struct d \<noteq> NULL \<longrightarrow>
          v_files V1 (file_struct d) = Some (x\<lparr>vf_count := vf_count x + uses ds (file_struct d)\<rparr>)
          \<and> vfs_close E V1 (file_struct d)
            = Some (0, V1\<lparr>v_files := (v_files V1)(file_struct d \<mapsto> x\<lparr>vf_count := vf_count x + uses ds (file_struct d) - 1\<rparr>)\<rparr>))
    \<and> vfs_destroy_task E 0 V1 t = Some (1, \<lparr>fd_list = None, max_fd = 0\<rparr>, V\<lparr>v_kmalloc := as\<rparr>)"
proof -
  define W where "W = V\<lparr>v_kmalloc := as\<rparr>"
  define V1 where "V1 = bump W (uses ds)"
  have o': "all_open W ds" using o by (simp add: all_open_def W_def)
  have "dup_counts W ds = Some V1" using dup_counts_bump [OF o', of "\<lambda>a. 0"] by (simp add: V1_def)
  then have 1: "vfs_dup_task 0 V t = Some (1, t, V1)"
    using t k by (simp add: vfs_dup_task_def kmalloc_next_def W_def)
  have 2: "v_files V1 (file_struct d) = Some (x\<lparr>vf_count := vf_count x + uses ds (file_struct d)\<rparr>)
      \<and> vfs_close E V1 (file_struct d)
        = Some (0, V1\<lparr>v_files := (v_files V1)(file_struct d \<mapsto> x\<lparr>vf_count := vf_count x + uses ds (file_struct d) - 1\<rparr>)\<rparr>)"
    if d: "d \<in> set ds" and x: "v_files V (file_struct d) = Some x" "file_struct d \<noteq> NULL" for d x
  proof -
    have "1 \<le> uses ds (file_struct d)" using d x(2) by (auto simp: uses_def Suc_le_eq filter_empty_conv)
    moreover have "0 < vf_count x" using o d x by (auto simp: all_open_def)
    moreover have v: "v_files V1 (file_struct d) = Some (x\<lparr>vf_count := vf_count x + uses ds (file_struct d)\<rparr>)"
      using x by (simp add: V1_def W_def bump_def)
    ultimately show ?thesis using x(2) by (simp add: vfs_close_def get_file_def upd_file_def)
  qed
  have "drop_counts E V1 ds = Some W" using drop_counts_bump [OF o', of "\<lambda>a. 0"] by (simp add: V1_def)
  then have "vfs_destroy_task E 0 V1 t = Some (1, \<lparr>fd_list = None, max_fd = 0\<rparr>, W)"
    using t by (simp add: vfs_destroy_task_def)
  with 1 2 show ?thesis unfolding W_def by blast
qed

definition tty_file :: vfs_file_t where
  "tty_file = \<lparr>vf_name = ''tty'', vf_device = 0, vf_mask = 0, vf_uid = 0, vf_gid = 0, vf_flags = 0, vf_ino = 1, vf_length = 0,
     vf_impl = 0, vf_open_flags = 0, vf_count = 2, vf_atime = 0, vf_mtime = 0, vf_ctime = 0, vf_sys_operations = 0,
     vf_fs_operations = 0, vf_f_pos = 0, vf_nlink = 0, vf_refcount = 0\<rparr>"

theorem vfs_dup_destroy_task_witness:
  "\<exists>V1. vfs_dup_task 0 (root_and_proc\<lparr>v_files := [8 \<mapsto> tty_file], v_kmalloc := [64]\<rparr>)
      \<lparr>fd_list = Some [\<lparr>file_struct = 8, flags_mask = 0\<rparr>, no_fd, \<lparr>file_struct = 8, flags_mask = 0\<rparr>], max_fd = 3\<rparr>
    = Some (1, \<lparr>fd_list = Some [\<lparr>file_struct = 8, flags_mask = 0\<rparr>, no_fd, \<lparr>file_struct = 8, flags_mask = 0\<rparr>], max_fd = 3\<rparr>, V1)
    \<and> v_files V1 8 = Some (tty_file\<lparr>vf_count := 4\<rparr>)"
  using vfs_dup_destroy_task [of "root_and_proc\<lparr>v_files := [8 \<mapsto> tty_file], v_kmalloc := [64]\<rparr>"
    "[\<lparr>file_struct = 8, flags_mask = 0\<rparr>, no_fd, \<lparr>file_struct = 8, flags_mask = 0\<rparr>]"
    "\<lparr>fd_list = Some [\<lparr>file_struct = 8, flags_mask = 0\<rparr>, no_fd, \<lparr>file_struct = 8, flags_mask = 0\<rparr>], max_fd = 3\<rparr>" 64 "[]"]
  by (auto simp: all_open_def no_fd_def tty_file_def uses_def)

end
