(* ===== verification/Procfs.thy ===== *)
theory Procfs
  imports Vfs
begin

text \<open>
  The process file system: \<^verbatim>\<open>src/kernel/fs/procfs.c\<close> and \<^verbatim>\<open>include/kernel/fs/procfs.h\<close>, a file system in memory. Its data are
  the files by address and the list that links them; the files that are open on an entry are the list \<open>pf_files\<close> of their
  addresses. The operations of the entries themselves are function pointers again, looked up in the same \<open>ops_env\<close>.

  The functions have the types of the tables of \<open>Vfs\<close>; \<open>procfs_sys_operations\<close> and \<open>procfs_fs_operations\<close> are the two tables.
\<close>

section \<open>Data\<close>

definition PROCFS_NAME_MAX :: nat where "PROCFS_NAME_MAX = 255"
definition PROCFS_MAX_FILES :: int where "PROCFS_MAX_FILES = 1024"
definition PROCFS_MAGIC_NUMBER :: int where "PROCFS_MAGIC_NUMBER = 0xBF"

record proc_dir_entry_t =
  de_sys_operations :: addr
  de_fs_operations :: addr
  de_data :: addr
  de_name :: string

record procfs_file_t =
  pf_magic :: int
  pf_inode :: int
  pf_flags :: u32
  pf_mask :: u32
  pf_name :: string
  pf_uid :: u32
  pf_gid :: u32
  pf_atime :: u32
  pf_mtime :: u32
  pf_ctime :: u32
  pf_dir_entry :: proc_dir_entry_t
  pf_files :: "addr list"

record procfs_t =
  nfiles :: u32
  p_list :: "addr list"
  p_files :: "addr \<rightharpoonup> procfs_file_t"

type_synonym pfs = "procfs_t vfs"

definition get_pf :: "pfs \<Rightarrow> addr \<Rightarrow> procfs_file_t option" where
  "get_pf V a = (if a = NULL then None else p_files (v_data V) a)"

definition upd_pf :: "pfs \<Rightarrow> addr \<Rightarrow> (procfs_file_t \<Rightarrow> procfs_file_t) \<Rightarrow> pfs option" where
  "upd_pf V a f = do {
     x \<leftarrow> get_pf V a;
     Some (V\<lparr>v_data := (v_data V)\<lparr>p_files := (p_files (v_data V))(a \<mapsto> f x)\<rparr>\<rparr>)
   }"

section \<open>Finding files\<close>

definition procfs_check_file :: "procfs_file_t \<Rightarrow> bool" where
  "procfs_check_file f \<longleftrightarrow> pf_magic f = PROCFS_MAGIC_NUMBER"

text \<open>The first file of the list that is valid and has the property; the null pointer when there is none.\<close>

fun procfs_find :: "pfs \<Rightarrow> (procfs_file_t \<Rightarrow> bool) \<Rightarrow> addr list \<Rightarrow> addr option" where
  "procfs_find V P [] = Some NULL"
| "procfs_find V P (a # as) = do {
     f \<leftarrow> get_pf V a;
     if procfs_check_file f \<and> P f then Some a else procfs_find V P as
   }"

definition procfs_find_entry_path :: "pfs \<Rightarrow> string \<Rightarrow> addr option" where
  "procfs_find_entry_path V path = procfs_find V (\<lambda>f. pf_name f = path) (p_list (v_data V))"

definition procfs_find_entry_inode :: "pfs \<Rightarrow> int \<Rightarrow> addr option" where
  "procfs_find_entry_inode V inode = procfs_find V (\<lambda>f. pf_inode f = inode) (p_list (v_data V))"

definition procfs_find_inode :: "pfs \<Rightarrow> string \<Rightarrow> int option" where
  "procfs_find_inode V path = do {
     a \<leftarrow> procfs_find_entry_path V path;
     if a \<noteq> NULL then map_option pf_inode (get_pf V a) else Some (- 1)
   }"

fun free_inode_loop :: "pfs \<Rightarrow> int list \<Rightarrow> int option" where
  "free_inode_loop V [] = Some (- 1)"
| "free_inode_loop V (inode # is) = do {
     a \<leftarrow> procfs_find_entry_inode V inode;
     if a = NULL then Some inode else free_inode_loop V is
   }"

definition procfs_get_free_inode :: "pfs \<Rightarrow> int option" where
  "procfs_get_free_inode V = free_inode_loop V [1..PROCFS_MAX_FILES - 1]"

text \<open>1 when some other file has the directory as its directory.\<close>

fun check_if_empty_loop :: "pfs \<Rightarrow> string \<Rightarrow> addr list \<Rightarrow> int option" where
  "check_if_empty_loop V path [] = Some 0"
| "check_if_empty_loop V path (a # as) = do {
     f \<leftarrow> get_pf V a;
     if procfs_check_file f \<and> path \<noteq> pf_name f then do {
       filedir \<leftarrow> dirname (Some (pf_name f));
       if path = filedir then Some 1 else check_if_empty_loop V path as
     }
     else check_if_empty_loop V path as
   }"

definition procfs_check_if_empty :: "pfs \<Rightarrow> string \<Rightarrow> int option" where
  "procfs_check_if_empty V path = check_if_empty_loop V path (p_list (v_data V))"

section \<open>Creating and removing files\<close>

definition procfs_create_file :: "pfs \<Rightarrow> string \<Rightarrow> u32 \<Rightarrow> (addr \<times> pfs) option" where
  "procfs_create_file V path flags = do {
     (a, V) \<leftarrow> kmalloc_next V;
     if a = NULL then Some (NULL, V)
     else do {
       inode \<leftarrow> procfs_get_free_inode V;
       c_assert (length path < PROCFS_NAME_MAX);
       let f = \<lparr>pf_magic = PROCFS_MAGIC_NUMBER, pf_inode = inode, pf_flags = flags, pf_mask = 0, pf_name = path,
                pf_uid = 0, pf_gid = 0, pf_atime = v_time V, pf_mtime = v_time V, pf_ctime = v_time V,
                pf_dir_entry = \<lparr>de_sys_operations = NULL, de_fs_operations = NULL, de_data = NULL, de_name = basename path\<rparr>,
                pf_files = []\<rparr>;
       let D = v_data V;
       Some (a, V\<lparr>v_data := \<lparr>nfiles = nfiles D + 1, p_list = p_list D @ [a], p_files = (p_files D)(a \<mapsto> f)\<rparr>\<rparr>)
     }
   }"

definition procfs_destroy_file :: "pfs \<Rightarrow> addr \<Rightarrow> (int \<times> pfs) option" where
  "procfs_destroy_file V a =
     (if a = NULL then Some (1, V)
      else do {
        _ \<leftarrow> get_pf V a;
        let D = v_data V;
        Some (0, V\<lparr>v_data := \<lparr>nfiles = nfiles D - 1, p_list = remove1 a (p_list D), p_files = (p_files D)(a := None)\<rparr>\<rparr>)
      })"

text \<open>
  Where the linker places the two tables of operations and the type of this file system: a parameter of the functions that
  store these addresses. The member \<open>device\<close> of a file points to the \<open>dir_entry\<close> inside the procfs file and is represented by
  the address of the latter.
\<close>

record procfs_symbols =
  sym_sys_operations :: addr
  sym_fs_operations :: addr
  sym_file_system_type :: addr

definition procfs_create_file_struct :: "procfs_symbols \<Rightarrow> pfs \<Rightarrow> addr \<Rightarrow> (addr \<times> pfs) option" where
  "procfs_create_file_struct L V pf =
     (if pf = NULL then Some (NULL, V)
      else do {
        (a, V) \<leftarrow> kmalloc_next V;
        if a = NULL then Some (NULL, V)
        else do {
          f \<leftarrow> get_pf V pf;
          let x = \<lparr>vf_name = pf_name f, vf_device = pf, vf_mask = S_IRUSR OR S_IRGRP OR S_IROTH, vf_uid = 0, vf_gid = 0,
                   vf_flags = pf_flags f, vf_ino = word_of_int (pf_inode f), vf_length = 0, vf_impl = 0, vf_open_flags = 0,
                   vf_count = 0, vf_atime = 0, vf_mtime = 0, vf_ctime = 0, vf_sys_operations = sym_sys_operations L,
                   vf_fs_operations = sym_fs_operations L, vf_f_pos = 0, vf_nlink = 0, vf_refcount = 0\<rparr>;
          Some (a, V\<lparr>v_files := (v_files V)(a \<mapsto> x)\<rparr>)
        }
      })"

text \<open>Opening: the new structure is linked to the files of the entry.\<close>

definition link_file :: "pfs \<Rightarrow> addr \<Rightarrow> addr \<Rightarrow> pfs option" where
  "link_file V pf a = upd_pf V pf (\<lambda>f. f\<lparr>pf_files := pf_files f @ [a]\<rparr>)"

definition touch :: "pfs \<Rightarrow> addr \<Rightarrow> pfs option" where
  "touch V pf = upd_pf V pf (\<lambda>f. f\<lparr>pf_atime := v_time V\<rparr>)"

section \<open>Operations of the file system\<close>

text \<open>
  The test of the directory a path is in, common to \<^verbatim>\<open>procfs_mkdir\<close> and \<^verbatim>\<open>procfs_open\<close>: the error code, 0 for a directory that
  exists, for the root and for a path without one.
\<close>

definition parent_error :: "pfs \<Rightarrow> string \<Rightarrow> int option" where
  "parent_error V path = do {
     parent \<leftarrow> dirname (Some path);
     if parent \<noteq> ''.'' \<and> parent \<noteq> ''/'' then do {
       p \<leftarrow> procfs_find_entry_path V parent;
       if p = NULL then Some ENOENT
       else do {
         f \<leftarrow> get_pf V p;
         Some (if bitmask_check (pf_flags f) DT_DIR = 0 then ENOTDIR else 0)
       }
     }
     else Some 0
   }"

definition procfs_mkdir :: "string \<Rightarrow> u32 \<Rightarrow> pfs \<Rightarrow> (int \<times> pfs) option" where
  "procfs_mkdir path mode V =
     (if path = ''.'' \<or> path = ''..'' then Some (- EPERM, V)
      else do {
        a \<leftarrow> procfs_find_entry_path V path;
        if a \<noteq> NULL then Some (- EEXIST, V)
        else do {
          e \<leftarrow> parent_error V path;
          if e \<noteq> 0 then Some (- e, V)
          else do {
            (n, V) \<leftarrow> procfs_create_file V path DT_DIR;
            Some (if n = NULL then - ENFILE else 0, V)
          }
        }
      })"

definition procfs_rmdir :: "string \<Rightarrow> pfs \<Rightarrow> (int \<times> pfs) option" where
  "procfs_rmdir path V =
     (if path = ''.'' \<or> path = ''..'' then Some (- EPERM, V)
      else do {
        a \<leftarrow> procfs_find_entry_path V path;
        if a = NULL then Some (- ENOENT, V)
        else do {
          f \<leftarrow> get_pf V a;
          if pf_flags f AND DT_DIR = 0 then Some (- ENOTDIR, V)
          else if pf_files f \<noteq> [] then Some (- EBUSY, V)
          else do {
            n \<leftarrow> procfs_check_if_empty V (pf_name f);
            if n \<noteq> 0 then Some (- ENOTEMPTY, V)
            else do {
              (_, V) \<leftarrow> procfs_destroy_file V a;
              Some (0, V)
            }
          }
        }
      })"

text \<open>Opening an entry that exists, and creating the one that does not.\<close>

definition open_existing :: "procfs_symbols \<Rightarrow> u32 \<Rightarrow> addr \<Rightarrow> pfs \<Rightarrow> (addr \<times> pfs) option" where
  "open_existing L flags pf V = do {
     f \<leftarrow> get_pf V pf;
     let dir = (bitmask_check (pf_flags f) DT_DIR \<noteq> 0);
     if bitmask_check flags (O_CREAT OR O_EXCL) \<noteq> 0 then Some (NULL, V\<lparr>v_errno := EEXIST\<rparr>)
     else if bitmask_check flags O_DIRECTORY \<noteq> 0 \<and> \<not> dir then Some (NULL, V\<lparr>v_errno := ENOTDIR\<rparr>)
     else if bitmask_check flags O_DIRECTORY \<noteq> 0 \<and> (bitmask_check flags O_RDWR \<noteq> 0 \<or> bitmask_check flags O_WRONLY \<noteq> 0)
     then Some (NULL, V\<lparr>v_errno := EISDIR\<rparr>)
     else if bitmask_check flags O_DIRECTORY = 0 \<and> dir then Some (NULL, V\<lparr>v_errno := EISDIR\<rparr>)
     else do {
       (a, V) \<leftarrow> procfs_create_file_struct L V pf;
       if a = NULL then Some (NULL, V\<lparr>v_errno := ENFILE\<rparr>)
       else do {
         V \<leftarrow> touch V pf;
         V \<leftarrow> link_file V pf a;
         Some (a, V)
       }
     }
   }"

definition open_new :: "procfs_symbols \<Rightarrow> string \<Rightarrow> pfs \<Rightarrow> (addr \<times> pfs) option" where
  "open_new L path V = do {
     (pf, V) \<leftarrow> procfs_create_file V path DT_REG;
     if pf = NULL then Some (NULL, V\<lparr>v_errno := ENFILE\<rparr>)
     else do {
       (a, V) \<leftarrow> procfs_create_file_struct L V pf;
       if a = NULL then Some (NULL, V\<lparr>v_errno := ENFILE\<rparr>)
       else do {
         V \<leftarrow> link_file V pf a;
         Some (a, V)
       }
     }
   }"

definition procfs_open :: "procfs_symbols \<Rightarrow> string \<Rightarrow> u32 \<Rightarrow> u32 \<Rightarrow> pfs \<Rightarrow> (addr \<times> pfs) option" where
  "procfs_open L path flags mode V = do {
     e \<leftarrow> parent_error V path;
     if e \<noteq> 0 then Some (NULL, V\<lparr>v_errno := e\<rparr>)
     else do {
       pf \<leftarrow> procfs_find_entry_path V path;
       if pf \<noteq> NULL then open_existing L flags pf V
       else if bitmask_check flags O_CREAT \<noteq> 0 then open_new L path V
       else Some (NULL, V\<lparr>v_errno := ENOENT\<rparr>)
     }
   }"

definition procfs_close :: "addr \<Rightarrow> pfs \<Rightarrow> (int \<times> pfs) option" where
  "procfs_close a V = do {
     c_assert (a \<noteq> NULL);
     _ \<leftarrow> get_file V a;
     let D = v_data V;
     Some (0, V\<lparr>v_files := (v_files V)(a := None),
                v_data := D\<lparr>p_files := \<lambda>x. map_option (\<lambda>f. f\<lparr>pf_files := remove1 a (pf_files f)\<rparr>) (p_files D x)\<rparr>\<rparr>)
   }"

definition procfs_unlink :: "string \<Rightarrow> pfs \<Rightarrow> (int \<times> pfs) option" where
  "procfs_unlink path V =
     (if path = ''.'' \<or> path = ''..'' then Some (- EPERM, V)
      else do {
        a \<leftarrow> procfs_find_entry_path V path;
        if a \<noteq> NULL then Some (- EEXIST, V)
        else do {
          f \<leftarrow> get_pf V a;
          if pf_flags f AND DT_REG = 0 then Some (if pf_flags f AND DT_DIR \<noteq> 0 then - EISDIR else - EACCES, V)
          else if pf_files f \<noteq> [] then Some (- EACCES, V)
          else do {
            (_, V) \<leftarrow> procfs_destroy_file V a;
            Some (0, V)
          }
        }
      })"

text \<open>The operations of the entry of an open file: found by the inode number of the file, none when it has no table.\<close>

definition entry_of :: "pfs \<Rightarrow> addr \<Rightarrow> addr option" where
  "entry_of V file = do { x \<leftarrow> get_file V file; procfs_find_entry_inode V (sint (vf_ino x)) }"

definition entry_ops :: "procfs_t ops_env \<Rightarrow> pfs \<Rightarrow> addr \<Rightarrow> procfs_t vfs_file_operations_t option option" where
  "entry_ops E V pf = do {
     f \<leftarrow> get_pf V pf;
     let p = de_fs_operations (pf_dir_entry f);
     if p = NULL then Some None else map_option Some (file_ops_at E p)
   }"

definition procfs_read :: "procfs_t ops_env \<Rightarrow> addr \<Rightarrow> u32 \<Rightarrow> u32 \<Rightarrow> pfs \<Rightarrow> (int \<times> u8 list \<times> pfs) option" where
  "procfs_read E file offset nbyte V =
     (if file = NULL then Some (- ENOSYS, [], V)
      else do {
        pf \<leftarrow> entry_of V file;
        if pf = NULL then Some (- ENOSYS, [], V)
        else do {
          t \<leftarrow> entry_ops E V pf;
          case Option.bind t read_f of None \<Rightarrow> Some (- ENOSYS, [], V) | Some r \<Rightarrow> r file offset nbyte V
        }
      })"

definition procfs_write :: "procfs_t ops_env \<Rightarrow> addr \<Rightarrow> u8 list \<Rightarrow> u32 \<Rightarrow> u32 \<Rightarrow> pfs \<Rightarrow> (int \<times> pfs) option" where
  "procfs_write E file buf offset nbyte V =
     (if file = NULL then Some (- ENOSYS, V)
      else do {
        pf \<leftarrow> entry_of V file;
        if pf = NULL then Some (- ENOSYS, V)
        else do {
          t \<leftarrow> entry_ops E V pf;
          case Option.bind t write_f of None \<Rightarrow> Some (- ENOSYS, V) | Some w \<Rightarrow> w file buf offset nbyte V
        }
      })"

definition procfs_lseek :: "procfs_t ops_env \<Rightarrow> addr \<Rightarrow> int \<Rightarrow> int \<Rightarrow> pfs \<Rightarrow> (int \<times> pfs) option" where
  "procfs_lseek E file offset whence V =
     (if file = NULL then Some (- ENOSYS, V)
      else do {
        pf \<leftarrow> entry_of V file;
        if pf = NULL then Some (- ENOSYS, V)
        else do {
          t \<leftarrow> entry_ops E V pf;
          case Option.bind t lseek_f of None \<Rightarrow> Some (- EINVAL, V) | Some s \<Rightarrow> s file offset whence V
        }
      })"

definition procfs_stat_entry :: "procfs_file_t \<Rightarrow> stat_t \<Rightarrow> stat_t" where
  "procfs_stat_entry f s = s\<lparr>st_uid := pf_uid f, st_gid := pf_gid f, st_dev := 0, st_ino := word_of_int (pf_inode f),
     st_mode := pf_flags f, st_size := 0, st_atime := pf_atime f, st_mtime := pf_mtime f, st_ctime := pf_ctime f\<rparr>"

definition procfs_fstat :: "procfs_t ops_env \<Rightarrow> addr \<Rightarrow> stat_t \<Rightarrow> pfs \<Rightarrow> (int \<times> stat_t \<times> pfs) option" where
  "procfs_fstat E file s V =
     (if file = NULL then Some (- ENOSYS, s, V)
      else do {
        pf \<leftarrow> entry_of V file;
        if pf = NULL then Some (- ENOSYS, s, V)
        else do {
          t \<leftarrow> entry_ops E V pf;
          f \<leftarrow> get_pf V pf;
          case Option.bind t fstat_f of None \<Rightarrow> Some (0, procfs_stat_entry f s, V) | Some g \<Rightarrow> g file s V
        }
      })"

definition procfs_stat :: "procfs_t ops_env \<Rightarrow> string \<Rightarrow> stat_t \<Rightarrow> pfs \<Rightarrow> (int \<times> stat_t \<times> pfs) option" where
  "procfs_stat E path s V = do {
     pf \<leftarrow> procfs_find_entry_path V path;
     if pf = NULL then Some (- 1, s, V)
     else do {
       f \<leftarrow> get_pf V pf;
       let p = de_sys_operations (pf_dir_entry f);
       t \<leftarrow> (if p = NULL then Some None else map_option Some (sys_ops_at E p));
       case Option.bind t stat_f of None \<Rightarrow> Some (0, procfs_stat_entry f s, V) | Some g \<Rightarrow> g path s V
     }
   }"

definition procfs_ioctl :: "procfs_t ops_env \<Rightarrow> addr \<Rightarrow> int \<Rightarrow> addr \<Rightarrow> pfs \<Rightarrow> (int \<times> pfs) option" where
  "procfs_ioctl E file request data V =
     (if file = NULL then Some (- 1, V)
      else do {
        pf \<leftarrow> entry_of V file;
        if pf = NULL then Some (- 1, V)
        else do {
          t \<leftarrow> entry_ops E V pf;
          case Option.bind t ioctl_f of None \<Rightarrow> Some (- 1, V) | Some g \<Rightarrow> g file request data V
        }
      })"

text \<open>
  Listing a directory. \<open>len\<close> is the length of the name of the directory, one more from the first entry on whose name has a
  slash there; \<open>current\<close> counts the entries seen. The loop tests the room in the buffer after an entry is written. A position
  behind the end of a name reads the zero bytes of the array, as \<open>drop\<close> does.
\<close>

definition sizeof_dirent_t :: u32 where "sizeof_dirent_t = 268"

definition char_at :: "string \<Rightarrow> nat \<Rightarrow> char" where
  "char_at s n = (if n < length s then s ! n else NUL_CHR)"

fun getdents_loop ::
  "pfs \<Rightarrow> string \<Rightarrow> u32 \<Rightarrow> u32 \<Rightarrow> addr list \<Rightarrow> nat \<Rightarrow> u32 \<Rightarrow> int \<Rightarrow> dirent_t list \<Rightarrow> (u32 \<times> dirent_t list) option" where
  "getdents_loop V dir doff count [] len written current out = Some (written, out)"
| "getdents_loop V dir doff count (a # as) len written current out = do {
     f \<leftarrow> get_pf V a;
     if \<not> procfs_check_file f \<or> dir = pf_name f then getdents_loop V dir doff count as len written current out
     else do {
       parent \<leftarrow> dirname (Some (pf_name f));
       if dir \<noteq> parent then getdents_loop V dir doff count as len written current out
       else if current < sint doff then getdents_loop V dir doff count as len written (current + 1) out
       else do {
         let len = (if char_at (pf_name f) len = slash then len + 1 else len);
         let d = \<lparr>d_ino = word_of_int (pf_inode f), d_off = sizeof_dirent_t, d_reclen = ucast sizeof_dirent_t,
                  d_type = ucast (pf_flags f), d_name = drop len (pf_name f)\<rparr>;
         let written = written + sizeof_dirent_t;
         if count \<le> written then Some (written, out @ [d])
         else getdents_loop V dir doff count as len written (current + 1) (out @ [d])
       }
     }
   }"

definition procfs_getdents :: "addr \<Rightarrow> u32 \<Rightarrow> u32 \<Rightarrow> pfs \<Rightarrow> (int \<times> dirent_t list \<times> pfs) option" where
  "procfs_getdents file doff count V =
     (if file = NULL then Some (- 1, [], V)
      else do {
        pf \<leftarrow> entry_of V file;
        if pf = NULL then Some (- ENOENT, [], V)
        else do {
          f \<leftarrow> get_pf V pf;
          if pf_flags f AND DT_DIR = 0 then Some (- ENOTDIR, [], V)
          else do {
            (written, out) \<leftarrow> getdents_loop V (pf_name f) doff count (p_list (v_data V)) (length (pf_name f)) 0 0 [];
            Some (sint written, out, V)
          }
        }
      })"

section \<open>The tables, mounting and initialisation\<close>

definition procfs_sys_operations :: "procfs_t ops_env \<Rightarrow> procfs_t vfs_sys_operations_t" where
  "procfs_sys_operations E =
     \<lparr>mkdir_f = Some procfs_mkdir, rmdir_f = Some procfs_rmdir, stat_f = Some (procfs_stat E), creat_f = None\<rparr>"

definition procfs_fs_operations :: "procfs_symbols \<Rightarrow> procfs_t ops_env \<Rightarrow> procfs_t vfs_file_operations_t" where
  "procfs_fs_operations L E =
     \<lparr>open_f = Some (procfs_open L), unlink_f = Some procfs_unlink, close_f = Some procfs_close,
      read_f = Some (procfs_read E), write_f = Some (procfs_write E), lseek_f = Some (procfs_lseek E),
      fstat_f = Some (procfs_fstat E), ioctl_f = Some (procfs_ioctl E), getdents_f = Some procfs_getdents\<rparr>"

definition procfs_mount_callback :: "procfs_symbols \<Rightarrow> string \<Rightarrow> string \<Rightarrow> pfs \<Rightarrow> (addr \<times> pfs) option" where
  "procfs_mount_callback L path device V = do {
     (pf, V) \<leftarrow> procfs_create_file V path DT_DIR;
     c_assert (pf \<noteq> NULL);
     (a, V) \<leftarrow> procfs_create_file_struct L V pf;
     c_assert (a \<noteq> NULL);
     V \<leftarrow> link_file V pf a;
     Some (a, V)
   }"

definition procfs_file_system_type :: "procfs_symbols \<Rightarrow> procfs_t file_system_type" where
  "procfs_file_system_type L = \<lparr>fst_name = ''procfs'', fst_flags = 0, fst_mount = Some (procfs_mount_callback L)\<rparr>"

definition procfs_init :: "procfs_t ops_env \<Rightarrow> procfs_symbols \<Rightarrow> pfs \<Rightarrow> (int \<times> pfs) option" where
  "procfs_init E L V = do {
     (_, V) \<leftarrow> vfs_register_filesystem E (V\<lparr>v_data := (v_data V)\<lparr>nfiles := 0, p_list := []\<rparr>\<rparr>) (sym_file_system_type L);
     Some (0, V)
   }"

definition procfs_cleanup :: "procfs_t ops_env \<Rightarrow> procfs_symbols \<Rightarrow> pfs \<Rightarrow> (int \<times> pfs) option" where
  "procfs_cleanup E L V = do {
     (_, V) \<leftarrow> vfs_unregister_filesystem E V (sym_file_system_type L);
     Some (0, V)
   }"

section \<open>The interface for the kernel\<close>

text \<open>A directory entry is represented by the address of its procfs file, the null pointer is no parent.\<close>

definition entry_path :: "pfs \<Rightarrow> string \<Rightarrow> addr \<Rightarrow> string option" where
  "entry_path V name parent = do {
     p \<leftarrow> (if parent = NULL then Some ''''
          else map_option (\<lambda>f. de_name (pf_dir_entry f) @ ''/'') (get_pf V parent));
     let path = ''/proc/'' @ p @ name;
     c_assert (length path < PATH_MAX);
     Some path
   }"

definition proc_dir_entry_get :: "string \<Rightarrow> addr \<Rightarrow> pfs \<Rightarrow> addr option" where
  "proc_dir_entry_get name parent V = do {
     path \<leftarrow> entry_path V name parent;
     procfs_find_entry_path V path
   }"

definition proc_new_entry :: "u32 \<Rightarrow> string \<Rightarrow> addr \<Rightarrow> pfs \<Rightarrow> (addr \<times> pfs) option" where
  "proc_new_entry type name parent V = do {
     path \<leftarrow> entry_path V name parent;
     a \<leftarrow> procfs_find_entry_path V path;
     if a \<noteq> NULL then Some (NULL, V\<lparr>v_errno := EEXIST\<rparr>)
     else do {
       (n, V) \<leftarrow> procfs_create_file V path type;
       if n = NULL then Some (NULL, V\<lparr>v_errno := ENFILE\<rparr>) else Some (n, V)
     }
   }"

definition proc_mkdir :: "string \<Rightarrow> addr \<Rightarrow> pfs \<Rightarrow> (addr \<times> pfs) option" where
  "proc_mkdir = proc_new_entry DT_DIR"

definition proc_create_entry :: "string \<Rightarrow> addr \<Rightarrow> pfs \<Rightarrow> (addr \<times> pfs) option" where
  "proc_create_entry = proc_new_entry DT_REG"

definition proc_rmdir :: "string \<Rightarrow> addr \<Rightarrow> pfs \<Rightarrow> (int \<times> pfs) option" where
  "proc_rmdir name parent V = do {
     path \<leftarrow> entry_path V name parent;
     a \<leftarrow> procfs_find_entry_path V path;
     if a = NULL then Some (- ENOENT, V)
     else do {
       f \<leftarrow> get_pf V a;
       if pf_flags f AND DT_DIR = 0 then Some (- ENOTDIR, V)
       else do {
         n \<leftarrow> procfs_check_if_empty V (pf_name f);
         if n \<noteq> 0 then Some (- ENOTEMPTY, V)
         else if pf_files f \<noteq> [] then Some (- EBUSY, V)
         else do {
           (r, V) \<leftarrow> procfs_destroy_file V a;
           Some (if r \<noteq> 0 then - ENOENT else 0, V)
         }
       }
     }
   }"

definition proc_destroy_entry :: "string \<Rightarrow> addr \<Rightarrow> pfs \<Rightarrow> (int \<times> pfs) option" where
  "proc_destroy_entry name parent V = do {
     path \<leftarrow> entry_path V name parent;
     a \<leftarrow> procfs_find_entry_path V path;
     if a = NULL then Some (- ENOENT, V)
     else do {
       f \<leftarrow> get_pf V a;
       if pf_flags f AND DT_REG = 0 then Some (- ENOENT, V)
       else if pf_files f \<noteq> [] then Some (- EBUSY, V)
       else do {
         (r, V) \<leftarrow> procfs_destroy_file V a;
         Some (if r \<noteq> 0 then - ENOENT else 0, V)
       }
     }
   }"

end
