(* ===== verification/Procfs_Props.thy ===== *)
theory Procfs_Props
  imports Procfs
begin

text \<open>
  Properties of the process file system: an invariant on its files and on the files open on them, kept by every operation that
  changes the state, creating and removing directories, and what removing files by path does.
\<close>

section \<open>Invariant\<close>

definition pf_at :: "procfs_t \<Rightarrow> addr \<Rightarrow> procfs_file_t" where
  "pf_at D a = the (p_files D a)"

text \<open>The list and the count agree, names are different and fit their array, inode numbers are different unless none was left.\<close>

definition procfs_inv :: "procfs_t \<Rightarrow> bool" where
  "procfs_inv D \<longleftrightarrow> distinct (p_list D) \<and> NULL \<notin> set (p_list D) \<and> nfiles D = of_nat (length (p_list D))
     \<and> (\<forall>a \<in> set (p_list D). p_files D a \<noteq> None \<and> procfs_check_file (pf_at D a) \<and> length (pf_name (pf_at D a)) < PROCFS_NAME_MAX
          \<and> (pf_inode (pf_at D a) = - 1 \<or> 1 \<le> pf_inode (pf_at D a) \<and> pf_inode (pf_at D a) < PROCFS_MAX_FILES))
     \<and> (\<forall>a \<in> set (p_list D). \<forall>b \<in> set (p_list D). a \<noteq> b \<longrightarrow> pf_name (pf_at D a) \<noteq> pf_name (pf_at D b)
          \<and> (pf_inode (pf_at D a) = pf_inode (pf_at D b) \<longrightarrow> pf_inode (pf_at D a) = - 1))"

text \<open>The files open on an entry exist and point back to it.\<close>

definition procfs_links :: "pfs \<Rightarrow> bool" where
  "procfs_links V \<longleftrightarrow> (\<forall>a \<in> set (p_list (v_data V)). distinct (pf_files (pf_at (v_data V) a))
     \<and> (\<forall>x \<in> set (pf_files (pf_at (v_data V) a)). x \<noteq> NULL \<and> (\<exists>y. v_files V x = Some y \<and> vf_device y = a)))"

text \<open>The addresses the allocator gives out next are the null pointer or not in use, and different from each other.\<close>

definition kmalloc_fresh :: "pfs \<Rightarrow> bool" where
  "kmalloc_fresh V \<longleftrightarrow> distinct (filter (\<lambda>a. a \<noteq> NULL) (v_kmalloc V))
     \<and> (\<forall>a \<in> set (v_kmalloc V). a \<noteq> NULL \<longrightarrow> v_files V a = None \<and> p_files (v_data V) a = None)"

definition procfs_ok :: "pfs \<Rightarrow> bool" where
  "procfs_ok V \<longleftrightarrow> procfs_inv (v_data V) \<and> procfs_links V \<and> kmalloc_fresh V"

lemmas procfs_ok_defs = procfs_ok_def procfs_inv_def procfs_links_def kmalloc_fresh_def

section \<open>Searches\<close>

lemma get_pf_listed:
  "procfs_inv (v_data V) \<Longrightarrow> a \<in> set (p_list (v_data V)) \<Longrightarrow> get_pf V a = Some (pf_at (v_data V) a) \<and> a \<noteq> NULL"
  by (auto simp: get_pf_def procfs_inv_def pf_at_def)

lemma procfs_find_listed:
  assumes "procfs_inv (v_data V)" and "set as \<subseteq> set (p_list (v_data V))"
  shows "\<exists>r. procfs_find V P as = Some r \<and> (r = NULL \<and> (\<forall>a \<in> set as. \<not> P (pf_at (v_data V) a))
    \<or> r \<noteq> NULL \<and> r \<in> set as \<and> P (pf_at (v_data V) r))"
  using assms(2)
proof (induction as)
  case (Cons a as)
  then have "get_pf V a = Some (pf_at (v_data V) a)" "a \<noteq> NULL" "procfs_check_file (pf_at (v_data V) a)"
    using assms(1) get_pf_listed [OF assms(1), of a] by (auto simp: procfs_inv_def)
  with Cons show ?case by auto
qed simp

lemma find_entry_path:
  assumes "procfs_inv (v_data V)"
  obtains "procfs_find_entry_path V path = Some NULL" "\<And>a. a \<in> set (p_list (v_data V)) \<Longrightarrow> pf_name (pf_at (v_data V) a) \<noteq> path"
  | r where "procfs_find_entry_path V path = Some r" "r \<noteq> NULL" "r \<in> set (p_list (v_data V))" "pf_name (pf_at (v_data V) r) = path"
  using procfs_find_listed [OF assms order_refl, of "\<lambda>f. pf_name f = path"] by (auto simp: procfs_find_entry_path_def)

lemma find_entry_inode:
  assumes "procfs_inv (v_data V)"
  obtains "procfs_find_entry_inode V i = Some NULL" "\<And>a. a \<in> set (p_list (v_data V)) \<Longrightarrow> pf_inode (pf_at (v_data V) a) \<noteq> i"
  | r where "procfs_find_entry_inode V i = Some r" "r \<noteq> NULL" "r \<in> set (p_list (v_data V))" "pf_inode (pf_at (v_data V) r) = i"
  using procfs_find_listed [OF assms order_refl, of "\<lambda>f. pf_inode f = i"] by (auto simp: procfs_find_entry_inode_def)

lemma free_inode_loop_spec:
  assumes "procfs_inv (v_data V)"
  shows "\<exists>i. free_inode_loop V is = Some i \<and> (i = - 1 \<or> i \<in> set is \<and> (\<forall>a \<in> set (p_list (v_data V)). pf_inode (pf_at (v_data V) a) \<noteq> i))"
proof (induction "is")
  case (Cons i "is")
  show ?case by (rule find_entry_inode [OF assms, of i]) (use Cons in auto)
qed simp

lemma get_free_inode:
  assumes "procfs_inv (v_data V)"
  obtains i where "procfs_get_free_inode V = Some i" "i = - 1 \<or> 1 \<le> i \<and> i < PROCFS_MAX_FILES"
    "\<And>a. a \<in> set (p_list (v_data V)) \<Longrightarrow> pf_inode (pf_at (v_data V) a) = i \<Longrightarrow> i = - 1"
  using free_inode_loop_spec [OF assms, of "[1..PROCFS_MAX_FILES - 1]"] by (auto simp: procfs_get_free_inode_def)

section \<open>Creating and removing files\<close>

lemma procfs_ok_kmalloc:
  "procfs_ok V \<Longrightarrow> v_kmalloc V = a # as \<Longrightarrow> procfs_ok (V\<lparr>v_kmalloc := as\<rparr>)"
  by (auto simp: procfs_ok_defs split: if_splits)

lemma procfs_ok_errno [simp]: "procfs_ok (V\<lparr>v_errno := e\<rparr>) = procfs_ok V"
  by (simp add: procfs_ok_defs)

lemma procfs_create_file_ok:
  assumes ok: "procfs_ok V" and r: "procfs_create_file V path flags = Some (n, V')"
    and new: "\<And>a. a \<in> set (p_list (v_data V)) \<Longrightarrow> pf_name (pf_at (v_data V) a) \<noteq> path"
  shows "procfs_ok V' \<and> (n \<noteq> NULL \<longrightarrow> n \<in> set (p_list (v_data V')) \<and> p_list (v_data V') = p_list (v_data V) @ [n]
    \<and> n \<notin> set (p_list (v_data V)) \<and> p_files (v_data V') = (p_files (v_data V))(n \<mapsto> pf_at (v_data V') n)
    \<and> pf_name (pf_at (v_data V') n) = path \<and> pf_flags (pf_at (v_data V') n) = flags \<and> pf_files (pf_at (v_data V') n) = []
    \<and> v_files V' = v_files V \<and> p_files (v_data V) n = None)"
proof -
  obtain a as where k: "v_kmalloc V = a # as" and r1: "procfs_create_file V path flags = Some (n, V')"
    using r by (cases "v_kmalloc V") (auto simp: procfs_create_file_def kmalloc_next_def)
  define W where "W = V\<lparr>v_kmalloc := as\<rparr>"
  have W: "procfs_ok W" "v_data W = v_data V" "v_files W = v_files V" using procfs_ok_kmalloc [OF ok k] by (simp_all add: W_def)
  show ?thesis
  proof (cases "a = NULL")
    case True
    then show ?thesis using r k W by (simp add: procfs_create_file_def kmalloc_next_def W_def)
  next
    case False
    obtain i where i: "procfs_get_free_inode W = Some i" "i = - 1 \<or> 1 \<le> i \<and> i < PROCFS_MAX_FILES"
      "\<And>a. a \<in> set (p_list (v_data V)) \<Longrightarrow> pf_inode (pf_at (v_data V) a) = i \<Longrightarrow> i = - 1"
      using W get_free_inode [of W] by (auto simp: procfs_ok_def)
    have fr: "v_files V a = None" "p_files (v_data V) a = None" "a \<notin> set (filter (\<lambda>a. a \<noteq> NULL) as)"
      using ok k False by (auto simp: procfs_ok_def kmalloc_fresh_def)
    have nl: "a \<notin> set (p_list (v_data V))" using ok fr(2) by (auto simp: procfs_ok_def procfs_inv_def)
    have eqs: "n = a" "length path < PROCFS_NAME_MAX"
      "\<exists>f. V' = W\<lparr>v_data := \<lparr>nfiles = nfiles (v_data V) + 1, p_list = p_list (v_data V) @ [a], p_files = (p_files (v_data V))(a \<mapsto> f)\<rparr>\<rparr>
         \<and> procfs_check_file f \<and> pf_inode f = i \<and> pf_name f = path \<and> pf_flags f = flags \<and> pf_files f = []"
      using r k False i(1) W(2)
      by (auto simp: procfs_create_file_def kmalloc_next_def procfs_check_file_def Let_def W_def split: if_splits)
    then obtain f where V': "V' = W\<lparr>v_data := \<lparr>nfiles = nfiles (v_data V) + 1, p_list = p_list (v_data V) @ [a],
        p_files = (p_files (v_data V))(a \<mapsto> f)\<rparr>\<rparr>"
      and f: "procfs_check_file f" "pf_inode f = i" "pf_name f = path" "pf_flags f = flags" "pf_files f = []" by blast
    have at: "pf_at (v_data V') b = (if b = a then f else pf_at (v_data V) b)" for b by (simp add: V' pf_at_def)
    have "procfs_inv (v_data V')"
      using ok W nl f i new eqs(2) False unfolding procfs_ok_def procfs_inv_def
      by (auto simp: at) (auto simp: V')
    moreover have "procfs_links V'"
      using ok nl f unfolding procfs_ok_def procfs_links_def by (auto simp: at) (auto simp: V' W_def)
    moreover have "kmalloc_fresh V'"
      using ok k fr False unfolding procfs_ok_def kmalloc_fresh_def by (auto simp: V' W_def)
    ultimately show ?thesis using eqs(1) nl f W(3) fr(2) by (simp add: procfs_ok_def) (simp add: V' pf_at_def)
  qed
qed

lemma procfs_destroy_file_ok:
  assumes ok: "procfs_ok V" and a: "a \<in> set (p_list (v_data V))"
  shows "\<exists>V'. procfs_destroy_file V a = Some (0, V') \<and> procfs_ok V'
    \<and> p_list (v_data V') = remove1 a (p_list (v_data V)) \<and> p_files (v_data V') = (p_files (v_data V))(a := None)
    \<and> nfiles (v_data V') = nfiles (v_data V) - 1 \<and> v_files V' = v_files V"
proof -
  define D' where "D' = \<lparr>nfiles = nfiles (v_data V) - 1, p_list = remove1 a (p_list (v_data V)), p_files = (p_files (v_data V))(a := None)\<rparr>"
  have g: "get_pf V a = Some (pf_at (v_data V) a)" "a \<noteq> NULL" using get_pf_listed [OF _ a] ok by (auto simp: procfs_ok_def)
  have d: "distinct (p_list (v_data V))" using ok by (simp add: procfs_ok_def procfs_inv_def)
  have at: "pf_at D' b = pf_at (v_data V) b" if "b \<noteq> a" for b using that by (simp add: D'_def pf_at_def)
  have s: "set (p_list D') = set (p_list (v_data V)) - {a}" using d by (simp add: D'_def)
  have len: "length (p_list (v_data V)) = Suc (length (p_list D'))"
    using length_pos_if_in_set [OF a] a by (simp add: D'_def length_remove1)
  have "nfiles D' = of_nat (length (p_list D'))" using ok len by (simp add: procfs_ok_def procfs_inv_def D'_def)
  moreover have "distinct (p_list D')" using d by (simp add: D'_def)
  moreover have "p_files D' b = p_files (v_data V) b" if "b \<noteq> a" for b using that by (simp add: D'_def)
  ultimately have "procfs_inv D'" using ok unfolding procfs_ok_def procfs_inv_def s by (auto simp: at)
  moreover have "procfs_links (V\<lparr>v_data := D'\<rparr>)" using ok unfolding procfs_ok_def procfs_links_def by (auto simp: s at)
  moreover have "kmalloc_fresh (V\<lparr>v_data := D'\<rparr>)" using ok unfolding procfs_ok_def kmalloc_fresh_def by (simp add: D'_def)
  moreover have "procfs_destroy_file V a = Some (0, V\<lparr>v_data := D'\<rparr>)"
    using g by (simp add: procfs_destroy_file_def D'_def Let_def)
  ultimately show ?thesis by (simp add: procfs_ok_def) (simp add: D'_def)
qed

lemma procfs_create_file_struct_ok:
  assumes ok: "procfs_ok V" and r: "procfs_create_file_struct L V pf = Some (x, V')"
  shows "procfs_ok V' \<and> v_data V' = v_data V
    \<and> (x \<noteq> NULL \<longrightarrow> (\<exists>y. v_files V' x = Some y \<and> vf_device y = pf) \<and> v_files V x = None)"
proof (cases "pf = NULL")
  case True
  then show ?thesis using r ok by (simp add: procfs_create_file_struct_def)
next
  case False
  then obtain a as where k: "v_kmalloc V = a # as"
    using r by (cases "v_kmalloc V") (auto simp: procfs_create_file_struct_def kmalloc_next_def)
  have W: "procfs_ok (V\<lparr>v_kmalloc := as\<rparr>)" by (rule procfs_ok_kmalloc [OF ok k])
  show ?thesis
  proof (cases "a = NULL")
    case True
    then show ?thesis using r k False W by (auto simp: procfs_create_file_struct_def kmalloc_next_def)
  next
    case a: False
    have fr: "v_files V a = None" "a \<notin> set (filter (\<lambda>a. a \<noteq> NULL) as)" using ok k a by (auto simp: procfs_ok_def kmalloc_fresh_def)
    obtain y where V': "x = a" "V' = V\<lparr>v_kmalloc := as, v_files := (v_files V)(a \<mapsto> y)\<rparr>" "vf_device y = pf"
      using r k False a by (auto simp: procfs_create_file_struct_def kmalloc_next_def Let_def split: bind_splits)
    have "procfs_links V'" using ok fr unfolding procfs_ok_def procfs_links_def by (fastforce simp: V')
    moreover have "kmalloc_fresh V'" using W fr a unfolding procfs_ok_def kmalloc_fresh_def by (auto simp: V')
    ultimately show ?thesis using ok fr V' by (simp add: procfs_ok_def)
  qed
qed

lemma kmalloc_fresh_upd:
  assumes "procfs_ok V" and "a \<in> set (p_list (v_data V))"
  shows "kmalloc_fresh (V\<lparr>v_data := (v_data V)\<lparr>p_files := (p_files (v_data V))(a \<mapsto> f)\<rparr>\<rparr>)"
proof -
  have "a \<notin> set (v_kmalloc V)" using assms unfolding procfs_ok_defs by (metis option.distinct(1))
  then show ?thesis using assms(1) unfolding procfs_ok_def kmalloc_fresh_def by auto
qed

text \<open>Changes of a file that keep its name, number and mark keep the invariant.\<close>

lemma procfs_inv_upd:
  assumes "procfs_inv D" and "a \<in> set (p_list D)"
    and "pf_magic f = pf_magic (pf_at D a)" "pf_name f = pf_name (pf_at D a)" "pf_inode f = pf_inode (pf_at D a)"
  shows "procfs_inv (D\<lparr>p_files := (p_files D)(a \<mapsto> f)\<rparr>)"
proof -
  have at: "pf_at (D\<lparr>p_files := (p_files D)(a \<mapsto> f)\<rparr>) b = (if b = a then f else pf_at D b)" for b by (simp add: pf_at_def)
  show ?thesis using assms unfolding procfs_inv_def at by (simp add: procfs_check_file_def)
qed

lemma touch_ok:
  assumes ok: "procfs_ok V" and pf: "pf \<in> set (p_list (v_data V))" and r: "touch V pf = Some V'"
  shows "procfs_ok V' \<and> p_list (v_data V') = p_list (v_data V) \<and> v_files V' = v_files V"
proof -
  have g: "get_pf V pf = Some (pf_at (v_data V) pf)" using get_pf_listed [OF _ pf] ok by (simp add: procfs_ok_def)
  define D' where "D' = (v_data V)\<lparr>p_files := (p_files (v_data V))(pf \<mapsto> (pf_at (v_data V) pf)\<lparr>pf_atime := v_time V\<rparr>)\<rparr>"
  have V': "V' = V\<lparr>v_data := D'\<rparr>" using r g by (simp add: touch_def upd_pf_def D'_def)
  have at: "pf_files (pf_at D' b) = pf_files (pf_at (v_data V) b)" for b by (simp add: D'_def pf_at_def)
  have "procfs_inv D'" unfolding D'_def using ok pf by (intro procfs_inv_upd) (simp_all add: procfs_ok_def)
  moreover have "procfs_links V'" using ok unfolding procfs_ok_def procfs_links_def V' by (simp add: at) (simp add: D'_def)
  moreover have "kmalloc_fresh V'" unfolding V' D'_def by (rule kmalloc_fresh_upd [OF ok pf])
  ultimately show ?thesis by (simp add: procfs_ok_def V') (simp add: D'_def)
qed

lemma link_file_ok:
  assumes ok: "procfs_ok V" and pf: "pf \<in> set (p_list (v_data V))" and r: "link_file V pf x = Some V'"
    and x: "x \<noteq> NULL" "v_files V x = Some y" "vf_device y = pf" "x \<notin> set (pf_files (pf_at (v_data V) pf))"
  shows "procfs_ok V'"
proof -
  have g: "get_pf V pf = Some (pf_at (v_data V) pf)" using get_pf_listed [OF _ pf] ok by (simp add: procfs_ok_def)
  define f where "f = (pf_at (v_data V) pf)\<lparr>pf_files := pf_files (pf_at (v_data V) pf) @ [x]\<rparr>"
  define D' where "D' = (v_data V)\<lparr>p_files := (p_files (v_data V))(pf \<mapsto> f)\<rparr>"
  have V': "V' = V\<lparr>v_data := D'\<rparr>" using r g by (simp add: link_file_def upd_pf_def D'_def f_def)
  have at: "pf_at D' b = (if b = pf then f else pf_at (v_data V) b)" for b by (simp add: D'_def pf_at_def)
  have l: "p_list D' = p_list (v_data V)" by (simp add: D'_def)
  have "procfs_inv D'" unfolding D'_def using ok pf by (intro procfs_inv_upd) (simp_all add: procfs_ok_def f_def)
  moreover have "procfs_links V'" using ok x pf unfolding procfs_ok_def procfs_links_def V' by (auto simp: at l f_def)
  moreover have "kmalloc_fresh V'" unfolding V' D'_def by (rule kmalloc_fresh_upd [OF ok pf])
  ultimately show ?thesis by (simp add: procfs_ok_def V')
qed

section \<open>Every operation keeps the invariant\<close>

lemma procfs_mkdir_ok:
  assumes ok: "procfs_ok V" and r: "procfs_mkdir path mode V = Some (c, V')"
  shows "procfs_ok V'"
proof (rule find_entry_path [of V path])
  show "procfs_inv (v_data V)" using ok by (simp add: procfs_ok_def)
next
  assume n: "procfs_find_entry_path V path = Some NULL" "\<And>a. a \<in> set (p_list (v_data V)) \<Longrightarrow> pf_name (pf_at (v_data V) a) \<noteq> path"
  have "V' = V \<or> (\<exists>x. procfs_create_file V path DT_DIR = Some (x, V'))"
    using r n(1) by (auto simp: procfs_mkdir_def Let_def split: if_splits bind_splits)
  then show ?thesis using ok procfs_create_file_ok [OF ok _ n(2)] by auto
next
  fix x
  assume "procfs_find_entry_path V path = Some x" "x \<noteq> NULL"
  then show ?thesis using r ok by (auto simp: procfs_mkdir_def split: if_splits)
qed

lemma procfs_rmdir_ok:
  assumes ok: "procfs_ok V" and r: "procfs_rmdir path V = Some (c, V')"
  shows "procfs_ok V'"
proof (rule find_entry_path [of V path])
  show "procfs_inv (v_data V)" using ok by (simp add: procfs_ok_def)
next
  assume "procfs_find_entry_path V path = Some NULL"
  then show ?thesis using r ok by (auto simp: procfs_rmdir_def split: if_splits)
next
  fix x
  assume x: "procfs_find_entry_path V path = Some x" "x \<noteq> NULL" "x \<in> set (p_list (v_data V))"
  have "V' = V \<or> (\<exists>y. procfs_destroy_file V x = Some (y, V'))"
    using r x by (auto simp: procfs_rmdir_def split: if_splits bind_splits)
  then show ?thesis using ok procfs_destroy_file_ok [OF ok x(3)] by auto
qed

lemma open_entry_ok:
  assumes ok: "procfs_ok V" and pf: "pf \<in> set (p_list (v_data V))"
    and r: "procfs_create_file_struct L V pf = Some (x, V1)" "x \<noteq> NULL"
    and t: "V2 = V1 \<or> touch V1 pf = Some V2" and l: "link_file V2 pf x = Some V'"
  shows "procfs_ok V'"
proof -
  from procfs_create_file_struct_ok [OF ok r(1)] r(2) obtain y where
    1: "procfs_ok V1" "v_data V1 = v_data V" "v_files V1 x = Some y" "vf_device y = pf" "v_files V x = None" by auto
  have 2: "procfs_ok V2 \<and> p_list (v_data V2) = p_list (v_data V) \<and> v_files V2 = v_files V1
      \<and> pf_files (pf_at (v_data V2) pf) = pf_files (pf_at (v_data V) pf)"
    using t
  proof
    assume "touch V1 pf = Some V2"
    with touch_ok [OF 1(1) _ this] pf 1(2) show ?thesis
      by (auto simp: touch_def upd_pf_def get_pf_def pf_at_def split: bind_splits if_splits)
  qed (use 1 in auto)
  have "x \<notin> set (pf_files (pf_at (v_data V) pf))" using ok pf 1(5) unfolding procfs_ok_def procfs_links_def by fastforce
  then show ?thesis using link_file_ok [OF _ _ l r(2)] 1 2 pf by auto
qed

lemma open_new_ok:
  assumes ok: "procfs_ok V" and r: "open_new L path V = Some (x, V')"
    and n: "\<And>a. a \<in> set (p_list (v_data V)) \<Longrightarrow> pf_name (pf_at (v_data V) a) \<noteq> path"
  shows "procfs_ok V'"
proof -
  obtain pf V1 where c: "procfs_create_file V path DT_REG = Some (pf, V1)"
    using r by (auto simp: open_new_def split: bind_splits)
  from procfs_create_file_ok [OF ok c n] have 1: "procfs_ok V1" "pf \<noteq> NULL \<Longrightarrow> pf \<in> set (p_list (v_data V1))" by auto
  show ?thesis
  proof (cases "pf = NULL")
    case True
    then show ?thesis using r c 1 by (auto simp: open_new_def)
  next
    case False
    then obtain y V2 where s: "procfs_create_file_struct L V1 pf = Some (y, V2)"
      using r c by (auto simp: open_new_def split: bind_splits)
    have "y = NULL \<and> V' = V2\<lparr>v_errno := ENFILE\<rparr> \<or> y \<noteq> NULL \<and> link_file V2 pf y = Some V'"
      using r c s False by (auto simp: open_new_def split: bind_splits if_splits)
    then show ?thesis
      using procfs_create_file_struct_ok [OF 1(1) s] open_entry_ok [OF 1(1) 1(2) [OF False] s] by auto
  qed
qed

lemma open_existing_ok:
  assumes ok: "procfs_ok V" and r: "open_existing L flags pf V = Some (x, V')" and pf: "pf \<in> set (p_list (v_data V))"
  shows "procfs_ok V'"
proof -
  have "(\<exists>e. V' = V\<lparr>v_errno := e\<rparr>) \<or> (\<exists>y V1. procfs_create_file_struct L V pf = Some (y, V1) \<and>
      (V' = V1\<lparr>v_errno := ENFILE\<rparr> \<or> y \<noteq> NULL \<and> (\<exists>V2. touch V1 pf = Some V2 \<and> link_file V2 pf y = Some V')))"
    using r unfolding open_existing_def Let_def by (auto split: if_splits bind_splits)
  then show ?thesis
  proof (elim disjE exE conjE)
    fix y V1 V2
    assume "procfs_create_file_struct L V pf = Some (y, V1)" "y \<noteq> NULL" "touch V1 pf = Some V2" "link_file V2 pf y = Some V'"
    then show ?thesis using open_entry_ok [OF ok pf] by blast
  next
    fix y V1
    assume "procfs_create_file_struct L V pf = Some (y, V1)" "V' = V1\<lparr>v_errno := ENFILE\<rparr>"
    then show ?thesis using procfs_create_file_struct_ok [OF ok] by simp
  qed (use ok in simp)
qed

lemma procfs_open_ok:
  assumes ok: "procfs_ok V" and r: "procfs_open L path flags mode V = Some (x, V')"
  shows "procfs_ok V'"
proof -
  obtain e where e: "parent_error V path = Some e" using r by (auto simp: procfs_open_def split: bind_splits)
  have inv: "procfs_inv (v_data V)" using ok by (simp add: procfs_ok_def)
  consider "e \<noteq> 0" | "e = 0" by blast
  then show ?thesis
  proof cases
    case 1
    then show ?thesis using r e ok by (auto simp: procfs_open_def)
  next
    case 2
    show ?thesis
    proof (rule find_entry_path [OF inv, of path])
      assume n: "procfs_find_entry_path V path = Some NULL" "\<And>a. a \<in> set (p_list (v_data V)) \<Longrightarrow> pf_name (pf_at (v_data V) a) \<noteq> path"
      then have "open_new L path V = Some (x, V') \<or> V' = V\<lparr>v_errno := ENOENT\<rparr>"
        using r e 2 by (auto simp: procfs_open_def split: if_splits)
      then show ?thesis using open_new_ok [OF ok _ n(2)] ok by auto
    next
      fix pf
      assume "procfs_find_entry_path V path = Some pf" "pf \<noteq> NULL" "pf \<in> set (p_list (v_data V))"
      then show ?thesis using r e 2 open_existing_ok [OF ok] by (simp add: procfs_open_def)
    qed
  qed
qed

lemma procfs_close_ok:
  assumes ok: "procfs_ok V" and r: "procfs_close x V = Some (c, V')"
  shows "procfs_ok V'"
proof -
  define D' where "D' = (v_data V)\<lparr>p_files := \<lambda>a. map_option (\<lambda>f. f\<lparr>pf_files := remove1 x (pf_files f)\<rparr>) (p_files (v_data V) a)\<rparr>"
  have V': "V' = V\<lparr>v_files := (v_files V)(x := None), v_data := D'\<rparr>"
    using r by (auto simp: procfs_close_def Let_def D'_def split: bind_splits if_splits)
  have l: "p_list D' = p_list (v_data V)" "nfiles D' = nfiles (v_data V)" by (simp_all add: D'_def)
  have at: "pf_at D' a = (pf_at (v_data V) a)\<lparr>pf_files := remove1 x (pf_files (pf_at (v_data V) a))\<rparr>"
    if "a \<in> set (p_list (v_data V))" for a
    using ok that by (auto simp: procfs_ok_def procfs_inv_def pf_at_def D'_def)
  have "procfs_inv D'" using ok unfolding procfs_ok_def procfs_inv_def l
    by (auto simp: at procfs_check_file_def) (auto simp: D'_def)
  moreover have "procfs_links V'" using ok unfolding procfs_ok_def procfs_links_def by (auto simp: V' l at)
  moreover have "kmalloc_fresh V'" using ok unfolding procfs_ok_def kmalloc_fresh_def by (auto simp: V' D'_def)
  ultimately show ?thesis by (simp add: procfs_ok_def V')
qed

lemma procfs_unlink_state: "procfs_inv (v_data V) \<Longrightarrow> procfs_unlink path V = Some (c, V') \<Longrightarrow> V' = V"
  by (rule find_entry_path [of V path]) (auto simp: procfs_unlink_def get_pf_def split: if_splits)

lemma proc_new_entry_ok:
  assumes ok: "procfs_ok V" and r: "proc_new_entry type name parent V = Some (x, V')"
  shows "procfs_ok V'"
proof -
  obtain path where p: "entry_path V name parent = Some path" using r by (auto simp: proc_new_entry_def split: bind_splits)
  show ?thesis
  proof (rule find_entry_path [of V path])
    show "procfs_inv (v_data V)" using ok by (simp add: procfs_ok_def)
  next
    assume n: "procfs_find_entry_path V path = Some NULL" "\<And>a. a \<in> set (p_list (v_data V)) \<Longrightarrow> pf_name (pf_at (v_data V) a) \<noteq> path"
    obtain m V1 where c: "procfs_create_file V path type = Some (m, V1)"
      using r p n(1) by (auto simp: proc_new_entry_def split: bind_splits)
    then have "V' = V1 \<or> V' = V1\<lparr>v_errno := ENFILE\<rparr>" using r p n(1) by (auto simp: proc_new_entry_def split: if_splits)
    then show ?thesis using procfs_create_file_ok [OF ok c n(2)] by auto
  next
    fix a
    assume "procfs_find_entry_path V path = Some a" "a \<noteq> NULL"
    then show ?thesis using r p ok by (auto simp: proc_new_entry_def)
  qed
qed

lemma destroy_or_same_ok:
  assumes "procfs_ok V" and "a \<in> set (p_list (v_data V))" and "V' = V \<or> (\<exists>c. procfs_destroy_file V a = Some (c, V'))"
  shows "procfs_ok V'"
  using assms procfs_destroy_file_ok [OF assms(1,2)] by auto

lemma proc_rmdir_ok:
  assumes ok: "procfs_ok V" and r: "proc_rmdir name parent V = Some (c, V')"
  shows "procfs_ok V'"
proof -
  obtain path where p: "entry_path V name parent = Some path" using r by (auto simp: proc_rmdir_def split: bind_splits)
  show ?thesis
  proof (rule find_entry_path [of V path])
    show "procfs_inv (v_data V)" using ok by (simp add: procfs_ok_def)
  next
    fix a
    assume a: "procfs_find_entry_path V path = Some a" "a \<noteq> NULL" "a \<in> set (p_list (v_data V))"
    have "V' = V \<or> (\<exists>c. procfs_destroy_file V a = Some (c, V'))"
      using r p a(1,2) by (auto simp: proc_rmdir_def split: if_splits bind_splits)
    then show ?thesis by (rule destroy_or_same_ok [OF ok a(3)])
  qed (use r p ok in \<open>auto simp: proc_rmdir_def\<close>)
qed

lemma proc_destroy_entry_ok:
  assumes ok: "procfs_ok V" and r: "proc_destroy_entry name parent V = Some (c, V')"
  shows "procfs_ok V'"
proof -
  obtain path where p: "entry_path V name parent = Some path" using r by (auto simp: proc_destroy_entry_def split: bind_splits)
  show ?thesis
  proof (rule find_entry_path [of V path])
    show "procfs_inv (v_data V)" using ok by (simp add: procfs_ok_def)
  next
    fix a
    assume a: "procfs_find_entry_path V path = Some a" "a \<noteq> NULL" "a \<in> set (p_list (v_data V))"
    have "V' = V \<or> (\<exists>c. procfs_destroy_file V a = Some (c, V'))"
      using r p a(1,2) by (auto simp: proc_destroy_entry_def split: if_splits bind_splits)
    then show ?thesis by (rule destroy_or_same_ok [OF ok a(3)])
  qed (use r p ok in \<open>auto simp: proc_destroy_entry_def\<close>)
qed

section \<open>Reachable states\<close>

text \<open>One call of an operation that changes the files; mounting is on a path that is not yet the name of a file.\<close>

inductive procfs_step :: "procfs_symbols \<Rightarrow> pfs \<Rightarrow> pfs \<Rightarrow> bool" for L where
  step_mkdir: "procfs_mkdir path mode V = Some (c, V') \<Longrightarrow> procfs_step L V V'"
| step_rmdir: "procfs_rmdir path V = Some (c, V') \<Longrightarrow> procfs_step L V V'"
| step_open: "procfs_open L path flags mode V = Some (x, V') \<Longrightarrow> procfs_step L V V'"
| step_close: "procfs_close x V = Some (c, V') \<Longrightarrow> procfs_step L V V'"
| step_unlink: "procfs_unlink path V = Some (c, V') \<Longrightarrow> procfs_step L V V'"
| step_proc_mkdir: "proc_mkdir name parent V = Some (x, V') \<Longrightarrow> procfs_step L V V'"
| step_proc_create_entry: "proc_create_entry name parent V = Some (x, V') \<Longrightarrow> procfs_step L V V'"
| step_proc_rmdir: "proc_rmdir name parent V = Some (c, V') \<Longrightarrow> procfs_step L V V'"
| step_proc_destroy_entry: "proc_destroy_entry name parent V = Some (c, V') \<Longrightarrow> procfs_step L V V'"
| step_mount: "procfs_find_entry_path V path = Some NULL \<Longrightarrow> procfs_mount_callback L path device V = Some (x, V') \<Longrightarrow> procfs_step L V V'"

lemma procfs_mount_callback_ok:
  assumes ok: "procfs_ok V" and n: "procfs_find_entry_path V path = Some NULL"
    and r: "procfs_mount_callback L path device V = Some (x, V')"
  shows "procfs_ok V'"
proof -
  obtain pf V1 where c: "procfs_create_file V path DT_DIR = Some (pf, V1)" "pf \<noteq> NULL"
    using r by (auto simp: procfs_mount_callback_def split: bind_splits if_splits)
  then obtain y V2 where s: "procfs_create_file_struct L V1 pf = Some (y, V2)" "y \<noteq> NULL" "link_file V2 pf y = Some V'"
    using r by (auto simp: procfs_mount_callback_def split: bind_splits if_splits)
  have new: "\<And>a. a \<in> set (p_list (v_data V)) \<Longrightarrow> pf_name (pf_at (v_data V) a) \<noteq> path"
    using n ok by (metis find_entry_path option.inject procfs_ok_def)
  from procfs_create_file_ok [OF ok c(1) new] c(2) have "procfs_ok V1" "pf \<in> set (p_list (v_data V1))" by auto
  then show ?thesis using open_entry_ok [OF _ _ s(1,2) _ s(3)] by blast
qed

lemma procfs_step_ok: "procfs_step L V V' \<Longrightarrow> procfs_ok V \<Longrightarrow> procfs_ok V'"
proof (induction rule: procfs_step.induct)
  case (step_unlink path V c V')
  then show ?case using procfs_unlink_state by (metis procfs_ok_def)
qed (auto simp: proc_mkdir_def proc_create_entry_def intro: procfs_mkdir_ok procfs_rmdir_ok procfs_open_ok procfs_close_ok
  proc_new_entry_ok proc_rmdir_ok proc_destroy_entry_ok procfs_mount_callback_ok)

lemma find_entry_path_unique:
  assumes "procfs_inv (v_data V)" and "a \<in> set (p_list (v_data V))"
  shows "procfs_find_entry_path V (pf_name (pf_at (v_data V) a)) = Some a"
  by (rule find_entry_path [OF assms(1), of "pf_name (pf_at (v_data V) a)"]) (use assms in \<open>auto simp: procfs_inv_def\<close>)

lemma find_entry_inode_unique:
  assumes "procfs_inv (v_data V)" and "a \<in> set (p_list (v_data V))" and "pf_inode (pf_at (v_data V) a) \<noteq> - 1"
  shows "procfs_find_entry_inode V (pf_inode (pf_at (v_data V) a)) = Some a"
  by (rule find_entry_inode [OF assms(1), of "pf_inode (pf_at (v_data V) a)"]) (use assms in \<open>auto simp: procfs_inv_def\<close>)

text \<open>C4. In every state reached by any sequence of the operations of the process file system, each file is found by its name, and by
  its inode number unless none was left for it; the number of files is that of the list; and the files open on an entry are
  different, exist and point back to it. The addresses that \<^verbatim>\<open>kmalloc\<close> returns are assumed not to be in use and to be
  different from each other, so that freed addresses do not come back; and a file system is mounted only on a path that is not yet the name of a file, which the
  code does not check.\<close>

theorem procfs_reachable:
  assumes ok: "procfs_ok V" and s: "(procfs_step L)\<^sup>*\<^sup>* V V'"
  shows "procfs_ok V' \<and> (\<forall>a \<in> set (p_list (v_data V')). procfs_find_entry_path V' (pf_name (pf_at (v_data V') a)) = Some a
    \<and> (pf_inode (pf_at (v_data V') a) \<noteq> - 1 \<longrightarrow> procfs_find_entry_inode V' (pf_inode (pf_at (v_data V') a)) = Some a))"
proof -
  from s have "procfs_ok V'" by (induction) (auto intro: ok procfs_step_ok)
  then show ?thesis using find_entry_path_unique find_entry_inode_unique by (auto simp: procfs_ok_def)
qed

text \<open>An empty file system with room for two allocations.\<close>

definition empty_procfs :: pfs where
  "empty_procfs = \<lparr>v_filesystems = hashmap_create vfs_filesystems_max fs_name_hash (=) hashmap_do_not_duplicate,
     v_super_blocks = [], v_spinlock = False, v_files = Map.empty, v_errno = 0, v_kmalloc = [64, 128], v_cwd = ''/'', v_time = 0,
     v_data = \<lparr>nfiles = 0, p_list = [], p_files = Map.empty\<rparr>\<rparr>"

lemma empty_procfs_ok: "procfs_ok empty_procfs"
  by (simp add: procfs_ok_defs empty_procfs_def)

lemma get_free_inode_first: "procfs_find_entry_inode V 1 = Some NULL \<Longrightarrow> procfs_get_free_inode V = Some 1"
  unfolding procfs_get_free_inode_def PROCFS_MAX_FILES_def by (subst upto_rec1) simp_all

lemma dirname_proc: "dirname (Some ''/proc'') = Some ''/''"
  by (simp add: dirname_def PATH_MAX_def last_index_def)

lemma mkdir_proc:
  "\<exists>V'. procfs_mkdir ''/proc'' 0 empty_procfs = Some (0, V') \<and> p_list (v_data V') = [64] \<and> pf_name (pf_at (v_data V') 64) = ''/proc''"
proof -
  define W where "W = empty_procfs\<lparr>v_kmalloc := [128]\<rparr>"
  have "procfs_get_free_inode W = Some 1"
    by (rule get_free_inode_first) (simp add: procfs_find_entry_inode_def W_def empty_procfs_def)
  moreover have "kmalloc_next empty_procfs = Some (64, W)" by (simp add: kmalloc_next_def W_def) (simp add: empty_procfs_def)
  moreover have "p_list (v_data W) = []" by (simp add: W_def empty_procfs_def)
  moreover have "procfs_find_entry_path empty_procfs p = Some NULL" for p by (simp add: procfs_find_entry_path_def empty_procfs_def)
  moreover have "parent_error empty_procfs ''/proc'' = Some 0" by (simp add: parent_error_def dirname_proc)
  ultimately show ?thesis by (simp add: procfs_mkdir_def procfs_create_file_def PROCFS_NAME_MAX_def Let_def pf_at_def)
qed

theorem procfs_reachable_witness:
  "\<exists>V'. procfs_mkdir ''/proc'' 0 empty_procfs = Some (0, V') \<and> procfs_find_entry_path V' ''/proc'' = Some 64"
proof -
  obtain V' where V': "procfs_mkdir ''/proc'' 0 empty_procfs = Some (0, V')" "p_list (v_data V') = [64]" "pf_name (pf_at (v_data V') 64) = ''/proc''"
    using mkdir_proc by blast
  have "(procfs_step L)\<^sup>*\<^sup>* empty_procfs V'" for L by (rule r_into_rtranclp) (rule step_mkdir [OF V'(1)])
  from procfs_reachable [OF empty_procfs_ok this] V' show ?thesis by auto
qed

section \<open>Directories\<close>

lemma check_if_empty_cong:
  assumes "\<And>a. a \<in> set as \<Longrightarrow> get_pf W a = get_pf V a"
  shows "check_if_empty_loop W path as = check_if_empty_loop V path as"
  using assms
proof (induction as)
  case (Cons a as)
  then have "check_if_empty_loop W path as = check_if_empty_loop V path as" "get_pf W a = get_pf V a" by simp_all
  then show ?case by (simp only: check_if_empty_loop.simps)
qed simp

lemma check_if_empty_append:
  "check_if_empty_loop V path as = Some 0 \<Longrightarrow> check_if_empty_loop V path (as @ bs) = check_if_empty_loop V path bs"
  by (induction as) (auto split: bind_splits if_splits)

lemma procfs_mkdir_successE:
  assumes inv: "procfs_inv (v_data V)" and m: "procfs_mkdir path mode V = Some (0, V1)"
  obtains n where "\<not> (path = ''.'' \<or> path = ''..'')"
    "\<And>a. a \<in> set (p_list (v_data V)) \<Longrightarrow> pf_name (pf_at (v_data V) a) \<noteq> path"
    "procfs_create_file V path DT_DIR = Some (n, V1)" "n \<noteq> NULL"
proof -
  have dots: "\<not> (path = ''.'' \<or> path = ''..'')" 
  proof
    assume d: "path = ''.'' \<or> path = ''..''"
    show False using m unfolding procfs_mkdir_def if_P [OF d] by (simp add: EPERM_def)
  qed
  have "procfs_find_entry_path V path = Some NULL \<and> (\<forall>a \<in> set (p_list (v_data V)). pf_name (pf_at (v_data V) a) \<noteq> path)"
  proof (rule find_entry_path [OF inv, of path])
    fix x
    assume "procfs_find_entry_path V path = Some x" "x \<noteq> NULL"
    then show ?thesis using m unfolding procfs_mkdir_def if_not_P [OF dots] by (simp add: EEXIST_def)
  qed blast
  then have f: "procfs_find_entry_path V path = Some NULL"
    and new: "\<And>a. a \<in> set (p_list (v_data V)) \<Longrightarrow> pf_name (pf_at (v_data V) a) \<noteq> path" by blast+
  have d: "parent_error V path = Some 0"
  proof (cases "parent_error V path")
    case None
    then show ?thesis using m f unfolding procfs_mkdir_def if_not_P [OF dots] by simp
  next
    case (Some d)
    then show ?thesis using m f unfolding procfs_mkdir_def if_not_P [OF dots] by (cases "d = 0") simp_all
  qed
  show ?thesis
  proof (cases "procfs_create_file V path DT_DIR")
    case None
    then show ?thesis using m f d unfolding procfs_mkdir_def if_not_P [OF dots] by simp
  next
    case (Some r)
    then show ?thesis using that [of "fst r", OF dots new] m f d unfolding procfs_mkdir_def if_not_P [OF dots]
      by (cases r) (simp add: ENFILE_def split: if_splits)
  qed
qed

text \<open>C36. Making a directory and removing it: when \<^verbatim>\<open>procfs_mkdir\<close> succeeds for a path that no file is in, the directory is found
  at its path, making it again fails with \<^verbatim>\<open>EEXIST\<close>, and \<^verbatim>\<open>procfs_rmdir\<close> succeeds and gives back all files, their list and
  their number as they were.\<close>

theorem procfs_mkdir_rmdir:
  assumes ok: "procfs_ok V" and m: "procfs_mkdir path mode V = Some (0, V1)" and e: "procfs_check_if_empty V path = Some 0"
  shows "\<exists>a. a \<noteq> NULL \<and> procfs_find_entry_path V1 path = Some a \<and> procfs_mkdir path mode V1 = Some (- EEXIST, V1)
    \<and> (\<exists>V2. procfs_rmdir path V1 = Some (0, V2) \<and> v_data V2 = v_data V \<and> v_files V2 = v_files V)"
proof -
  have inv: "procfs_inv (v_data V)" using ok by (simp add: procfs_ok_def)
  obtain n where dots: "\<not> (path = ''.'' \<or> path = ''..'')"
    and new: "\<And>a. a \<in> set (p_list (v_data V)) \<Longrightarrow> pf_name (pf_at (v_data V) a) \<noteq> path"
    and c: "procfs_create_file V path DT_DIR = Some (n, V1)" "n \<noteq> NULL"
    using procfs_mkdir_successE [OF inv m] by blast
  note C = procfs_create_file_ok [OF ok c(1) new]
  from C c(2) have ok1: "procfs_ok V1" and n: "n \<in> set (p_list (v_data V1))" "p_list (v_data V1) = p_list (v_data V) @ [n]"
    "n \<notin> set (p_list (v_data V))" "p_files (v_data V1) = (p_files (v_data V))(n \<mapsto> pf_at (v_data V1) n)"
    "pf_name (pf_at (v_data V1) n) = path" "pf_flags (pf_at (v_data V1) n) = DT_DIR" "pf_files (pf_at (v_data V1) n) = []"
    "v_files V1 = v_files V" "p_files (v_data V) n = None" by auto
  have inv1: "procfs_inv (v_data V1)" using ok1 by (simp add: procfs_ok_def)
  have found: "procfs_find_entry_path V1 path = Some n" using find_entry_path_unique [OF inv1 n(1)] n(5) by simp
  have g: "get_pf V1 n = Some (pf_at (v_data V1) n)" using get_pf_listed [OF inv1 n(1)] by simp
  have same: "get_pf V1 b = get_pf V b" if "b \<in> set (p_list (v_data V))" for b
  proof -
    have "b \<noteq> n" using that n(3) by blast
    then show ?thesis unfolding get_pf_def by (subst n(4)) simp
  qed
  have "check_if_empty_loop V1 path (p_list (v_data V)) = Some 0"
    using e by (subst check_if_empty_cong [of _ V1 V]) (simp_all add: same procfs_check_if_empty_def)
  then have "procfs_check_if_empty V1 path = Some 0"
    using check_if_empty_append [of V1 path "p_list (v_data V)" "[n]"] g n(5) by (simp add: procfs_check_if_empty_def n(2))
  moreover obtain V2 where V2: "procfs_destroy_file V1 n = Some (0, V2)" "p_list (v_data V2) = remove1 n (p_list (v_data V1))"
    "p_files (v_data V2) = (p_files (v_data V1))(n := None)" "nfiles (v_data V2) = nfiles (v_data V1) - 1" "v_files V2 = v_files V1"
    using procfs_destroy_file_ok [OF ok1 n(1)] by blast
  ultimately have "procfs_rmdir path V1 = Some (0, V2)"
    using found c(2) g n unfolding procfs_rmdir_def if_not_P [OF dots] by (simp add: DT_DIR_def)
  moreover have "v_data V2 = v_data V"
  proof (rule procfs_t.equality)
    show "p_list (v_data V2) = p_list (v_data V)" using V2(2) n by (simp add: remove1_append)
    show "p_files (v_data V2) = p_files (v_data V)" unfolding V2(3) by (subst n(4)) (simp add: n(9) fun_upd_idem)
    show "nfiles (v_data V2) = nfiles (v_data V)" using V2(4) inv inv1 n(2) by (simp add: procfs_inv_def)
  qed simp
  moreover have "procfs_mkdir path mode V1 = Some (- EEXIST, V1)" using found c(2) unfolding procfs_mkdir_def if_not_P [OF dots] by simp
  ultimately show ?thesis using found c(2) V2(5) n(8) by auto
qed

theorem procfs_mkdir_rmdir_witness:
  "\<exists>V1. procfs_mkdir ''/proc'' 0 empty_procfs = Some (0, V1)
     \<and> (\<exists>V2. procfs_rmdir ''/proc'' V1 = Some (0, V2) \<and> v_data V2 = v_data empty_procfs)"
proof -
  obtain V1 where V1: "procfs_mkdir ''/proc'' 0 empty_procfs = Some (0, V1)" using mkdir_proc by blast
  have "procfs_check_if_empty empty_procfs ''/proc'' = Some 0" by (simp add: procfs_check_if_empty_def empty_procfs_def)
  from procfs_mkdir_rmdir [OF empty_procfs_ok V1 this] V1 show ?thesis by blast
qed

section \<open>Removing and creating files by path\<close>

text \<open>C37. \<^verbatim>\<open>procfs_unlink\<close> never removes a file: on the path of a file it fails with \<^verbatim>\<open>EEXIST\<close>, on any other path it follows
  the null pointer. And \<^verbatim>\<open>procfs_open\<close> with \<^verbatim>\<open>O_CREAT\<close> alone fails with \<^verbatim>\<open>EEXIST\<close> for a file that exists.\<close>

theorem procfs_unlink_never_removes:
  assumes ok: "procfs_ok V" and p: "path \<notin> {''.'', ''..''}"
  shows "procfs_unlink path V = (if \<exists>a \<in> set (p_list (v_data V)). pf_name (pf_at (v_data V) a) = path then Some (- EEXIST, V) else None)
    \<and> (a \<in> set (p_list (v_data V)) \<longrightarrow> pf_name (pf_at (v_data V) a) = path \<longrightarrow> parent_error V path = Some 0 \<longrightarrow>
         procfs_open L path O_CREAT mode V = Some (NULL, V\<lparr>v_errno := EEXIST\<rparr>))"
proof -
  have inv: "procfs_inv (v_data V)" using ok by (simp add: procfs_ok_def)
  have d: "\<not> (path = ''.'' \<or> path = ''..'')" using p by blast
  have 1: "procfs_unlink path V = (if \<exists>a \<in> set (p_list (v_data V)). pf_name (pf_at (v_data V) a) = path then Some (- EEXIST, V) else None)"
    unfolding procfs_unlink_def if_not_P [OF d] by (rule find_entry_path [OF inv, of path]) (auto simp: get_pf_def)
  have 2: "procfs_open L path O_CREAT mode V = Some (NULL, V\<lparr>v_errno := EEXIST\<rparr>)"
    if "a \<in> set (p_list (v_data V))" "pf_name (pf_at (v_data V) a) = path" "parent_error V path = Some 0"
    using that find_entry_path_unique [OF inv that(1)] get_pf_listed [OF inv that(1)]
    by (simp add: procfs_open_def open_existing_def bitmask_check_def O_CREAT_def O_EXCL_def)
  from 1 2 show ?thesis by blast
qed

theorem procfs_unlink_never_removes_witness:
  "procfs_unlink ''/proc/video'' empty_procfs = None
   \<and> (\<exists>V1. procfs_mkdir ''/proc'' 0 empty_procfs = Some (0, V1) \<and> procfs_unlink ''/proc'' V1 = Some (- EEXIST, V1))"
proof -
  obtain V1 where V1: "procfs_mkdir ''/proc'' 0 empty_procfs = Some (0, V1)" "p_list (v_data V1) = [64]" "pf_name (pf_at (v_data V1) 64) = ''/proc''"
    using mkdir_proc by blast
  have "procfs_unlink ''/proc'' V1 = Some (- EEXIST, V1)"
    using procfs_unlink_never_removes [OF procfs_mkdir_ok [OF empty_procfs_ok V1(1)], of "''/proc''"] V1(2,3) by simp
  moreover have "procfs_unlink ''/proc/video'' empty_procfs = None"
    using procfs_unlink_never_removes [OF empty_procfs_ok, of "''/proc/video''"] by (simp add: empty_procfs_def)
  ultimately show ?thesis using V1(1) by blast
qed

end
