(* ===== verification/Time.thy ===== *)
theory Time
  imports Prelude "HOL-Library.Signed_Division"
begin

text \<open>
  Calendar time: \<^verbatim>\<open>src/kernel/lib/time.c\<close> and the clock of \<^verbatim>\<open>src/arch/i386/rtc.c\<close>, and the proof that the two conversions
  between seconds and dates are inverse to each other.

  The registers of the clock are a parameter: \<open>dev n reg\<close> is what the \<open>n\<close>-th read finds in register \<open>reg\<close>, so that nothing is
  assumed about the device. A loop that waits for the device is a partial function.
\<close>

section \<open>Dates\<close>

record tm_t =
  tm_sec :: int
  tm_min :: int
  tm_hour :: int
  tm_mday :: int
  tm_mon :: int
  tm_year :: int
  tm_wday :: int
  tm_yday :: int
  tm_isdst :: int

text \<open>
  The date is that of the clock. The parts are computed in \<^verbatim>\<open>int\<close>, where division rounds to zero, and added up in 32 bits.
\<close>

definition sys_time :: "tm_t \<Rightarrow> u32" where
  "sys_time global_time =
     (let early = tm_mon global_time \<le> 2;
          mon = (if early then tm_mon global_time + 12 else tm_mon global_time);
          year = (if early then tm_year global_time - 1 else tm_year global_time);
          t = word_of_int (365 * year + year sdiv 4 - year sdiv 100 + year sdiv 400);
          t = t + word_of_int (30 * mon + 3 * (mon + 1) sdiv 5 + tm_mday global_time);
          t = t - 719561;
          t = t * 86400
      in t + word_of_int (3600 * tm_hour global_time + 60 * tm_min global_time + tm_sec global_time))"

definition difftime :: "u32 \<Rightarrow> u32 \<Rightarrow> u32" where
  "difftime time1 time2 = time1 - time2"

definition day_of_week :: "u32 \<Rightarrow> u32 \<Rightarrow> u32 \<Rightarrow> int" where
  "day_of_week y m d =
     (let early = m \<le> 2;
          m = (if early then m + 12 else m);
          y = (if early then y - 1 else y);
          j = y div 100;
          k = y mod 100;
          h = sint (d + 26 * (m + 1) div 10 + k + k div 4 + 5 * j + j div 4)
      in (h + 5) smod 7 + 1)"

text \<open>\<open>date\<close> is the static structure, whose other members stay as they are.\<close>

definition localtime :: "tm_t \<Rightarrow> u32 \<Rightarrow> tm_t" where
  "localtime date time =
     (let t = (if time < 1 then 0 else time);
          sec = t mod 60;
          t = t div 60;
          min = t mod 60;
          t = t div 60;
          hour = t mod 24;
          t = t div 24;
          a = (4 * t + 102032) div 146097 + 15;
          b = t + 2442113 + a - a div 4;
          c = (20 * b - 2442) div 7305;
          d = b - 365 * c - c div 4;
          e = d * 1000 div 30601;
          f = d - e * 30 - e * 601 div 1000;
          late = \<not> e \<le> 13;
          c = (if late then c - 4715 else c - 4716);
          e = (if late then e - 13 else e - 1)
      in date\<lparr>tm_sec := sint sec, tm_min := sint min, tm_hour := sint hour, tm_year := sint c, tm_mon := sint e,
              tm_mday := sint f, tm_wday := day_of_week c e f\<rparr>)"

section \<open>The clock\<close>

record rtc =
  global_time :: tm_t
  previous_global_time :: tm_t
  is_bcd :: bool
  first_update :: bool
  rtc_reads :: nat
  rtc_writes :: "(u8 \<times> u8) list"

definition rtc_are_different :: "tm_t \<Rightarrow> tm_t \<Rightarrow> bool" where
  "rtc_are_different t0 t1 \<longleftrightarrow> tm_sec t0 \<noteq> tm_sec t1 \<or> tm_min t0 \<noteq> tm_min t1 \<or> tm_hour t0 \<noteq> tm_hour t1 \<or> tm_mon t0 \<noteq> tm_mon t1
     \<or> tm_year t0 \<noteq> tm_year t1 \<or> tm_wday t0 \<noteq> tm_wday t1 \<or> tm_mday t0 \<noteq> tm_mday t1"

definition read_register :: "(nat \<Rightarrow> u8 \<Rightarrow> u8) \<Rightarrow> rtc \<Rightarrow> u8 \<Rightarrow> u8 \<times> rtc" where
  "read_register dev R reg = (dev (rtc_reads R) reg, R\<lparr>rtc_reads := rtc_reads R + 1\<rparr>)"

definition write_register :: "rtc \<Rightarrow> u8 \<Rightarrow> u8 \<Rightarrow> rtc" where
  "write_register R reg val = R\<lparr>rtc_writes := rtc_writes R @ [(reg, val)]\<rparr>"

definition is_updating_rtc :: "(nat \<Rightarrow> u8 \<Rightarrow> u8) \<Rightarrow> rtc \<Rightarrow> bool \<times> rtc" where
  "is_updating_rtc dev R = (let (status, R) = read_register dev R 0x0A in (status AND 0x80 \<noteq> 0, R))"

definition bcd2bin :: "u8 \<Rightarrow> u8" where
  "bcd2bin bcd = drop_bit 4 bcd * 10 + (bcd AND 0x0F)"

definition rtc_read_datetime :: "(nat \<Rightarrow> u8 \<Rightarrow> u8) \<Rightarrow> rtc \<Rightarrow> rtc" where
  "rtc_read_datetime dev R =
     (let (status, R) = read_register dev R 0x0C in
      if status AND 0x10 \<noteq> 0 then
        let conv = (\<lambda>x. uint (if is_bcd R then bcd2bin x else x));
            (s, R) = read_register dev R 0x00;
            (m, R) = read_register dev R 0x02;
            (h, R) = read_register dev R 0x04;
            (mo, R) = read_register dev R 0x08;
            (y, R) = read_register dev R 0x09;
            (wd, R) = read_register dev R 0x06;
            (md, R) = read_register dev R 0x07
        in R\<lparr>global_time := (global_time R)\<lparr>tm_sec := conv s, tm_min := conv m, tm_hour := conv h + 2, tm_mon := conv mo,
               tm_year := conv y + 2000, tm_wday := conv wd, tm_mday := conv md\<rparr>\<rparr>
      else R)"

partial_function (option) rtc_wait :: "(nat \<Rightarrow> u8 \<Rightarrow> u8) \<Rightarrow> rtc \<Rightarrow> rtc option" where
  "rtc_wait dev R = (let (busy, R) = is_updating_rtc dev R in if busy then rtc_wait dev R else Some R)"

partial_function (option) rtc_first_loop :: "(nat \<Rightarrow> u8 \<Rightarrow> u8) \<Rightarrow> rtc \<Rightarrow> rtc option" where
  "rtc_first_loop dev R =
     Option.bind (rtc_wait dev (R\<lparr>previous_global_time := global_time R\<rparr>)) (\<lambda>R.
       let R = rtc_read_datetime dev R in
       if rtc_are_different (previous_global_time R) (global_time R) then Some R else rtc_first_loop dev R)"

definition rtc_update_datetime :: "(nat \<Rightarrow> u8 \<Rightarrow> u8) \<Rightarrow> rtc \<Rightarrow> rtc option" where
  "rtc_update_datetime dev R = do {
     R \<leftarrow> rtc_wait dev R;
     let R = rtc_read_datetime dev R;
     if first_update R then do {
       R \<leftarrow> rtc_first_loop dev R;
       Some (R\<lparr>first_update := False\<rparr>)
     }
     else Some R
   }"

definition gettime :: "rtc \<Rightarrow> tm_t" where
  "gettime R = global_time R"

text \<open>The installation of the interrupt handler is left out.\<close>

definition rtc_init :: "(nat \<Rightarrow> u8 \<Rightarrow> u8) \<Rightarrow> rtc \<Rightarrow> (int \<times> rtc) option" where
  "rtc_init dev R = do {
     let (status, R) = read_register dev R 0x0B;
     let status = ((status OR 0x02) OR 0x10) AND NOT 0x20 AND NOT 0x40;
     let R = write_register (R\<lparr>is_bcd := (status AND 0x04 = 0)\<rparr>) 0x0B status;
     let (_, R) = read_register dev R 0x0C;
     R \<leftarrow> rtc_update_datetime dev R;
     Some (0, R)
   }"

section \<open>Dates and seconds\<close>

text \<open>The specification: days of the months, and valid dates that fit in 32 bits of seconds.\<close>

definition leap_year :: "int \<Rightarrow> bool" where
  "leap_year y \<longleftrightarrow> y mod 4 = 0 \<and> (y mod 100 \<noteq> 0 \<or> y mod 400 = 0)"

definition days_in_month :: "int \<Rightarrow> int \<Rightarrow> int" where
  "days_in_month y m = (if m = 2 then (if leap_year y then 29 else 28) else if m \<in> {4, 6, 9, 11} then 30 else 31)"

definition valid_tm :: "tm_t \<Rightarrow> bool" where
  "valid_tm D \<longleftrightarrow> 1970 \<le> tm_year D \<and> tm_year D \<le> 2105 \<and> 1 \<le> tm_mon D \<and> tm_mon D \<le> 12
     \<and> 1 \<le> tm_mday D \<and> tm_mday D \<le> days_in_month (tm_year D) (tm_mon D)
     \<and> 0 \<le> tm_hour D \<and> tm_hour D < 24 \<and> 0 \<le> tm_min D \<and> tm_min D < 60 \<and> 0 \<le> tm_sec D \<and> tm_sec D < 60"

text \<open>Days since the epoch for a year that starts in March, with the months 3 to 14.\<close>

definition epoch_days :: "int \<Rightarrow> int \<Rightarrow> int \<Rightarrow> int" where
  "epoch_days y m d = 365 * y + y div 4 - y div 100 + y div 400 + 30 * m + 3 * (m + 1) div 5 + d - 719561"

definition march_date :: "int \<Rightarrow> int \<Rightarrow> int \<Rightarrow> bool" where
  "march_date y m d \<longleftrightarrow> 1969 \<le> y \<and> y \<le> 2105 \<and> 3 \<le> m \<and> m \<le> 14 \<and> (y = 1969 \<longrightarrow> 13 \<le> m) \<and> (y = 2105 \<longrightarrow> m \<le> 12) \<and> 1 \<le> d
     \<and> d \<le> (if m \<le> 12 then days_in_month y m else days_in_month (y + 1) (m - 12))"

text \<open>The part of a year before a month, and the day in a year that starts in March.\<close>

lemma march_months:
  assumes "3 \<le> m" "m \<le> (14::int)"
  obtains "m = 3" | "m = 4" | "m = 5" | "m = 6" | "m = 7" | "m = 8" | "m = 9" | "m = 10" | "m = 11" | "m = 12" | "m = 13" | "m = 14"
  using assms by atomize_elim presburger

lemma march_dateD:
  assumes "march_date y m d"
  shows "3 \<le> m" "m \<le> 14" "1 \<le> d" "m \<le> 12 \<Longrightarrow> d \<le> days_in_month y m" "12 < m \<Longrightarrow> d \<le> days_in_month (y + 1) (m - 12)"
    "1969 \<le> y" "y \<le> 2105"
  using assms by (simp_all add: march_date_def)

lemma march_day_bounds:
  assumes "march_date y m d"
  shows "123 \<le> 30 * (m + 1) + 3 * (m + 1) div 5 + d"
    and "30 * (m + 1) + 3 * (m + 1) div 5 + d \<le> 487 \<or> (30 * (m + 1) + 3 * (m + 1) div 5 + d = 488 \<and> leap_year (y + 1))"
proof -
  note D = march_dateD [OF assms]
  show "123 \<le> 30 * (m + 1) + 3 * (m + 1) div 5 + d" using D(1,2)
    by (cases rule: march_months; use D(3) in simp)
  show "30 * (m + 1) + 3 * (m + 1) div 5 + d \<le> 487 \<or> (30 * (m + 1) + 3 * (m + 1) div 5 + d = 488 \<and> leap_year (y + 1))"
    using D(1,2) by (cases rule: march_months; use D(3-5) in \<open>auto simp: days_in_month_def split: if_splits\<close>)
qed

lemma div_mid: "0 < (k::int) \<Longrightarrow> q * k \<le> x \<Longrightarrow> x < q * k + k \<Longrightarrow> x div k = q"
  by (rule int_div_pos_eq [of x k q "x - k * q"]) (simp_all add: algebra_simps)

lemma march_month_of_day:
  assumes "march_date y m d"
  shows "(30 * (m + 1) + 3 * (m + 1) div 5 + d) * 1000 div 30601 = m + 1" "(m + 1) * 601 div 1000 = 3 * (m + 1) div 5"
proof -
  note D = march_dateD [OF assms]
  show "(30 * (m + 1) + 3 * (m + 1) div 5 + d) * 1000 div 30601 = m + 1"
    using D(1,2) by (cases rule: march_months; use D(3-5) in \<open>simp add: days_in_month_def split: if_splits\<close>)
  show "(m + 1) * 601 div 1000 = 3 * (m + 1) div 5" using D(1,2) by (cases rule: march_months) simp_all
qed

lemma century_days:
  assumes "1969 \<le> y" "y \<le> (2105::int)"
  shows "y div 100 - y div 400 = (if y < 2100 then 15 else 16)"
proof -
  consider "y < 2000" | "2000 \<le> y" "y < 2100" | "2100 \<le> y" by linarith
  then show ?thesis
  proof cases
    case 1
    then have "y div 100 = 19" "y div 400 = 4" using assms by (intro div_mid; simp)+
    then show ?thesis using 1 by simp
  next
    case 2
    then have "y div 100 = 20" "y div 400 = 5" by (intro div_mid; simp)+
    then show ?thesis using 2 by simp
  next
    case 3
    then have "y div 100 = 21" "y div 400 = 5" using assms by (intro div_mid; simp)+
    then show ?thesis using 3 by simp
  qed
qed

lemma epoch_days_julian:
  assumes "1969 \<le> y" "y \<le> 2105"
  shows "epoch_days y m d = 365 * y + y div 4 + (30 * (m + 1) + 3 * (m + 1) div 5 + d) - 30 - 719561 - (if y < 2100 then 15 else 16)"
  using century_days [OF assms] by (simp add: epoch_days_def)

lemma epoch_days_range:
  assumes "march_date y m d"
  shows "0 \<le> epoch_days y m d" "epoch_days y m d \<le> 49672" "epoch_days y m d \<le> 47540 \<longleftrightarrow> y < 2100"
proof -
  note D = march_dateD [OF assms]
  note y = D(6,7)
  note X = march_day_bounds [OF assms]
  have nl: "y = 2099 \<Longrightarrow> \<not> leap_year (y + 1)" by (simp add: leap_year_def)
  have q: "y div 4 \<le> 524" if "y \<le> 2099" using zdiv_mono1 [OF that, of 4] by simp
  have q': "525 \<le> y div 4" if "2100 \<le> y" using zdiv_mono1 [OF that, of 4] by simp
  have q'': "492 \<le> y div 4" "y div 4 \<le> 526" using zdiv_mono1 [OF y(1), of 4] zdiv_mono1 [OF y(2), of 4] by simp_all
  have first: "429 \<le> 30 * (m + 1) + 3 * (m + 1) div 5 + d" if "y = 1969"
    using D(1,2) by (cases rule: march_months; use D(3) assms that in \<open>simp add: march_date_def\<close>)
  have last: "30 * (m + 1) + 3 * (m + 1) div 5 + d \<le> 428" if "y = 2105"
    using D(1,2) by (cases rule: march_months; use D(3-5) assms that in \<open>simp add: march_date_def days_in_month_def\<close>)
  show "0 \<le> epoch_days y m d" using epoch_days_julian [OF y] X q'' first y by (cases "y = 1969") auto
  show "epoch_days y m d \<le> 49672" using epoch_days_julian [OF y] X q'' last y by (cases "y = 2105") auto
  show "epoch_days y m d \<le> 47540 \<longleftrightarrow> y < 2100" using epoch_days_julian [OF y] X nl q q' y by (cases "y = 2099") auto
qed

text \<open>The steps of \<^verbatim>\<open>localtime\<close> on integers: the correction for the centuries, the year, and the month and day in it.\<close>

lemma century_correction:
  assumes "march_date y m d"
  defines "a \<equiv> (4 * epoch_days y m d + 102032) div 146097 + 15"
  shows "a - a div 4 = (if y < 2100 then 12 else 13)" "15 \<le> a" "a \<le> 17"
proof -
  note R = epoch_days_range [OF assms(1)]
  consider "a = 15" "y < 2100" | "a = 16" "y < 2100" | "a = 17" "2100 \<le> y"
  proof -
    consider "epoch_days y m d \<le> 11016" | "11017 \<le> epoch_days y m d" "epoch_days y m d \<le> 47540" | "47541 \<le> epoch_days y m d" by linarith
    then show ?thesis
    proof cases
      case 1
      then have "(4 * epoch_days y m d + 102032) div 146097 = 0" using R by (intro div_mid) simp_all
      then show ?thesis using that(1) 1 R(3) by (simp add: a_def)
    next
      case 2
      then have "(4 * epoch_days y m d + 102032) div 146097 = 1" by (intro div_mid) simp_all
      then show ?thesis using that(2) 2 R(3) by (simp add: a_def)
    next
      case 3
      then have "(4 * epoch_days y m d + 102032) div 146097 = 2" using R by (intro div_mid) simp_all
      then show ?thesis using that(3) 3 R(3) by (simp add: a_def)
    qed
  qed
  then show "a - a div 4 = (if y < 2100 then 12 else 13)" "15 \<le> a" "a \<le> 17" by (cases; simp)+
qed

lemma year_of_days:
  assumes "march_date y m d"
  defines "X \<equiv> 30 * (m + 1) + 3 * (m + 1) div 5 + d"
  defines "b \<equiv> 365 * (y + 4716) + (y + 4716) div 4 + X"
  shows "(20 * b - 2442) div 7305 = y + 4716" "b - 365 * (y + 4716) - (y + 4716) div 4 = X"
proof -
  define q r where "q = y div 4" and "r = y mod 4"
  have y: "y = 4 * q + r" "0 \<le> r" "r \<le> 3" by (simp_all add: q_def r_def)
  have c: "(y + 4716) div 4 = q + 1179" by (simp add: q_def)
  have leap: "r = 3" if "leap_year (y + 1)"
  proof -
    have "(r + 1) mod 4 = 0" using that by (simp add: leap_year_def r_def mod_add_left_eq)
    moreover have "r = 0 \<or> r = 1 \<or> r = 2 \<or> r = 3" using y by linarith
    ultimately show ?thesis by auto
  qed
  have "2457 \<le> 20 * X - 5 * r + 12" "20 * X - 5 * r \<le> 9745"
    using march_day_bounds [OF assms(1), folded X_def] y leap by linarith+
  moreover have "20 * b - 2442 = (y + 4716) * 7305 + (20 * X - 5 * r - 2442)"
    unfolding b_def c by (subst (1 2) y(1)) simp
  ultimately show "(20 * b - 2442) div 7305 = y + 4716" by (intro div_mid) linarith+
  show "b - 365 * (y + 4716) - (y + 4716) div 4 = X" by (simp add: b_def)
qed

lemma zeller:
  assumes "march_date y m d"
  defines "j \<equiv> y div 100" and "k \<equiv> y mod 100"
  shows "(d + 26 * (m + 1) div 10 + k + k div 4 + 5 * j + j div 4 + 5) mod 7 = (epoch_days y m d + 3) mod 7"
proof -
  have y: "y = 100 * j + k" by (simp add: j_def k_def)
  have "y = k + 25 * j * 4" using y by simp
  then have 4: "y div 4 = 25 * j + k div 4" by (metis add.commute div_mult_self1 zero_neq_numeral)
  have 400: "y div 400 = j div 4" using zdiv_zmult2_eq [of 4 y 100] by (simp add: j_def)
  have T: "epoch_days y m d = 365 * (100 * j + k) + (25 * j + k div 4) - j + j div 4 + 30 * m + 3 * (m + 1) div 5 + d - 719561"
    unfolding epoch_days_def 4 400 j_def [symmetric] using y by simp
  have "7 dvd 30 * m + 3 * (m + 1) div 5 - 26 * (m + 1) div 10 - 719563"
    using march_dateD(1,2) [OF assms(1)] by (cases rule: march_months) simp_all
  then obtain c where "30 * m + 3 * (m + 1) div 5 - 26 * (m + 1) div 10 - 719563 = 7 * c" by (elim dvdE)
  then have "epoch_days y m d + 3 = (d + 26 * (m + 1) div 10 + k + k div 4 + 5 * j + j div 4 + 5) + 7 * (5217 * j + 52 * k + c)"
    unfolding T by (simp add: algebra_simps)
  then show ?thesis by (simp only: mod_mult_self2)
qed

text \<open>Division of words that hold small integers.\<close>

lemma uint_small: "0 \<le> a \<Longrightarrow> a < 4294967296 \<Longrightarrow> uint (word_of_int a :: u32) = a"
  by (simp add: uint_word_of_int take_bit_int_eq_self)

lemma word_of_int_div:
  assumes "0 \<le> a" "a < 4294967296" "0 \<le> n" "n < 4294967296"
  shows "(word_of_int a :: u32) div word_of_int n = word_of_int (a div n)"
    and "(word_of_int a :: u32) mod word_of_int n = word_of_int (a mod n)"
    and "(word_of_int a :: u32) \<le> word_of_int n \<longleftrightarrow> a \<le> n"
  using assms by (simp_all add: word_div_def word_mod_def word_le_def uint_small)

lemma sint_word_of_int:
  "0 \<le> a \<Longrightarrow> a < 2147483648 \<Longrightarrow> sint (word_of_int a :: u32) = a"
  by (simp add: signed_of_int signed_take_bit_int_eq_self)

section \<open>The conversions are inverse\<close>

text \<open>The date with the months 3 to 14, and the seconds as an integer.\<close>

definition march_year :: "tm_t \<Rightarrow> int" where
  "march_year D = (if tm_mon D \<le> 2 then tm_year D - 1 else tm_year D)"

definition march_month :: "tm_t \<Rightarrow> int" where
  "march_month D = (if tm_mon D \<le> 2 then tm_mon D + 12 else tm_mon D)"

definition tm_days :: "tm_t \<Rightarrow> int" where
  "tm_days D = epoch_days (march_year D) (march_month D) (tm_mday D)"

definition tm_seconds :: "tm_t \<Rightarrow> int" where
  "tm_seconds D = tm_days D * 86400 + (3600 * tm_hour D + 60 * tm_min D + tm_sec D)"

lemma valid_tm_march: "valid_tm D \<Longrightarrow> march_date (march_year D) (march_month D) (tm_mday D)"
  by (auto simp: valid_tm_def march_date_def march_year_def march_month_def)

lemma sys_time_seconds:
  assumes "valid_tm D"
  shows "sys_time D = word_of_int (tm_seconds D)"
proof -
  note M = march_dateD [OF valid_tm_march [OF assms]]
  have "march_year D sdiv 4 = march_year D div 4" "march_year D sdiv 100 = march_year D div 100"
    "march_year D sdiv 400 = march_year D div 400" "3 * (march_month D + 1) sdiv 5 = 3 * (march_month D + 1) div 5"
    using M by (simp_all add: signed_divide_int_def)
  then show ?thesis
    unfolding sys_time_def Let_def march_year_def [symmetric] march_month_def [symmetric] tm_seconds_def tm_days_def epoch_days_def
    by (simp add: algebra_simps)
qed

lemma tm_seconds_split:
  assumes "valid_tm D"
  shows "tm_seconds D mod 60 = tm_sec D" "tm_seconds D div 60 mod 60 = tm_min D" "tm_seconds D div 60 div 60 mod 24 = tm_hour D"
    "tm_seconds D div 60 div 60 div 24 = tm_days D" "0 \<le> tm_seconds D" "tm_seconds D < 4294967296"
proof -
  have v: "0 \<le> tm_hour D" "tm_hour D < 24" "0 \<le> tm_min D" "tm_min D < 60" "0 \<le> tm_sec D" "tm_sec D < 60"
    using assms by (simp_all add: valid_tm_def)
  note R = epoch_days_range [OF valid_tm_march [OF assms], folded tm_days_def]
  have e: "tm_seconds D = ((tm_days D * 24 + tm_hour D) * 60 + tm_min D) * 60 + tm_sec D" by (simp add: tm_seconds_def)
  have 1: "tm_seconds D div 60 = (tm_days D * 24 + tm_hour D) * 60 + tm_min D" unfolding e using v by (intro div_mid) simp_all
  have 2: "tm_seconds D div 60 div 60 = tm_days D * 24 + tm_hour D" unfolding 1 using v by (intro div_mid) simp_all
  show 3: "tm_seconds D div 60 div 60 div 24 = tm_days D" unfolding 2 using v by (intro div_mid) simp_all
  show "tm_seconds D mod 60 = tm_sec D" using 1 e by (simp add: minus_div_mult_eq_mod [symmetric])
  show "tm_seconds D div 60 mod 60 = tm_min D" using 2 1 by (simp add: minus_div_mult_eq_mod [symmetric])
  show "tm_seconds D div 60 div 60 mod 24 = tm_hour D" using 3 2 by (simp add: minus_div_mult_eq_mod [symmetric])
  show "0 \<le> tm_seconds D" "tm_seconds D < 4294967296" using R v by (simp_all add: tm_seconds_def)
qed

lemma smod_nonneg: "0 \<le> (k::int) \<Longrightarrow> k smod 7 = k mod 7"
  by (cases "k = 0") (simp_all add: signed_modulo_int_def)

lemma day_of_week_days:
  assumes "valid_tm D"
  shows "day_of_week (word_of_int (tm_year D)) (word_of_int (tm_mon D)) (word_of_int (tm_mday D)) = (tm_days D + 3) mod 7 + 1"
proof -
  define y m d where "y = march_year D" and "m = march_month D" and "d = tm_mday D"
  have v: "1 \<le> tm_mon D" "tm_mon D \<le> 12" "1970 \<le> tm_year D" "tm_year D \<le> 2105" using assms by (simp_all add: valid_tm_def)
  have M: "march_date y m d" using valid_tm_march [OF assms] by (simp add: y_def m_def d_def)
  note D = march_dateD [OF M]
  have d: "1 \<le> d" "d \<le> 31" using D by (cases "m \<le> 12"; simp add: days_in_month_def split: if_splits)+
  have early: "(word_of_int (tm_mon D) :: u32) \<le> 2 \<longleftrightarrow> tm_mon D \<le> 2" using v word_of_int_div(3) [of "tm_mon D" 2] by simp
  have w: "(if (word_of_int (tm_mon D) :: u32) \<le> 2 then word_of_int (tm_mon D) + 12 else word_of_int (tm_mon D)) = (word_of_int m :: u32)"
    "(if (word_of_int (tm_mon D) :: u32) \<le> 2 then word_of_int (tm_year D) - 1 else word_of_int (tm_year D)) = (word_of_int y :: u32)"
    unfolding early by (simp_all add: y_def m_def march_year_def march_month_def)
  have j: "(word_of_int y :: u32) div 100 = word_of_int (y div 100)" "(word_of_int y :: u32) mod 100 = word_of_int (y mod 100)"
    using D word_of_int_div [of y 100] by simp_all
  have j0: "0 \<le> y div 100" "y div 100 \<le> 21" using D zdiv_mono1 [of y 2105 100] by simp_all
  have q: "(word_of_int (y mod 100) :: u32) div 4 = word_of_int (y mod 100 div 4)" "(word_of_int (y div 100) :: u32) div 4 = word_of_int (y div 100 div 4)"
    "26 * ((word_of_int m :: u32) + 1) div 10 = word_of_int (26 * (m + 1) div 10)"
    using word_of_int_div(1) [of "y mod 100" 4] word_of_int_div(1) [of "y div 100" 4] word_of_int_div(1) [of "26 * (m + 1)" 10] j0 D
      pos_mod_bound [of 100 y] by simp_all
  define h where "h = d + 26 * (m + 1) div 10 + y mod 100 + y mod 100 div 4 + 5 * (y div 100) + y div 100 div 4"
  have k: "y mod 100 \<le> 99" "0 \<le> y mod 100" using pos_mod_bound [of 100 y] by simp_all
  have "26 * (m + 1) \<le> 390" using D(2) by simp
  from zdiv_mono1 [OF this, of 10] zdiv_mono1 [OF k(1), of 4] zdiv_mono1 [OF j0(2), of 4]
  have up: "26 * (m + 1) div 10 \<le> 39" "y mod 100 div 4 \<le> 24" "y div 100 div 4 \<le> 5" by simp_all
  have lo: "0 \<le> 26 * (m + 1) div 10" "0 \<le> y mod 100 div 4" "0 \<le> y div 100 div 4" using D(1) k(2) j0(1) by simp_all
  from up lo d k j0 have "0 \<le> h" "h < 2147483643" unfolding h_def by linarith+
  moreover have e: "word_of_int d + word_of_int (26 * (m + 1) div 10) + word_of_int (y mod 100) + word_of_int (y mod 100 div 4)
      + 5 * word_of_int (y div 100) + word_of_int (y div 100 div 4) = (word_of_int h :: u32)"
    unfolding h_def by (simp only: of_int_add of_int_mult of_int_numeral)
  ultimately have "day_of_week (word_of_int (tm_year D)) (word_of_int (tm_mon D)) (word_of_int d) = (h + 5) mod 7 + 1"
    unfolding day_of_week_def Let_def w j q e using sint_word_of_int [of h] smod_nonneg [of "h + 5"] by simp
  also have "(h + 5) mod 7 = (tm_days D + 3) mod 7" unfolding h_def tm_days_def y_def [symmetric] m_def [symmetric] d_def [symmetric] by (rule zeller [OF M])
  finally show ?thesis by (simp add: d_def)
qed

text \<open>The calendar part of \<^verbatim>\<open>localtime\<close> on the days of a date.\<close>

lemma localtime_calendar:
  assumes "march_date y m d"
  defines "t \<equiv> (word_of_int (epoch_days y m d) :: u32)"
  defines "a \<equiv> (4 * t + 102032) div 146097 + 15"
  defines "b \<equiv> t + 2442113 + a - a div 4"
  defines "c \<equiv> (20 * b - 2442) div 7305"
  defines "x \<equiv> b - 365 * c - c div 4"
  defines "e \<equiv> x * 1000 div 30601"
  shows "c = word_of_int (y + 4716)" "e = word_of_int (m + 1)" "x - e * 30 - e * 601 div 1000 = word_of_int d"
proof -
  define X where "X = 30 * (m + 1) + 3 * (m + 1) div 5 + d"
  define B where "B = 365 * (y + 4716) + (y + 4716) div 4 + X"
  define A where "A = (4 * epoch_days y m d + 102032) div 146097 + 15"
  note D = march_dateD [OF assms(1)]
  note R = epoch_days_range [OF assms(1)]
  note C = century_correction [OF assms(1), folded A_def]
  note Y = year_of_days [OF assms(1), folded X_def, folded B_def]
  have X: "123 \<le> X" "X \<le> 488" using march_day_bounds [OF assms(1), folded X_def] by linarith+
  have q: "(y + 4716) div 4 = y div 4 + 1179" by simp
  have B: "epoch_days y m d + 2442113 + A - A div 4 = B"
    using C(1) epoch_days_julian [OF D(6,7), of m d, folded X_def] by (simp add: B_def q split: if_splits)
  have qb: "0 \<le> y div 4" "y div 4 \<le> 526" using D zdiv_mono1 [of y 2105 4] by simp_all
  have Bb: "0 \<le> B" "B < 10000000" using D X qb by (simp_all add: B_def q)
  have a: "a = word_of_int A" using word_of_int_div(1) [of "4 * epoch_days y m d + 102032" 146097] R by (simp add: a_def t_def A_def)
  have b: "b = word_of_int B" using word_of_int_div(1) [of A 4] C(2,3) by (simp add: b_def t_def a B [symmetric])
  have "0 \<le> 20 * B - 2442" using D X qb by (simp add: B_def q)
  then show c: "c = word_of_int (y + 4716)" using word_of_int_div(1) [of "20 * B - 2442" 7305] Bb Y(1) by (simp add: c_def b)
  have "c div 4 = word_of_int ((y + 4716) div 4)" using word_of_int_div(1) [of "y + 4716" 4] D by (simp add: c)
  then have x: "x = word_of_int X" unfolding x_def b c Y(2) [symmetric] by simp
  show e: "e = word_of_int (m + 1)"
    using word_of_int_div(1) [of "X * 1000" 30601] X march_month_of_day(1) [OF assms(1), folded X_def] by (simp add: e_def x)
  have "e * 601 div 1000 = word_of_int (3 * (m + 1) div 5)"
    using word_of_int_div(1) [of "(m + 1) * 601" 1000] D march_month_of_day(2) [OF assms(1)] by (simp add: e)
  then show "x - e * 30 - e * 601 div 1000 = word_of_int d" unfolding x e by (simp add: X_def algebra_simps)
qed

text \<open>The time of day in \<^verbatim>\<open>localtime\<close>.\<close>

lemma words_of_seconds:
  assumes "valid_tm D"
  defines "s \<equiv> tm_seconds D"
  shows "(word_of_int s :: u32) mod 60 = word_of_int (tm_sec D)" "(word_of_int s :: u32) div 60 = word_of_int (s div 60)"
    "(word_of_int (s div 60) :: u32) mod 60 = word_of_int (tm_min D)"
    "(word_of_int (s div 60) :: u32) div 60 = word_of_int (s div 60 div 60)"
    "(word_of_int (s div 60 div 60) :: u32) mod 24 = word_of_int (tm_hour D)"
    "(word_of_int (s div 60 div 60) :: u32) div 24 = word_of_int (tm_days D)"
proof -
  note S = tm_seconds_split [OF assms(1), folded s_def]
  show "(word_of_int s :: u32) mod 60 = word_of_int (tm_sec D)" "(word_of_int s :: u32) div 60 = word_of_int (s div 60)"
    using word_of_int_div(1,2) [OF S(5,6), of 60] unfolding S(1) by simp_all
  have s1: "0 \<le> s div 60" "s div 60 < 4294967296"
    using S(5,6) zdiv_mono1 [of s 4294967295 60] by simp_all
  show "(word_of_int (s div 60) :: u32) mod 60 = word_of_int (tm_min D)"
    "(word_of_int (s div 60) :: u32) div 60 = word_of_int (s div 60 div 60)"
    using word_of_int_div(1,2) [OF s1, of 60] unfolding S(2) by simp_all
  have s2: "0 \<le> s div 60 div 60" "s div 60 div 60 < 4294967296"
    using s1 zdiv_mono1 [of "s div 60" 4294967295 60] by simp_all
  show "(word_of_int (s div 60 div 60) :: u32) mod 24 = word_of_int (tm_hour D)"
    "(word_of_int (s div 60 div 60) :: u32) div 24 = word_of_int (tm_days D)"
    using word_of_int_div(1,2) [OF s2, of 24] unfolding S(3,4) by simp_all
qed

text \<open>C10. Dates and seconds are inverse: for every valid date from 1970 to 2105, \<^verbatim>\<open>sys_time\<close> does not overflow and \<^verbatim>\<open>localtime\<close>
  gives the date and the time of day back, with the day of the week (1 is Monday) that the number of days since Thursday,
  1 January 1970 has. Months are numbered from 1 and years are full years.\<close>

theorem localtime_sys_time:
  assumes "valid_tm D"
  shows "localtime date (sys_time D) = date\<lparr>tm_sec := tm_sec D, tm_min := tm_min D, tm_hour := tm_hour D, tm_year := tm_year D,
      tm_mon := tm_mon D, tm_mday := tm_mday D, tm_wday := (int (unat (sys_time D)) div 86400 + 3) mod 7 + 1\<rparr>"
proof -
  define s where "s = tm_seconds D"
  have v: "1 \<le> tm_mon D" "tm_mon D \<le> 12" "1970 \<le> tm_year D" "tm_year D \<le> 2105" "1 \<le> tm_mday D" "tm_mday D \<le> 31"
    "0 \<le> tm_hour D" "tm_hour D < 24" "0 \<le> tm_min D" "tm_min D < 60" "0 \<le> tm_sec D" "tm_sec D < 60"
    using assms by (auto simp: valid_tm_def days_in_month_def split: if_splits)
  have st: "sys_time D = word_of_int s" using sys_time_seconds [OF assms] by (simp add: s_def)
  note S = tm_seconds_split [OF assms, folded s_def]
  have t0: "(if (word_of_int s :: u32) < 1 then 0 else word_of_int s) = (word_of_int s :: u32)" by (simp add: word_less_1)
  note clock = words_of_seconds [OF assms, folded s_def]
  have wd: "int (unat (sys_time D)) div 86400 = tm_days D"
    using S(4-6) zdiv_zmult2_eq [of 1440 s 60] zdiv_zmult2_eq [of 24 "s div 60" 60] by (simp add: st uint_small)
  note cal = localtime_calendar [OF valid_tm_march [OF assms], folded tm_days_def]
  have month: "(word_of_int (march_month D + 1) :: u32) \<le> 13 \<longleftrightarrow> march_month D \<le> 12"
    using v word_of_int_div(3) [of "march_month D + 1" 13] by (auto simp: march_month_def)
  have fin: "(if \<not> (word_of_int (march_month D + 1) :: u32) \<le> 13 then word_of_int (march_year D + 4716) - 4715 else word_of_int (march_year D + 4716) - 4716)
      = (word_of_int (tm_year D) :: u32)"
    "(if \<not> (word_of_int (march_month D + 1) :: u32) \<le> 13 then word_of_int (march_month D + 1) - 13 else word_of_int (march_month D + 1) - 1)
      = (word_of_int (tm_mon D) :: u32)"
    unfolding month using v by (auto simp: march_month_def march_year_def)
  have sint: "sint (word_of_int (tm_sec D) :: u32) = tm_sec D" "sint (word_of_int (tm_min D) :: u32) = tm_min D"
    "sint (word_of_int (tm_hour D) :: u32) = tm_hour D" "sint (word_of_int (tm_year D) :: u32) = tm_year D"
    "sint (word_of_int (tm_mon D) :: u32) = tm_mon D" "sint (word_of_int (tm_mday D) :: u32) = tm_mday D"
    using v by (intro sint_word_of_int; simp)+
  show ?thesis
    unfolding st localtime_def Let_def t0 clock unfolding cal(3) unfolding cal(2) unfolding cal(1) unfolding fin day_of_week_days [OF assms]
    unfolding st [symmetric] wd using v by (simp only: sint)
qed

definition leap_day :: tm_t where
  "leap_day = \<lparr>tm_sec = 59, tm_min = 59, tm_hour = 23, tm_mday = 29, tm_mon = 2, tm_year = 2024, tm_wday = 0, tm_yday = 0, tm_isdst = 0\<rparr>"

theorem localtime_sys_time_witness:
  "localtime leap_day (sys_time leap_day) = leap_day\<lparr>tm_wday := 4\<rparr> \<and> sys_time leap_day = 1709251199"
proof -
  have s: "sys_time leap_day = 1709251199" by (simp add: sys_time_def leap_day_def Let_def signed_divide_int_def)
  have "valid_tm leap_day" by (simp add: valid_tm_def leap_day_def days_in_month_def leap_year_def)
  from localtime_sys_time [OF this, of leap_day] s show ?thesis by (simp add: leap_day_def)
qed

end
