(* ===== verification/Timer.thy ===== *)
theory Timer
  imports Process
begin

text \<open>
  Dynamic timers: \<^verbatim>\<open>src/arch/i386/timer.c\<close> and \<^verbatim>\<open>include/arch/i386/timer.h\<close>, with the timer wheel, which is the variant that
  is compiled (\<^verbatim>\<open>ENABLE_REAL_TIMER_SYSTEM\<close>), sleeping, alarms and interval timers.

  The five vectors are lists of lists of timers, in the order of their links; a timer is an address in \<open>m_timers\<close>. The function
  of a timer is one of the three functions of the file. \<open>m_kmalloc\<close> has the next answers of \<^verbatim>\<open>kmalloc\<close>, as in \<open>Vfs\<close>. The
  debug dumps of the vectors are left out. \<^verbatim>\<open>unsigned long\<close> has 32 bits, and so has \<^verbatim>\<open>uint64_t\<close>, the type of the tick counter
  \<open>k_ticks\<close>, in \<^verbatim>\<open>include/kernel/stdint.h\<close>.
\<close>

section \<open>Data\<close>

definition TICKS_PER_SECOND :: u32 where "TICKS_PER_SECOND = 1193"
definition TVN_SIZE :: nat where "TVN_SIZE = 64"
definition TVR_SIZE :: nat where "TVR_SIZE = 256"
definition TVN_MASK :: u32 where "TVN_MASK = 63"
definition TVR_MASK :: u32 where "TVR_MASK = 255"

definition TIMER_TICKS_BITS :: "nat \<Rightarrow> nat" where
  "TIMER_TICKS_BITS tv = 8 + 6 * tv"

definition TIMER_TICKS :: "nat \<Rightarrow> u32" where
  "TIMER_TICKS tv = push_bit (TIMER_TICKS_BITS tv) 1"

lemmas tv_defs = TVN_SIZE_def TVR_SIZE_def TVN_MASK_def TVR_MASK_def TIMER_TICKS_BITS_def TIMER_TICKS_def

datatype timer_fn = Sleep_timeout | Alarm_timeout | It_real_fn

text \<open>\<open>tl_base\<close> says whether the timer points to the only base.\<close>

record timer_list =
  tl_lock :: bool
  tl_expires :: u32
  tl_function :: timer_fn
  tl_data :: u32
  tl_base :: bool

record tvec_base_t =
  tb_lock :: bool
  running_timer :: addr
  timer_ticks :: u32
  tv1 :: "addr list list"
  tv2 :: "addr list list"
  tv3 :: "addr list list"
  tv4 :: "addr list list"
  tv5 :: "addr list list"

record sleep_data_t =
  sd_entry :: addr
  sd_rem :: addr

record timespec =
  ts_sec :: u32
  ts_nsec :: int

record timeval =
  tv_sec :: u32
  tv_usec :: u32

record itimerval =
  it_interval :: timeval
  it_value :: timeval

record machine =
  kern :: kernel
  cpu_base :: tvec_base_t
  m_timers :: "addr \<rightharpoonup> timer_list"
  sleep_queue :: "addr list"
  m_sleep_data :: "addr \<rightharpoonup> sleep_data_t"
  m_kmalloc :: "addr list"

text \<open>A new timer. Every member is assigned before it is read.\<close>

definition timer_junk :: timer_list where
  "timer_junk = \<lparr>tl_lock = True, tl_expires = 0, tl_function = Sleep_timeout, tl_data = 0, tl_base = False\<rparr>"

definition get_timer :: "machine \<Rightarrow> addr \<Rightarrow> timer_list option" where
  "get_timer M a = (if a = NULL then None else m_timers M a)"

definition upd_timer :: "machine \<Rightarrow> addr \<Rightarrow> (timer_list \<Rightarrow> timer_list) \<Rightarrow> machine option" where
  "upd_timer M a f = do {
     t \<leftarrow> get_timer M a;
     Some (M\<lparr>m_timers := (m_timers M)(a \<mapsto> f t)\<rparr>)
   }"

definition upd_kern_task :: "machine \<Rightarrow> addr \<Rightarrow> (task_struct \<Rightarrow> task_struct) \<Rightarrow> machine option" where
  "upd_kern_task M p f = do { K \<leftarrow> upd_task (kern M) p f; Some (M\<lparr>kern := K\<rparr>) }"

definition kmalloc_timer :: "machine \<Rightarrow> (addr \<times> machine) option" where
  "kmalloc_timer M = (case m_kmalloc M of [] \<Rightarrow> None
     | a # as \<Rightarrow> Some (a, M\<lparr>m_kmalloc := as, m_timers := (if a = NULL then m_timers M else (m_timers M)(a \<mapsto> timer_junk))\<rparr>))"

definition timer_get_ticks :: "machine \<Rightarrow> u32" where
  "timer_get_ticks M = k_ticks (kern M)"

definition timer_get_seconds :: "machine \<Rightarrow> u32" where
  "timer_get_seconds M = k_ticks (kern M) div TICKS_PER_SECOND"

section \<open>The wheel\<close>

definition get_tv :: "tvec_base_t \<Rightarrow> nat \<Rightarrow> addr list list" where
  "get_tv B k = (if k = 1 then tv1 B else if k = 2 then tv2 B else if k = 3 then tv3 B else if k = 4 then tv4 B else tv5 B)"

definition map_tv :: "(addr list list \<Rightarrow> addr list list) \<Rightarrow> tvec_base_t \<Rightarrow> nat \<Rightarrow> tvec_base_t" where
  "map_tv f B k = (if k = 1 then B\<lparr>tv1 := f (tv1 B)\<rparr> else if k = 2 then B\<lparr>tv2 := f (tv2 B)\<rparr>
     else if k = 3 then B\<lparr>tv3 := f (tv3 B)\<rparr> else if k = 4 then B\<lparr>tv4 := f (tv4 B)\<rparr> else B\<lparr>tv5 := f (tv5 B)\<rparr>)"

definition dynamic_timers_install :: "machine \<Rightarrow> machine" where
  "dynamic_timers_install M = M\<lparr>cpu_base := (cpu_base M)\<lparr>timer_ticks := 0, tv1 := replicate TVR_SIZE [], tv2 := replicate TVN_SIZE [],
     tv3 := replicate TVN_SIZE [], tv4 := replicate TVN_SIZE [], tv5 := replicate TVN_SIZE []\<rparr>, sleep_queue := []\<rparr>"

definition find_tvec :: "tvec_base_t \<Rightarrow> u32 \<Rightarrow> nat \<times> nat" where
  "find_tvec B expires =
     (let ticks = expires - timer_ticks B in
      if sint ticks < 0 then (unat (timer_ticks B AND TVR_MASK), 1)
      else if ticks < TIMER_TICKS 0 then (unat (expires AND TVR_MASK), 1)
      else if ticks < TIMER_TICKS 1 then (unat (drop_bit (TIMER_TICKS_BITS 0) expires AND TVN_MASK), 2)
      else if ticks < TIMER_TICKS 2 then (unat (drop_bit (TIMER_TICKS_BITS 1) expires AND TVN_MASK), 3)
      else if ticks < TIMER_TICKS 3 then (unat (drop_bit (TIMER_TICKS_BITS 2) expires AND TVN_MASK), 4)
      else (unat (drop_bit (TIMER_TICKS_BITS 3) expires AND TVN_MASK), 5))"

text \<open>A timer is linked at the end of its list; it is unlinked from the list it is in, whichever that is.\<close>

definition link_timer :: "tvec_base_t \<Rightarrow> u32 \<Rightarrow> addr \<Rightarrow> tvec_base_t" where
  "link_timer B expires a = (let (index, tv_index) = find_tvec B expires in
     map_tv (\<lambda>v. v[index := v ! index @ [a]]) B tv_index)"

definition unlink_timer :: "tvec_base_t \<Rightarrow> addr \<Rightarrow> tvec_base_t" where
  "unlink_timer B a = fold (\<lambda>k B. map_tv (map (remove1 a)) B k) [1, 2, 3, 4, 5] B"

definition add_timer_tvec_base :: "machine \<Rightarrow> addr \<Rightarrow> machine option" where
  "add_timer_tvec_base M a = do {
     t \<leftarrow> get_timer M a;
     Some (M\<lparr>cpu_base := link_timer (cpu_base M) (tl_expires t) a\<rparr>)
   }"

definition rem_timer_tvec_base :: "machine \<Rightarrow> addr \<Rightarrow> machine option" where
  "rem_timer_tvec_base M a = do {
     _ \<leftarrow> get_timer M a;
     Some (M\<lparr>cpu_base := unlink_timer (cpu_base M) a\<rparr>)
   }"

definition init_timer :: "machine \<Rightarrow> addr \<Rightarrow> machine option" where
  "init_timer M a = upd_timer M a (\<lambda>t. t\<lparr>tl_base := False, tl_lock := False\<rparr>)"

definition add_timer :: "machine \<Rightarrow> addr \<Rightarrow> machine option" where
  "add_timer M a = do {
     M \<leftarrow> upd_timer M a (\<lambda>t. t\<lparr>tl_base := True\<rparr>);
     add_timer_tvec_base M a
   }"

definition del_timer :: "machine \<Rightarrow> addr \<Rightarrow> machine option" where
  "del_timer M a = do {
     M \<leftarrow> upd_timer M a (\<lambda>t. t\<lparr>tl_base := False\<rparr>);
     rem_timer_tvec_base M a
   }"

text \<open>
  The loops over a list read the next entry before the current one is moved; the head of the list, where they stop, is the null
  pointer here.
\<close>

definition next_in :: "addr list \<Rightarrow> addr \<Rightarrow> addr" where
  "next_in xs a = (case dropWhile (\<lambda>b. b \<noteq> a) xs of _ # b # _ \<Rightarrow> b | _ \<Rightarrow> NULL)"

definition first_in :: "addr list \<Rightarrow> addr" where
  "first_in xs = (case xs of [] \<Rightarrow> NULL | a # _ \<Rightarrow> a)"

partial_function (option) cascate_loop :: "machine \<Rightarrow> nat \<Rightarrow> nat \<Rightarrow> addr \<Rightarrow> machine option" where
  "cascate_loop M time_index tv_index it =
     (if it = NULL then Some M
      else let tmp = next_in (get_tv (cpu_base M) tv_index ! time_index) it in
        Option.bind (add_timer_tvec_base (M\<lparr>cpu_base := unlink_timer (cpu_base M) it\<rparr>) it) (\<lambda>M.
          cascate_loop M time_index tv_index tmp))"

definition cascate :: "machine \<Rightarrow> nat \<Rightarrow> nat \<Rightarrow> (nat \<times> machine) option" where
  "cascate M time_index tv_index = do {
     M \<leftarrow> cascate_loop M time_index tv_index (first_in (get_tv (cpu_base M) tv_index ! time_index));
     Some (time_index, M)
   }"

section \<open>Sleeping, alarms and interval timers\<close>

definition SIGALRM :: int where "SIGALRM = 14"
definition SIGPROF :: int where "SIGPROF = 29"

definition ITIMER_REAL :: int where "ITIMER_REAL = 0"
definition ITIMER_VIRTUAL :: int where "ITIMER_VIRTUAL = 1"
definition ITIMER_PROF :: int where "ITIMER_PROF = 2"

definition sleep_on :: "machine \<Rightarrow> (addr \<times> machine) option" where
  "sleep_on M = do {
     let sleeping_task = scheduler_get_current_process (kern M);
     M \<leftarrow> upd_kern_task M sleeping_task (\<lambda>t. t\<lparr>t_state := TASK_UNINTERRUPTIBLE\<rparr>);
     c_assert (\<not> k_no_memory (kern M));
     let entry = init_waitqueue_entry sleeping_task;
     Some (entry, M\<lparr>sleep_queue := add_wait_queue (sleep_queue M) entry\<rparr>)
   }"

definition sleep_timeout :: "machine \<Rightarrow> u32 \<Rightarrow> machine option" where
  "sleep_timeout M data = do {
     c_assert (data \<noteq> NULL);
     sd \<leftarrow> m_sleep_data M data;
     (res, K) \<leftarrow> default_wake_function (kern M) (sd_entry sd);
     let M = M\<lparr>kern := K\<rparr>;
     Some (if res = 1 then M\<lparr>sleep_queue := remove_wait_queue (sleep_queue M) (sd_entry sd)\<rparr> else M)
   }"

definition sys_nanosleep :: "machine \<Rightarrow> timespec \<Rightarrow> addr \<Rightarrow> (int \<times> machine) option" where
  "sys_nanosleep M req rem = (case m_kmalloc M of [] \<Rightarrow> None
   | data # as \<Rightarrow> do {
       c_assert (data \<noteq> NULL);
       (sleep_timer, M) \<leftarrow> kmalloc_timer (M\<lparr>m_kmalloc := as\<rparr>);
       M \<leftarrow> init_timer M sleep_timer;
       M \<leftarrow> upd_timer M sleep_timer (\<lambda>t. t\<lparr>tl_expires := timer_get_ticks M + TICKS_PER_SECOND * ts_sec req,
              tl_function := Sleep_timeout, tl_data := data\<rparr>);
       (entry, M) \<leftarrow> sleep_on M;
       let M = M\<lparr>m_sleep_data := (m_sleep_data M)(data \<mapsto> \<lparr>sd_entry = entry, sd_rem = rem\<rparr>)\<rparr>;
       M \<leftarrow> add_timer M sleep_timer;
       Some (- 1, M)
     })"

definition kill :: "sigset_t \<Rightarrow> machine \<Rightarrow> int \<Rightarrow> int \<Rightarrow> machine option" where
  "kill junk M pid sig = do { (_, K) \<leftarrow> sys_kill junk (kern M) pid sig; Some (M\<lparr>kern := K\<rparr>) }"

text \<open>The timer that is cleared is that of the current process, whichever process the signal is for.\<close>

definition alarm_timeout :: "sigset_t \<Rightarrow> machine \<Rightarrow> u32 \<Rightarrow> machine option" where
  "alarm_timeout junk M pid = do {
     M \<leftarrow> kill junk M (sint pid) SIGALRM;
     upd_kern_task M (scheduler_get_current_process (kern M)) (\<lambda>t. t\<lparr>t_real_timer := NULL\<rparr>)
   }"

definition start_timer :: "machine \<Rightarrow> addr \<Rightarrow> u32 \<Rightarrow> timer_fn \<Rightarrow> int \<Rightarrow> machine option" where
  "start_timer M timer ticks fn pid = do {
     M \<leftarrow> init_timer M timer;
     M \<leftarrow> upd_timer M timer (\<lambda>t. t\<lparr>tl_expires := timer_get_ticks M + ticks, tl_function := fn, tl_data := word_of_int pid\<rparr>);
     add_timer M timer
   }"

definition sys_alarm :: "machine \<Rightarrow> int \<Rightarrow> (int \<times> machine) option" where
  "sys_alarm M seconds = do {
     let current = scheduler_get_current_process (kern M);
     task \<leftarrow> get_task (kern M) current;
     if t_real_timer task \<noteq> NULL then do {
       M \<leftarrow> del_timer M (t_real_timer task);
       t \<leftarrow> get_timer M (t_real_timer task);
       let result = sint ((tl_expires t - timer_get_ticks M) div TICKS_PER_SECOND);
       if seconds = 0 then do {
         M \<leftarrow> upd_kern_task (M\<lparr>m_timers := (m_timers M)(t_real_timer task := None)\<rparr>) current (\<lambda>t. t\<lparr>t_real_timer := NULL\<rparr>);
         Some (result, M)
       }
       else do {
         M \<leftarrow> start_timer M (t_real_timer task) (TICKS_PER_SECOND * word_of_int seconds) Alarm_timeout (t_pid task);
         Some (result, M)
       }
     }
     else if seconds = 0 then Some (0, M)
     else do {
       (timer, M) \<leftarrow> kmalloc_timer M;
       M \<leftarrow> upd_kern_task M current (\<lambda>t. t\<lparr>t_real_timer := timer\<rparr>);
       M \<leftarrow> start_timer M timer (TICKS_PER_SECOND * word_of_int seconds) Alarm_timeout (t_pid task);
       Some (0, M)
     }
   }"

definition calc_itimerval :: "u32 \<Rightarrow> u32 \<Rightarrow> itimerval" where
  "calc_itimerval incr val =
     \<lparr>it_interval = \<lparr>tv_sec = incr div TICKS_PER_SECOND, tv_usec = incr div TICKS_PER_SECOND * 1000\<rparr>,
      it_value = \<lparr>tv_sec = val div TICKS_PER_SECOND, tv_usec = val div TICKS_PER_SECOND * 1000\<rparr>\<rparr>"

definition ticks_of :: "timeval \<Rightarrow> u32" where
  "ticks_of v = tv_sec v * TICKS_PER_SECOND + tv_usec v * TICKS_PER_SECOND div 1000"

definition update_task_itimerval :: "machine \<Rightarrow> int \<Rightarrow> itimerval \<Rightarrow> machine option" where
  "update_task_itimerval M which v = do {
     let i = ticks_of (it_interval v);
     let n = ticks_of (it_value v);
     let curr = scheduler_get_current_process (kern M);
     if which = ITIMER_REAL then upd_kern_task M curr (\<lambda>t. t\<lparr>it_real_incr := i, it_real_value := n\<rparr>)
     else if which = ITIMER_VIRTUAL then upd_kern_task M curr (\<lambda>t. t\<lparr>it_virt_incr := i, it_virt_value := n\<rparr>)
     else if which = ITIMER_PROF then upd_kern_task M curr (\<lambda>t. t\<lparr>it_prof_incr := i, it_prof_value := n\<rparr>)
     else Some M
   }"

text \<open>The structure that is filled is the last result; \<open>None\<close> when it is left alone.\<close>

definition sys_getitimer :: "machine \<Rightarrow> int \<Rightarrow> (int \<times> itimerval option \<times> machine) option" where
  "sys_getitimer M which =
     (if which < 0 \<or> which > 3 then Some (EINVAL, None, M)
      else do {
        let curr = scheduler_get_current_process (kern M);
        if which = ITIMER_REAL then do {
          task \<leftarrow> get_task (kern M) curr;
          t \<leftarrow> get_timer M (t_real_timer task);
          let val = tl_expires t - timer_get_ticks M;
          M \<leftarrow> upd_kern_task M curr (\<lambda>t. t\<lparr>it_real_value := val\<rparr>);
          Some (0, Some (calc_itimerval (it_real_incr task) val), M)
        }
        else if which = ITIMER_VIRTUAL then do {
          task \<leftarrow> get_task (kern M) curr;
          Some (0, Some (calc_itimerval (it_virt_incr task) (it_virt_value task)), M)
        }
        else if which = ITIMER_PROF then do {
          task \<leftarrow> get_task (kern M) curr;
          Some (0, Some (calc_itimerval (it_prof_incr task) (it_prof_value task)), M)
        }
        else Some (0, None, M)
      })"

definition it_real_fn :: "sigset_t \<Rightarrow> machine \<Rightarrow> u32 \<Rightarrow> machine option" where
  "it_real_fn junk M pid = do {
     cur \<leftarrow> scheduler_get_running_process (kern M) (sint pid);
     M \<leftarrow> kill junk M (sint pid) SIGALRM;
     task \<leftarrow> get_task (kern M) cur;
     if it_real_incr task \<noteq> 0 then do {
       (real_timer, M) \<leftarrow> kmalloc_timer M;
       M \<leftarrow> upd_kern_task M cur (\<lambda>t. t\<lparr>t_real_timer := real_timer\<rparr>);
       start_timer M real_timer (it_real_incr task) It_real_fn (t_pid task)
     }
     else upd_kern_task M cur (\<lambda>t. t\<lparr>t_real_timer := NULL\<rparr>)
   }"

text \<open>A new timer of \<^verbatim>\<open>ITIMER_REAL\<close> is not stored in the task.\<close>

definition sys_setitimer :: "machine \<Rightarrow> int \<Rightarrow> itimerval \<Rightarrow> bool \<Rightarrow> (int \<times> itimerval option \<times> machine) option" where
  "sys_setitimer M which new_value want_old =
     (if which < 0 \<or> which > 3 then Some (EINVAL, None, M)
      else do {
        (_, old, M) \<leftarrow> (if want_old then sys_getitimer M which else Some (0, None, M));
        let interval_ticks = ticks_of (it_interval new_value);
        let cur = scheduler_get_current_process (kern M);
        task \<leftarrow> get_task (kern M) cur;
        if interval_ticks = 0 then do {
          M \<leftarrow> (if which = ITIMER_REAL \<and> t_real_timer task \<noteq> NULL then upd_kern_task M cur (\<lambda>t. t\<lparr>t_real_timer := NULL\<rparr>) else Some M);
          M \<leftarrow> update_task_itimerval M which new_value;
          Some (- 1, old, M)
        }
        else do {
          M \<leftarrow> (if which = ITIMER_REAL then do {
                 (timer, M) \<leftarrow> (if t_real_timer task \<noteq> NULL then do {
                     M \<leftarrow> del_timer M (t_real_timer task);
                     Some (t_real_timer task, M)
                   }
                   else kmalloc_timer M);
                 start_timer M timer interval_ticks It_real_fn (t_pid task)
               }
               else Some M);
          M \<leftarrow> update_task_itimerval M which new_value;
          Some (- 1, old, M)
        }
      })"

definition update_process_profiling_timer :: "sigset_t \<Rightarrow> machine \<Rightarrow> addr \<Rightarrow> machine option" where
  "update_process_profiling_timer junk M proc = do {
     t \<leftarrow> get_task (kern M) proc;
     if it_prof_incr t \<noteq> 0 then do {
       let val = it_prof_value t + exec_runtime (t_se t);
       M \<leftarrow> upd_kern_task M proc (\<lambda>t. t\<lparr>it_prof_value := val\<rparr>);
       if val \<ge> it_prof_incr t then do {
         M \<leftarrow> kill junk M (t_pid t) SIGPROF;
         upd_kern_task M proc (\<lambda>t. t\<lparr>it_prof_value := 0\<rparr>)
       }
       else Some M
     }
     else Some M
   }"

section \<open>Running the timers\<close>

definition call_function :: "sigset_t \<Rightarrow> machine \<Rightarrow> timer_fn \<Rightarrow> u32 \<Rightarrow> machine option" where
  "call_function junk M fn data = (case fn of
     Sleep_timeout \<Rightarrow> sleep_timeout M data
   | Alarm_timeout \<Rightarrow> alarm_timeout junk M data
   | It_real_fn \<Rightarrow> it_real_fn junk M data)"

definition set_lock :: "bool \<Rightarrow> machine \<Rightarrow> machine" where
  "set_lock l M = M\<lparr>cpu_base := (cpu_base M)\<lparr>tb_lock := l\<rparr>\<rparr>"

text \<open>One timer: its function is called without the lock, then it is unlinked and freed.\<close>

definition fire_timer :: "sigset_t \<Rightarrow> machine \<Rightarrow> addr \<Rightarrow> machine option" where
  "fire_timer junk M it = do {
     t \<leftarrow> get_timer M it;
     M \<leftarrow> call_function junk (set_lock False M) (tl_function t) (tl_data t);
     c_assert (\<not> tb_lock (cpu_base M));
     let M = set_lock True M;
     Some (M\<lparr>cpu_base := unlink_timer (cpu_base M) it, m_timers := (m_timers M)(it := None)\<rparr>)
   }"

partial_function (option) fire_loop :: "sigset_t \<Rightarrow> machine \<Rightarrow> nat \<Rightarrow> addr \<Rightarrow> machine option" where
  "fire_loop junk M index it =
     (if it = NULL then Some M
      else let tmp = next_in (tv1 (cpu_base M) ! index) it in
        Option.bind (fire_timer junk M it) (\<lambda>M. fire_loop junk M index tmp))"

text \<open>The next vector is looked at only when the index in this one is 0.\<close>

fun cascate_from :: "machine \<Rightarrow> nat list \<Rightarrow> machine option" where
  "cascate_from M [] = Some M"
| "cascate_from M (k # ks) = do {
     (i, M) \<leftarrow> cascate M (unat (drop_bit (TIMER_TICKS_BITS (k - 2)) (timer_ticks (cpu_base M)) AND TVN_MASK)) k;
     if i = 0 then cascate_from M ks else Some M
   }"

definition run_tick :: "sigset_t \<Rightarrow> machine \<Rightarrow> machine option" where
  "run_tick junk M = do {
     let current_time_index = unat (timer_ticks (cpu_base M) AND TVR_MASK);
     M \<leftarrow> (if current_time_index = 0 then cascate_from M [2, 3, 4, 5] else Some M);
     M \<leftarrow> fire_loop junk M current_time_index (first_in (tv1 (cpu_base M) ! current_time_index));
     Some (M\<lparr>cpu_base := (cpu_base M)\<lparr>timer_ticks := timer_ticks (cpu_base M) + 1\<rparr>\<rparr>)
   }"

partial_function (option) run_loop :: "sigset_t \<Rightarrow> machine \<Rightarrow> u32 \<Rightarrow> machine option" where
  "run_loop junk M current_ticks =
     (if timer_ticks (cpu_base M) \<le> current_ticks then Option.bind (run_tick junk M) (\<lambda>M. run_loop junk M current_ticks)
      else Some M)"

definition run_timer_softirq :: "sigset_t \<Rightarrow> machine \<Rightarrow> machine option" where
  "run_timer_softirq junk M = do {
     c_assert (\<not> tb_lock (cpu_base M));
     M \<leftarrow> run_loop junk (set_lock True M) (timer_get_ticks M);
     let M = M\<lparr>cpu_base := (cpu_base M)\<lparr>running_timer := NULL\<rparr>\<rparr>;
     Some (set_lock False M)
   }"

text \<open>The two interrupt handlers of the timer: the counter, and the timers followed by the scheduler. The update of the screen is left out.\<close>

definition pit_interrupt :: "machine \<Rightarrow> int \<times> machine" where
  "pit_interrupt M = (1, M\<lparr>kern := (kern M)\<lparr>k_ticks := k_ticks (kern M) + 1\<rparr>\<rparr>)"

definition timer_handler :: "sigset_t \<Rightarrow> machine \<Rightarrow> pt_regs \<Rightarrow> (int \<times> machine \<times> pt_regs) option" where
  "timer_handler junk M regs = do {
     M \<leftarrow> run_timer_softirq junk M;
     (K, regs) \<leftarrow> scheduler_run junk (kern M) regs;
     Some (0, M\<lparr>kern := K\<rparr>, regs)
   }"

end
