(* ===== verification/Timer_Wheel.thy ===== *)
theory Timer_Wheel
  imports Timer
begin

text \<open>
  The timer wheel: where it keeps a timer, an invariant, that linking and unlinking timers keep it, and that the cascade moves the
  timers of a tick down to the first vector.

  A timer that expires at \<open>e\<close> is in the vector \<open>k\<close> at the entry \<open>e div width k\<close>, taken modulo the size of the vector; the
  invariant \<open>placed\<close> bounds how far the time that entry stands for is ahead of the tick \<open>T\<close> that is processed next.
\<close>

section \<open>Slots\<close>

definition tv_size :: "nat \<Rightarrow> nat" where
  "tv_size k = (if k = 1 then TVR_SIZE else TVN_SIZE)"

definition width :: "nat \<Rightarrow> nat" where
  "width k = (if k = 1 then 1 else 2 ^ TIMER_TICKS_BITS (k - 2))"

abbreviation slot :: "tvec_base_t \<Rightarrow> nat \<Rightarrow> nat \<Rightarrow> addr list" where
  "slot B k i \<equiv> get_tv B k ! i"

definition levels :: "nat set" where
  "levels = {1, 2, 3, 4, 5}"

definition sized :: "tvec_base_t \<Rightarrow> bool" where
  "sized B \<longleftrightarrow> (\<forall>k \<in> levels. length (get_tv B k) = tv_size k)"

lemma get_tv_map_tv:
  "k \<in> levels \<Longrightarrow> j \<in> levels \<Longrightarrow> get_tv (map_tv f B k) j = (if j = k then f (get_tv B k) else get_tv B j)"
  by (auto simp: get_tv_def map_tv_def levels_def)

lemma map_tv_rest [simp]:
  "timer_ticks (map_tv f B k) = timer_ticks B" "tb_lock (map_tv f B k) = tb_lock B" "running_timer (map_tv f B k) = running_timer B"
  by (simp_all add: map_tv_def)

lemma get_tv_other [simp]:
  "get_tv (B\<lparr>timer_ticks := t\<rparr>) k = get_tv B k" "get_tv (B\<lparr>tb_lock := l\<rparr>) k = get_tv B k" "get_tv (B\<lparr>running_timer := r\<rparr>) k = get_tv B k"
  by (simp_all add: get_tv_def)

lemma get_tv_unlink: "k \<in> levels \<Longrightarrow> get_tv (unlink_timer B a) k = map (remove1 a) (get_tv B k)"
  by (auto simp: unlink_timer_def get_tv_map_tv levels_def)

lemma unlink_rest [simp]:
  "timer_ticks (unlink_timer B a) = timer_ticks B" "tb_lock (unlink_timer B a) = tb_lock B" "running_timer (unlink_timer B a) = running_timer B"
  by (simp_all add: unlink_timer_def)

lemma link_rest [simp]:
  "timer_ticks (link_timer B e a) = timer_ticks B" "tb_lock (link_timer B e a) = tb_lock B" "running_timer (link_timer B e a) = running_timer B"
  by (simp_all add: link_timer_def split: prod.split)

lemma get_tv_link:
  assumes "find_tvec B e = (i, k)" "k \<in> levels" "j \<in> levels"
  shows "get_tv (link_timer B e a) j = (if j = k then (get_tv B k)[i := slot B k i @ [a]] else get_tv B j)"
  using assms by (simp add: link_timer_def get_tv_map_tv)

section \<open>Where a timer is put\<close>

definition ceil_div :: "nat \<Rightarrow> nat \<Rightarrow> nat" where
  "ceil_div n d = (n + d - 1) div d"

text \<open>
  \<open>placed done T k i e\<close>: a timer that expires at \<open>e\<close> may be in the entry \<open>i\<close> of the vector \<open>k\<close> before the tick \<open>T\<close>. For the
  vectors in \<open>done\<close> the entry of the tick itself has been moved down.
\<close>

definition placed :: "nat set \<Rightarrow> nat \<Rightarrow> nat \<Rightarrow> nat \<Rightarrow> nat \<Rightarrow> bool" where
  "placed done T k i e \<longleftrightarrow> i = e div width k mod tv_size k \<and> T \<le> e
     \<and> (if k = 1 then e < T + TVR_SIZE
        else (if k \<in> done then T div width k < e div width k else ceil_div T (width k) \<le> e div width k)
          \<and> e div width k < ceil_div T (width k) + TVN_SIZE)"

lemma width_pos [simp]: "0 < width k"
  by (simp add: width_def)

lemma levels_cases:
  assumes "k \<in> levels"
  obtains "k = 1" | "k = 2" | "k = 3" | "k = 4" | "k = 5"
  using assms unfolding levels_def by blast

lemma ceil_div_multiple: "0 < d \<Longrightarrow> d dvd n \<Longrightarrow> ceil_div n d = n div d"
  by (elim dvdE) (simp add: ceil_div_def div_mult_self4 add.commute [of _ "d - 1"] flip: Nat.add_diff_assoc)

lemma ceil_div_other:
  assumes "0 < d" "\<not> d dvd n"
  shows "ceil_div n d = n div d + 1"
proof -
  define q r where "q = n div d" and "r = n mod d"
  have n: "n = d * q + r" by (simp add: q_def r_def)
  have r: "0 < r" "r < d" using assms by (simp_all add: r_def dvd_eq_mod_eq_0)
  then have "(n + d - 1) div d = q + 1" unfolding n by (intro div_nat_eqI) (simp_all add: algebra_simps)
  then show ?thesis by (simp add: ceil_div_def q_def)
qed

lemma ceil_div_Suc: "0 < d \<Longrightarrow> ceil_div (Suc n) d = n div d + 1"
  by (simp add: ceil_div_def div_add_self2)

text \<open>A distance of at least one and less than 64 widths.\<close>

lemma placed_far:
  assumes "0 < d" "d \<le> e - T" "T \<le> e" "e - T < 64 * d"
  shows "T div d < e div d" "ceil_div T d \<le> e div d" "e div d < ceil_div T d + 64"
proof -
  have "(T + d) div d \<le> e div d" using assms by (intro div_le_mono) simp
  then show 1: "T div d < e div d" using assms(1) by (simp add: div_add_self2)
  show "ceil_div T d \<le> e div d" using 1 assms(1) by (cases "d dvd T") (simp_all add: ceil_div_multiple ceil_div_other)
  have "e \<le> (T + d - 1) + 63 * d" using assms by linarith
  then have "e div d \<le> ((T + d - 1) + 63 * d) div d" by (rule div_le_mono)
  also have "\<dots> = ceil_div T d + 63" using assms(1) unfolding ceil_div_def by (subst div_mult_self1) simp_all
  finally show "e div d < ceil_div T d + 64" by simp
qed

text \<open>The choice of \<^verbatim>\<open>__find_tvec\<close> for a timer that is not in the past and less than half of the range of the counter ahead.\<close>

lemma unat_mask: "unat (w AND TVR_MASK) = unat w mod 256" "unat (w AND TVN_MASK) = unat w mod 64" for w :: u32
proof -
  have "w AND mask 8 = take_bit 8 w" "w AND mask 6 = take_bit 6 w" by (simp_all add: take_bit_eq_mask)
  then show "unat (w AND TVR_MASK) = unat w mod 256" "unat (w AND TVN_MASK) = unat w mod 64"
    by (simp_all add: tv_defs mask_eq_exp_minus_1 take_bit_eq_mod unat_mod)
qed

lemma unat_drop: "unat (drop_bit n w) = unat w div 2 ^ n" for w :: u32
  unfolding unat_drop_bit_eq by (rule drop_bit_eq_div)

definition near :: "nat \<Rightarrow> nat \<Rightarrow> bool" where
  "near T e \<longleftrightarrow> T \<le> e \<and> e - T < 2147483648"

lemma unat_ticks:
  assumes "near (unat (t :: u32)) (unat e)"
  shows "unat (e - t) = unat e - unat t" "\<not> sint (e - t) < 0"
proof -
  have le: "t \<le> e" using assms by (simp add: near_def word_le_nat_alt)
  then show u: "unat (e - t) = unat e - unat t" by (simp add: unat_sub)
  then have "unat (e - t) < 2147483648" using assms by (simp add: near_def)
  then have "uint (e - t) < 2147483648" by (simp only: uint_nat)
  moreover have "- 2147483648 \<le> uint (e - t)" by (rule order_trans [of _ 0]) simp_all
  ultimately have "sint (e - t) = uint (e - t)" unfolding sint_uint by (intro signed_take_bit_int_eq_self) simp_all
  then show "\<not> sint (e - t) < 0" by simp
qed

lemma find_tvec_cases:
  assumes near: "near (unat (timer_ticks B)) (unat e)"
  defines "d \<equiv> unat e - unat (timer_ticks B)"
  shows "find_tvec B e = (let k = (if d < 256 then 1 else if d < 16384 then 2 else if d < 1048576 then 3 else if d < 67108864 then 4 else 5)
    in (unat e div width k mod tv_size k, k))"
proof -
  have d: "unat (e - timer_ticks B) = d" "\<not> sint (e - timer_ticks B) < 0" using unat_ticks [OF near] by (simp_all add: d_def)
  have less: "e - timer_ticks B < TIMER_TICKS n \<longleftrightarrow> d < 2 ^ TIMER_TICKS_BITS n" if "n < 4" for n
  proof -
    have "n = 0 \<or> n = 1 \<or> n = 2 \<or> n = 3" using that by linarith
    then have "unat (TIMER_TICKS n) = 2 ^ TIMER_TICKS_BITS n" by (elim disjE) (simp_all add: TIMER_TICKS_def TIMER_TICKS_BITS_def)
    then show ?thesis by (simp add: word_less_nat_alt d(1))
  qed
  show ?thesis
    unfolding find_tvec_def Let_def if_not_P [OF d(2)]
    by (simp only: less unat_mask unat_drop Let_def) (simp add: width_def tv_size_def TVN_SIZE_def TVR_SIZE_def TIMER_TICKS_BITS_def)
qed

lemma find_tvec_placed:
  assumes near: "near (unat (timer_ticks B)) (unat e)" and f: "find_tvec B e = (i, k)"
  shows "placed done (unat (timer_ticks B)) k i (unat e)" "k \<in> levels" "i < tv_size k"
    "k = 1 \<or> width k \<le> unat e - unat (timer_ticks B)"
proof -
  define T E where "T = unat (timer_ticks B)" and "E = unat e"
  have le: "T \<le> E" "E - T < 2147483648" using near by (simp_all add: near_def T_def E_def)
  have "i = E div width k mod tv_size k" and kd: "k = (if E - T < 256 then 1 else if E - T < 16384 then 2 else if E - T < 1048576 then 3 else if E - T < 67108864 then 4 else 5)"
    using find_tvec_cases [OF near] f unfolding Let_def T_def E_def by auto
  have k: "k = 1 \<and> E - T < 256 \<or> k \<in> levels \<and> k \<noteq> 1 \<and> width k \<le> E - T \<and> E - T < 64 * width k"
    unfolding kd using le(2) by (simp add: width_def TIMER_TICKS_BITS_def levels_def)
  show "k \<in> levels" using k by (auto simp: levels_def)
  show "k = 1 \<or> width k \<le> unat e - unat (timer_ticks B)" using k by (auto simp: T_def E_def)
  show "i < tv_size k" using \<open>i = _\<close> by (simp add: tv_size_def tv_defs)
  show "placed done (unat (timer_ticks B)) k i (unat e)"
    unfolding T_def [symmetric] E_def [symmetric]
  proof (cases "k = 1")
    case True
    then show "placed done T k i E" using k le(1) \<open>i = _\<close> by (auto simp: placed_def TVR_SIZE_def)
  next
    case False
    then show "placed done T k i E" using k le(1) \<open>i = _\<close> placed_far [of "width k" E T] by (simp add: placed_def TVN_SIZE_def)
  qed
qed

section \<open>The invariant of the wheel\<close>

definition in_slot :: "tvec_base_t \<Rightarrow> nat \<Rightarrow> nat \<Rightarrow> addr \<Rightarrow> bool" where
  "in_slot B k i a \<longleftrightarrow> k \<in> levels \<and> i < tv_size k \<and> a \<in> set (slot B k i)"

definition listed :: "tvec_base_t \<Rightarrow> addr set" where
  "listed B = {a. \<exists>k i. in_slot B k i a}"

definition timer_placed :: "nat set \<Rightarrow> (addr \<rightharpoonup> timer_list) \<Rightarrow> nat \<Rightarrow> nat \<Rightarrow> nat \<Rightarrow> addr \<Rightarrow> bool" where
  "timer_placed done TM T k i a \<longleftrightarrow> a \<noteq> NULL \<and> (\<exists>t. TM a = Some t \<and> near T (unat (tl_expires t)) \<and> placed done T k i (unat (tl_expires t)))"

definition wheel :: "nat set \<Rightarrow> (addr \<rightharpoonup> timer_list) \<Rightarrow> tvec_base_t \<Rightarrow> bool" where
  "wheel done TM B \<longleftrightarrow> sized B \<and> (\<forall>k i. k \<in> levels \<longrightarrow> i < tv_size k \<longrightarrow> distinct (slot B k i))
     \<and> (\<forall>k i a. in_slot B k i a \<longrightarrow> timer_placed done TM (unat (timer_ticks B)) k i a)
     \<and> (\<forall>k i j l a. in_slot B k i a \<longrightarrow> in_slot B j l a \<longrightarrow> k = j \<and> i = l)"

lemma wheelD:
  assumes "wheel done TM B"
  shows "sized B" "k \<in> levels \<Longrightarrow> i < tv_size k \<Longrightarrow> distinct (slot B k i)"
    "in_slot B k i a \<Longrightarrow> timer_placed done TM (unat (timer_ticks B)) k i a" "in_slot B k i a \<Longrightarrow> in_slot B j l a \<Longrightarrow> k = j \<and> i = l"
  using assms unfolding wheel_def by blast+

lemma slot_unlink: "sized B \<Longrightarrow> k \<in> levels \<Longrightarrow> i < tv_size k \<Longrightarrow> slot (unlink_timer B a) k i = remove1 a (slot B k i)"
  by (simp add: get_tv_unlink sized_def)

lemma sized_unlink: "sized B \<Longrightarrow> sized (unlink_timer B a)"
  by (simp add: sized_def get_tv_unlink)

lemma in_slot_unlink: "wheel done TM B \<Longrightarrow> in_slot (unlink_timer B a) k i b \<longleftrightarrow> in_slot B k i b \<and> b \<noteq> a"
  using wheelD(1,2) [of "done" TM B] unfolding in_slot_def by (auto simp: slot_unlink)

lemma wheel_unlink:
  assumes "wheel done TM B"
  shows "wheel done TM (unlink_timer B a)" "listed (unlink_timer B a) = listed B - {a}"
proof -
  note W = wheelD [OF assms] and I = in_slot_unlink [OF assms]
  have "distinct (slot (unlink_timer B a) k i)" if "k \<in> levels" "i < tv_size k" for k i
    using W(1,2) that by (simp add: slot_unlink)
  then show "wheel done TM (unlink_timer B a)" unfolding wheel_def I using sized_unlink [OF W(1)] W(3,4) by simp blast
  show "listed (unlink_timer B a) = listed B - {a}" unfolding listed_def I by blast
qed

lemma slot_link:
  assumes "sized B" "find_tvec B e = (i0, k0)" "k0 \<in> levels" "k \<in> levels" "i < tv_size k"
  shows "slot (link_timer B e a) k i = (if k = k0 \<and> i = i0 then slot B k i @ [a] else slot B k i)"
  using assms by (auto simp: get_tv_link sized_def nth_list_update)

lemma sized_link: "sized B \<Longrightarrow> find_tvec B e = (i0, k0) \<Longrightarrow> k0 \<in> levels \<Longrightarrow> sized (link_timer B e a)"
  by (simp add: sized_def get_tv_link)

lemma wheel_link:
  assumes w: "wheel done TM B" and a: "a \<notin> listed B" "a \<noteq> NULL" "TM a = Some t" "near (unat (timer_ticks B)) (unat (tl_expires t))"
    and f: "find_tvec B (tl_expires t) = (i0, k0)"
  shows "wheel done TM (link_timer B (tl_expires t) a)" "listed (link_timer B (tl_expires t) a) = insert a (listed B)"
    "in_slot (link_timer B (tl_expires t) a) k i b \<longleftrightarrow> in_slot B k i b \<or> (b = a \<and> k = k0 \<and> i = i0)"
proof -
  note W = wheelD [OF w]
  note P = find_tvec_placed [OF a(4) f]
  have I: "in_slot (link_timer B (tl_expires t) a) k i b \<longleftrightarrow> in_slot B k i b \<or> (b = a \<and> k = k0 \<and> i = i0)" for k i b
    unfolding in_slot_def using slot_link [OF W(1) f P(2), of k i a] P(2,3) by (auto split: if_splits)
  then show "in_slot (link_timer B (tl_expires t) a) k i b \<longleftrightarrow> in_slot B k i b \<or> (b = a \<and> k = k0 \<and> i = i0)" .
  have d: "distinct (slot (link_timer B (tl_expires t) a) k i)" if "k \<in> levels" "i < tv_size k" for k i
    using W(2) [OF that] a(1) that unfolding slot_link [OF W(1) f P(2) that] listed_def in_slot_def by auto
  have p: "timer_placed done TM (unat (timer_ticks B)) k0 i0 a" using P(1) a by (auto simp: timer_placed_def)
  have n: "\<not> in_slot B k i a" for k i using a(1) by (auto simp: listed_def)
  show "wheel done TM (link_timer B (tl_expires t) a)"
    unfolding wheel_def I link_rest using sized_link [OF W(1) f P(2)] d p n W(3,4) by simp
  show "listed (link_timer B (tl_expires t) a) = insert a (listed B)" unfolding listed_def I by blast
qed

lemma wheel_timers_cong: "wheel done TM B \<Longrightarrow> (\<And>a. a \<in> listed B \<Longrightarrow> TM' a = TM a) \<Longrightarrow> wheel done TM' B"
  unfolding wheel_def timer_placed_def listed_def by simp metis

lemma wheel_other [simp]:
  "wheel done TM (B\<lparr>tb_lock := l\<rparr>) = wheel done TM B" "listed (B\<lparr>tb_lock := l\<rparr>) = listed B"
  "wheel done TM (B\<lparr>running_timer := r\<rparr>) = wheel done TM B" "listed (B\<lparr>running_timer := r\<rparr>) = listed B"
  "listed (B\<lparr>timer_ticks := n\<rparr>) = listed B"
  by (simp_all add: wheel_def sized_def in_slot_def listed_def)

section \<open>Moving timers down\<close>

text \<open>The timers in the entry of the tick itself expire within its width.\<close>

lemma current_slot:
  assumes "placed done T k i e" "k \<in> levels" "k \<noteq> 1" "k \<notin> done" "width k dvd T" "i = T div width k mod TVN_SIZE"
  shows "e div width k = T div width k" "e - T < width k"
proof -
  have e: "T div width k \<le> e div width k" "e div width k < T div width k + 64" "e div width k mod 64 = T div width k mod 64" "T \<le> e"
    using assms by (simp_all add: placed_def ceil_div_multiple tv_size_def tv_defs)
  have "64 dvd e div width k - T div width k" using mod_eq_dvd_iff_nat [OF e(1)] e(3) by simp
  then have "\<not> 0 < e div width k - T div width k" using e(2) nat_dvd_not_less [of "e div width k - T div width k" 64] by linarith
  then show eq: "e div width k = T div width k" using e(1) by simp
  have "e < (T div width k + 1) * width k" using eq dividend_less_div_times [of "width k" e] by simp
  moreover have "T div width k * width k = T" using assms(5) by simp
  ultimately show "e - T < width k" using e(4) by (simp add: less_diff_conv2)
qed

lemma first_in_Cons [simp]: "first_in (a # as) = a" "first_in [] = NULL"
  by (simp_all add: first_in_def)

lemma next_in_first [simp]: "next_in (a # as) a = first_in as"
  by (simp add: next_in_def first_in_def split: list.split)

lemma cascate_step:
  assumes w: "wheel done TM B" and k: "k \<in> levels" "k \<noteq> 1" "k \<notin> done" "width k dvd unat (timer_ticks B)"
    and i: "i = unat (timer_ticks B) div width k mod TVN_SIZE" and s: "slot B k i = a # as" and t: "TM a = Some t"
  defines "B' \<equiv> link_timer (unlink_timer B a) (tl_expires t) a"
  shows "wheel done TM B'" "listed B' = listed B" "slot B' k i = as" "a \<noteq> NULL"
proof -
  have iB: "i < tv_size k" using i k(2) by (simp add: tv_size_def tv_defs)
  have ia: "in_slot B k i a" using k(1) iB s by (simp add: in_slot_def)
  then have p: "a \<noteq> NULL" "near (unat (timer_ticks B)) (unat (tl_expires t))" "placed done (unat (timer_ticks B)) k i (unat (tl_expires t))"
    using wheelD(3) [OF w ia] t by (auto simp: timer_placed_def)
  show "a \<noteq> NULL" by (fact p)
  note U = wheel_unlink [OF w, of a]
  have na: "a \<notin> listed (unlink_timer B a)" using U(2) by simp
  obtain i0 k0 where f: "find_tvec (unlink_timer B a) (tl_expires t) = (i0, k0)" by fastforce
  have n': "near (unat (timer_ticks (unlink_timer B a))) (unat (tl_expires t))" using p(2) by simp
  note L = wheel_link [OF U(1) na p(1) t n' f]
  show "wheel done TM B'" unfolding B'_def by (fact L(1))
  have "a \<in> listed B" using ia by (auto simp: listed_def)
  then show "listed B' = listed B" unfolding B'_def L(2) U(2) by blast
  have "unat (tl_expires t) - unat (timer_ticks B) < width k" using current_slot(2) [OF p(3) k i] .
  then have "k0 \<noteq> k" using find_tvec_placed(4) [OF n' f] k(2) by auto
  then show "slot B' k i = as"
    unfolding B'_def using slot_link [OF wheelD(1) [OF U(1)] f find_tvec_placed(2) [OF n' f] k(1) iB] slot_unlink [OF wheelD(1) [OF w] k(1) iB] s by simp
qed

lemma cascate_loop_ok:
  assumes "wheel done (m_timers M) (cpu_base M)" "k \<in> levels" "k \<noteq> 1" "k \<notin> done" "width k dvd unat (timer_ticks (cpu_base M))"
    "i = unat (timer_ticks (cpu_base M)) div width k mod TVN_SIZE" "slot (cpu_base M) k i = as"
  shows "\<exists>B'. cascate_loop M i k (first_in as) = Some (M\<lparr>cpu_base := B'\<rparr>) \<and> wheel done (m_timers M) B' \<and> listed B' = listed (cpu_base M)
    \<and> slot B' k i = [] \<and> timer_ticks B' = timer_ticks (cpu_base M) \<and> tb_lock B' = tb_lock (cpu_base M)"
  using assms
proof (induction as arbitrary: M)
  case Nil
  then show ?case by (intro exI [of _ "cpu_base M"]) (simp add: cascate_loop.simps)
next
  case (Cons a as)
  define B where "B = cpu_base M"
  have iB: "i < tv_size k" using Cons.prems(3,6) by (simp add: tv_size_def tv_defs)
  have "in_slot B k i a" using Cons.prems(2,7) iB by (simp add: in_slot_def B_def)
  then obtain t where t: "m_timers M a = Some t" using wheelD(3) [OF Cons.prems(1), of k i a] by (auto simp: timer_placed_def B_def)
  define B' where "B' = link_timer (unlink_timer B a) (tl_expires t) a"
  note S = cascate_step [OF Cons.prems(1-7) t, folded B_def, folded B'_def]
  have "cascate_loop M i k a = cascate_loop (M\<lparr>cpu_base := B'\<rparr>) i k (first_in as)"
    using S(4) Cons.prems(7) t
    by (subst cascate_loop.simps) (simp add: add_timer_tvec_base_def get_timer_def B'_def B_def)
  moreover have "timer_ticks B' = timer_ticks B" "tb_lock B' = tb_lock B" by (simp_all add: B'_def)
  ultimately show ?case
    using Cons.IH [of "M\<lparr>cpu_base := B'\<rparr>"] Cons.prems(2-6) S(1-3) by (simp add: B_def)
qed

lemma wheel_done_insert:
  assumes w: "wheel done TM B" and k: "k \<in> levels" "k \<noteq> 1" "width k dvd unat (timer_ticks B)"
    and s: "slot B k (unat (timer_ticks B) div width k mod TVN_SIZE) = []"
  shows "wheel (insert k done) TM B"
proof -
  have "timer_placed (insert k done) TM (unat (timer_ticks B)) j i a" if a: "in_slot B j i a" for j i a
  proof -
    obtain t where t: "a \<noteq> NULL" "TM a = Some t" "near (unat (timer_ticks B)) (unat (tl_expires t))" "placed done (unat (timer_ticks B)) j i (unat (tl_expires t))"
      using wheelD(3) [OF w a] by (auto simp: timer_placed_def)
    have "unat (timer_ticks B) div width k \<noteq> unat (tl_expires t) div width k" if "j = k"
    proof
      assume "unat (timer_ticks B) div width k = unat (tl_expires t) div width k"
      then have "i = unat (timer_ticks B) div width k mod TVN_SIZE" using t(4) that k(2) by (simp add: placed_def tv_size_def)
      then show False using s a that by (simp add: in_slot_def)
    qed
    then have "placed (insert k done) (unat (timer_ticks B)) j i (unat (tl_expires t))"
      using t(4) k by (cases "k \<in> done") (auto simp: placed_def ceil_div_multiple insert_absorb)
    then show ?thesis using t by (auto simp: timer_placed_def)
  qed
  then show ?thesis using w unfolding wheel_def by blast
qed

lemma wheel_done_all:
  assumes w: "wheel done TM B" and n: "\<And>k. k \<in> levels \<Longrightarrow> k \<noteq> 1 \<Longrightarrow> k \<notin> done \<Longrightarrow> \<not> width k dvd unat (timer_ticks B)"
  shows "wheel levels TM B"
proof -
  have "placed levels (unat (timer_ticks B)) k i e" if "placed done (unat (timer_ticks B)) k i e" "k \<in> levels" for k i e
    using that n [of k] by (auto simp: placed_def ceil_div_other split: if_splits)
  then have "timer_placed levels TM (unat (timer_ticks B)) k i a" if "in_slot B k i a" for k i a
    using wheelD(3) [OF w that] that by (auto simp: timer_placed_def in_slot_def)
  then show ?thesis using w unfolding wheel_def by blast
qed

lemma width_dvd: "2 \<le> i \<Longrightarrow> i \<le> j \<Longrightarrow> width i dvd width j"
  by (simp add: width_def TIMER_TICKS_BITS_def le_imp_power_dvd)

lemma width_Suc: "2 \<le> k \<Longrightarrow> width (Suc k) = width k * 64"
  by (drule le_Suc_ex) (auto simp: width_def TIMER_TICKS_BITS_def power_add)

lemma dvd_width_Suc:
  assumes "2 \<le> k" "width k dvd T"
  shows "width (Suc k) dvd T \<longleftrightarrow> T div width k mod TVN_SIZE = 0"
proof -
  obtain c where "T = width k * c" using assms(2) by (elim dvdE)
  then show ?thesis using assms(1) width_pos [of k] by (simp add: width_Suc tv_defs dvd_eq_mod_eq_0 [of 64 c, symmetric] del: width_pos)
qed

lemma cascate_ok:
  assumes w: "wheel done (m_timers M) (cpu_base M)" and k: "k \<in> levels" "k \<noteq> 1" "k \<notin> done" "width k dvd unat (timer_ticks (cpu_base M))"
  defines "i \<equiv> unat (timer_ticks (cpu_base M)) div width k mod TVN_SIZE"
  shows "\<exists>B'. cascate M i k = Some (i, M\<lparr>cpu_base := B'\<rparr>) \<and> wheel (insert k done) (m_timers M) B' \<and> listed B' = listed (cpu_base M)
    \<and> timer_ticks B' = timer_ticks (cpu_base M) \<and> tb_lock B' = tb_lock (cpu_base M)"
proof -
  obtain B' where B': "cascate_loop M i k (first_in (slot (cpu_base M) k i)) = Some (M\<lparr>cpu_base := B'\<rparr>)" "wheel done (m_timers M) B'"
    "listed B' = listed (cpu_base M)" "slot B' k i = []" "timer_ticks B' = timer_ticks (cpu_base M)" "tb_lock B' = tb_lock (cpu_base M)"
    using cascate_loop_ok [OF w k i_def [THEN meta_eq_to_obj_eq] refl] by blast
  then have "wheel (insert k done) (m_timers M) B'" using k by (intro wheel_done_insert) (simp_all add: i_def)
  then show ?thesis using B' by (intro exI [of _ B']) (simp add: cascate_def)
qed

lemma unat_index: "k \<noteq> 1 \<Longrightarrow> unat (drop_bit (TIMER_TICKS_BITS (k - 2)) t AND TVN_MASK) = unat t div width k mod TVN_SIZE" for t :: u32
  by (simp add: unat_mask unat_drop width_def TVN_SIZE_def)

lemma cascate_from_ok:
  assumes "wheel {2..<k} (m_timers M) (cpu_base M)" "2 \<le> k" "k \<le> 6" "k \<le> 5 \<longrightarrow> width k dvd unat (timer_ticks (cpu_base M))"
  shows "\<exists>B'. cascate_from M [k..<6] = Some (M\<lparr>cpu_base := B'\<rparr>) \<and> wheel levels (m_timers M) B' \<and> listed B' = listed (cpu_base M)
    \<and> timer_ticks B' = timer_ticks (cpu_base M) \<and> tb_lock B' = tb_lock (cpu_base M)"
  using assms
proof (induction "6 - k" arbitrary: k M)
  case 0
  then have "k = 6" by simp
  moreover have "wheel levels (m_timers M) (cpu_base M)"
    using 0 by (intro wheel_done_all [of "{2..<k}"]) (auto simp: levels_def)
  ultimately show ?case by (intro exI [of _ "cpu_base M"]) simp
next
  case (Suc n)
  define T where "T = unat (timer_ticks (cpu_base M))"
  have k: "k < 6" "k \<in> levels" "k \<noteq> 1" "k \<notin> {2..<k}" "width k dvd T" using Suc.hyps(2) Suc.prems by (auto simp: levels_def T_def)
  obtain B' where B': "cascate M (T div width k mod TVN_SIZE) k = Some (T div width k mod TVN_SIZE, M\<lparr>cpu_base := B'\<rparr>)"
    "wheel (insert k {2..<k}) (m_timers M) B'" "listed B' = listed (cpu_base M)" "timer_ticks B' = timer_ticks (cpu_base M)" "tb_lock B' = tb_lock (cpu_base M)"
    using cascate_ok [OF Suc.prems(1) k(2-4)] k(5) by (auto simp: T_def)
  have ins: "insert k {2..<k} = {2..<Suc k}" using Suc.prems(2) by auto
  have step: "cascate_from M [k..<6] = (if T div width k mod TVN_SIZE = 0 then cascate_from (M\<lparr>cpu_base := B'\<rparr>) [Suc k..<6] else Some (M\<lparr>cpu_base := B'\<rparr>))"
    using k(1,3) B'(1) by (simp add: upt_conv_Cons unat_index T_def)
  show ?case
  proof (cases "T div width k mod TVN_SIZE = 0")
    case True
    then have "width (Suc k) dvd T" using dvd_width_Suc [OF Suc.prems(2) k(5)] by simp
    then show ?thesis
      using Suc.hyps(1) [of "Suc k" "M\<lparr>cpu_base := B'\<rparr>"] Suc.hyps(2) Suc.prems(2) k(1) B' True by (simp add: step ins T_def)
  next
    case False
    then have "\<not> width (Suc k) dvd T" using dvd_width_Suc [OF Suc.prems(2) k(5)] by simp
    moreover have "width (Suc k) dvd width j" if "j \<in> levels" "j \<noteq> 1" "j \<notin> {2..<Suc k}" for j
      using that Suc.prems(2) by (intro width_dvd) (auto simp: levels_def)
    ultimately have "wheel levels (m_timers M) B'" using B'(2,4) dvd_trans
      by (intro wheel_done_all [of "{2..<Suc k}"]) (auto simp: ins T_def)
    then show ?thesis using B' False by (intro exI [of _ B']) (simp add: step)
  qed
qed

end
