(* ===== verification/Timer_Props.thy ===== *)
theory Timer_Props
  imports Timer_Wheel Process_Props
begin

text \<open>
  Properties of the timers: each tick fires exactly the timers that expire at it, running the timers ends unless the counter has
  its last value, sleeping tasks wake up in time, and what an alarm does to the wrong task.
\<close>

section \<open>Firing timers\<close>

definition wake_set :: "kernel \<Rightarrow> addr set \<Rightarrow> kernel" where
  "wake_set K W = K\<lparr>k_tasks := \<lambda>p. map_option (\<lambda>t. if p \<in> W \<and> (t_state t = TASK_UNINTERRUPTIBLE \<or> t_state t = TASK_STOPPED)
     then t\<lparr>t_state := TASK_RUNNING\<rparr> else t) (k_tasks K p)\<rparr>"

lemma wake_set_rest [simp]: "k_ticks (wake_set K W) = k_ticks K"
  by (simp add: wake_set_def)

lemma wake_set_empty [simp]: "wake_set K {} = K"
  by (simp add: wake_set_def map_option.id [unfolded id_def])

lemma wake_set_union: "wake_set (wake_set K V) W = wake_set K (V \<union> W)"
  by (auto simp: wake_set_def fun_eq_iff option.map_comp comp_def task_states intro!: option.map_cong kernel.fold_congs)

lemma get_task_wake_set: "get_task (wake_set K W) p = None \<longleftrightarrow> get_task K p = None"
  by (simp add: wake_set_def get_task_def)

lemma default_wake_function_set:
  assumes "get_task K p \<noteq> None"
  shows "\<exists>r. default_wake_function K p = Some (r, wake_set K {p})"
proof -
  obtain t where t: "get_task K p = Some t" using assms by blast
  then have p: "k_tasks K p = Some t" by (simp add: get_task_eq)
  have same: "wake_set K {p} = K" if "\<not> (t_state t = TASK_UNINTERRUPTIBLE \<or> t_state t = TASK_STOPPED)"
  proof -
    have "map_option (\<lambda>u. if q \<in> {p} \<and> (t_state u = TASK_UNINTERRUPTIBLE \<or> t_state u = TASK_STOPPED) then u\<lparr>t_state := TASK_RUNNING\<rparr> else u) (k_tasks K q)
        = k_tasks K q" for q using that p by (cases "k_tasks K q") auto
    then show ?thesis by (simp add: wake_set_def)
  qed
  have woken: "wake_set K {p} = K\<lparr>k_tasks := (k_tasks K)(p \<mapsto> t\<lparr>t_state := TASK_RUNNING\<rparr>)\<rparr>" if "t_state t = TASK_UNINTERRUPTIBLE \<or> t_state t = TASK_STOPPED"
  proof -
    have "map_option (\<lambda>u. if q \<in> {p} \<and> (t_state u = TASK_UNINTERRUPTIBLE \<or> t_state u = TASK_STOPPED) then u\<lparr>t_state := TASK_RUNNING\<rparr> else u) (k_tasks K q)
        = ((k_tasks K)(p \<mapsto> t\<lparr>t_state := TASK_RUNNING\<rparr>)) q" for q using that p by (cases "k_tasks K q") auto
    then show ?thesis by (simp add: wake_set_def fun_upd_def)
  qed
  show ?thesis using t same woken by (auto simp: default_wake_function_def try_to_wake_up_def upd_task_eq)
qed

text \<open>A timer of a sleeping task: its data name the entry of a task that exists.\<close>

definition sleeper :: "machine \<Rightarrow> addr \<Rightarrow> bool" where
  "sleeper M a \<longleftrightarrow> (\<exists>t sd. m_timers M a = Some t \<and> tl_function t = Sleep_timeout \<and> tl_data t \<noteq> NULL
     \<and> m_sleep_data M (tl_data t) = Some sd \<and> get_task (kern M) (sd_entry sd) \<noteq> None)"

definition expiry :: "machine \<Rightarrow> addr \<Rightarrow> nat" where
  "expiry M a = unat (tl_expires (the (m_timers M a)))"

definition sleeping_task :: "machine \<Rightarrow> addr \<Rightarrow> addr" where
  "sleeping_task M a = sd_entry (the (m_sleep_data M (tl_data (the (m_timers M a)))))"

text \<open>The state after the timers in \<open>W\<close> have fired and nothing else has happened.\<close>

definition fired :: "machine \<Rightarrow> addr set \<Rightarrow> machine \<Rightarrow> bool" where
  "fired M W M' \<longleftrightarrow> kern M' = wake_set (kern M) (sleeping_task M ` W) \<and> m_timers M' = m_timers M |` (- W)
     \<and> m_sleep_data M' = m_sleep_data M \<and> listed (cpu_base M') = listed (cpu_base M) - W \<and> tb_lock (cpu_base M') = tb_lock (cpu_base M)"

lemma fired_refl: "fired M {} M"
  by (simp add: fired_def restrict_map_def)

lemma fired_timers: "fired M W M' \<Longrightarrow> a \<notin> W \<Longrightarrow> m_timers M' a = m_timers M a"
  by (simp add: fired_def)

lemma fired_keeps:
  assumes "fired M W M'" "a \<notin> W"
  shows "sleeper M' a = sleeper M a" "expiry M' a = expiry M a" "sleeping_task M' a = sleeping_task M a"
  using fired_timers [OF assms] assms(1) by (simp_all add: sleeper_def expiry_def sleeping_task_def fired_def get_task_wake_set)

lemma fired_trans:
  assumes "fired M V M1" "fired M1 W M2" "V \<inter> W = {}"
  shows "fired M (V \<union> W) M2"
proof -
  have "sleeping_task M1 ` W = sleeping_task M ` W" using fired_keeps(3) [OF assms(1)] assms(3) by (intro image_cong) auto
  moreover have "m_timers M |` (- V) |` (- W) = m_timers M |` (- (V \<union> W))" by simp
  ultimately show ?thesis using assms(1,2) by (auto simp: fired_def wake_set_union image_Un)
qed

lemma fire_timer_ok:
  assumes s: "sleeper M a" and a: "a \<noteq> NULL" "a \<in> listed (cpu_base M)" and w: "wheel done (m_timers M) (cpu_base M)" and l: "tb_lock (cpu_base M)"
  shows "\<exists>M'. fire_timer junk M a = Some M' \<and> fired M {a} M' \<and> cpu_base M' = unlink_timer (cpu_base M) a"
proof -
  obtain t sd where t: "m_timers M a = Some t" "tl_function t = Sleep_timeout" "tl_data t \<noteq> NULL" "m_sleep_data M (tl_data t) = Some sd"
    "get_task (kern M) (sd_entry sd) \<noteq> None" using s by (auto simp: sleeper_def)
  obtain r where r: "default_wake_function (kern M) (sd_entry sd) = Some (r, wake_set (kern M) {sd_entry sd})"
    using default_wake_function_set [OF t(5)] by blast
  have lock: "(cpu_base M)\<lparr>tb_lock := True\<rparr> = cpu_base M" using l by simp
  define q where "q = (if r = 1 then remove_wait_queue (sleep_queue M) (sd_entry sd) else sleep_queue M)"
  have "fire_timer junk M a = Some (M\<lparr>kern := wake_set (kern M) {sd_entry sd}, sleep_queue := q, cpu_base := unlink_timer (cpu_base M) a,
      m_timers := (m_timers M)(a := None)\<rparr>)"
    using t(1-4) r a(1) lock by (simp add: fire_timer_def get_timer_def call_function_def sleep_timeout_def set_lock_def q_def)
  moreover have "sleeping_task M a = sd_entry sd" using t by (simp add: sleeping_task_def)
  moreover have "(m_timers M)(a := None) = m_timers M |` (- {a})" by (auto simp: restrict_map_def)
  ultimately show ?thesis using wheel_unlink(2) [OF w] by (simp add: fired_def)
qed

lemma fire_loop_ok:
  assumes "wheel done (m_timers M) (cpu_base M)" "tb_lock (cpu_base M)" "i < TVR_SIZE" "slot (cpu_base M) 1 i = as" "\<And>a. a \<in> set as \<Longrightarrow> sleeper M a"
  shows "\<exists>M'. fire_loop junk M i (first_in as) = Some M' \<and> fired M (set as) M' \<and> wheel done (m_timers M') (cpu_base M')
    \<and> timer_ticks (cpu_base M') = timer_ticks (cpu_base M)"
  using assms
proof (induction as arbitrary: M)
  case Nil
  then show ?case by (intro exI [of _ M]) (simp add: fire_loop.simps fired_refl)
next
  case (Cons a as)
  have one: "1 \<in> levels" "i < tv_size 1" using Cons.prems(3) by (simp_all add: levels_def tv_size_def)
  have ia: "in_slot (cpu_base M) 1 i a" using one Cons.prems(4) by (simp add: in_slot_def)
  then have a: "a \<noteq> NULL" "a \<in> listed (cpu_base M)" using wheelD(3) [OF Cons.prems(1) ia] by (auto simp: timer_placed_def listed_def)
  have d: "a \<notin> set as" using wheelD(2) [OF Cons.prems(1) one] Cons.prems(4) by simp
  obtain M1 where M1: "fire_timer junk M a = Some M1" "fired M {a} M1" "cpu_base M1 = unlink_timer (cpu_base M) a"
    using fire_timer_ok [OF Cons.prems(5) a Cons.prems(1,2), of junk] by auto
  have w1: "wheel done (m_timers M1) (cpu_base M1)"
    unfolding M1(3)
  proof (rule wheel_timers_cong [OF wheel_unlink(1) [OF Cons.prems(1)]])
    fix b
    assume "b \<in> listed (unlink_timer (cpu_base M) a)"
    then show "m_timers M1 b = m_timers M b" unfolding wheel_unlink(2) [OF Cons.prems(1)] by (intro fired_timers [OF M1(2)]) simp
  qed
  have "slot (cpu_base M1) 1 i = as" unfolding M1(3) using slot_unlink [OF wheelD(1) [OF Cons.prems(1)] one, of a] Cons.prems(4) by simp
  moreover have "sleeper M1 b" if "b \<in> set as" for b using fired_keeps(1) [OF M1(2), of b] Cons.prems(5) that d by auto
  ultimately obtain M' where M': "fire_loop junk M1 i (first_in as) = Some M'" "fired M1 (set as) M'" "wheel done (m_timers M') (cpu_base M')"
    "timer_ticks (cpu_base M') = timer_ticks (cpu_base M1)"
    using Cons.IH [OF w1 _ Cons.prems(3)] M1(2,3) Cons.prems(2) by (auto simp: fired_def)
  have "fire_loop junk M i a = fire_loop junk M1 i (first_in as)"
    using a(1) Cons.prems(4) M1(1) by (subst fire_loop.simps) (simp add: get_tv_def)
  moreover have "fired M (set (a # as)) M'" using fired_trans [OF M1(2) M'(2)] d by simp
  ultimately show ?case using M' M1(3) by auto
qed

text \<open>The entry of the tick in the first vector has exactly the timers that expire at it.\<close>

lemma tick_slot:
  assumes w: "wheel levels (m_timers M) (cpu_base M)"
  defines "T \<equiv> unat (timer_ticks (cpu_base M))"
  shows "set (slot (cpu_base M) 1 (T mod TVR_SIZE)) = {a \<in> listed (cpu_base M). expiry M a = T}"
proof -
  have P: "a \<noteq> NULL \<and> placed levels T k i (expiry M a)" if "in_slot (cpu_base M) k i a" for k i a
    using wheelD(3) [OF w that] by (auto simp: timer_placed_def expiry_def T_def)
  have I: "in_slot (cpu_base M) 1 (T mod TVR_SIZE) a \<longleftrightarrow> a \<in> set (slot (cpu_base M) 1 (T mod TVR_SIZE))" for a
    by (simp add: in_slot_def levels_def tv_size_def tv_defs)
  have 1: "expiry M a = T" if "in_slot (cpu_base M) 1 (T mod TVR_SIZE) a" for a
  proof -
    have "T \<le> expiry M a" "expiry M a < T + 256" "expiry M a mod 256 = T mod 256" using P [OF that] by (simp_all add: placed_def width_def tv_size_def tv_defs)
    then have "256 dvd expiry M a - T" "expiry M a - T < 256" using mod_eq_dvd_iff_nat [of T "expiry M a" 256] by auto
    then show ?thesis using \<open>T \<le> expiry M a\<close> nat_dvd_not_less [of "expiry M a - T" 256] by linarith
  qed
  have 2: "in_slot (cpu_base M) 1 (T mod TVR_SIZE) a" if "in_slot (cpu_base M) k i a" "expiry M a = T" for k i a
  proof -
    have "k \<in> levels" "k = 1" using P [OF that(1)] that by (auto simp: in_slot_def placed_def split: if_splits)
    moreover have "i = T mod TVR_SIZE" using P [OF that(1)] that(2) \<open>k = 1\<close> by (simp add: placed_def width_def tv_size_def)
    ultimately show ?thesis using that(1) by simp
  qed
  show ?thesis using 1 2 I unfolding listed_def by blast
qed

lemma wheel_next_tick:
  assumes w: "wheel levels TM B" and n: "timer_ticks B \<noteq> - 1"
    and e: "\<And>a t. a \<in> listed B \<Longrightarrow> TM a = Some t \<Longrightarrow> unat (tl_expires t) \<noteq> unat (timer_ticks B)"
  shows "wheel {} TM (B\<lparr>timer_ticks := timer_ticks B + 1\<rparr>)"
proof -
  define T where "T = unat (timer_ticks B)"
  have "T \<noteq> 4294967295" using n by (auto simp: T_def unsigned_eq_0_iff dest: arg_cong [where f = "word_of_nat :: nat \<Rightarrow> u32"])
  then have S: "unat (timer_ticks B + 1) = Suc T" using unat_Suc_u32 [of "timer_ticks B"] unat_u32_less [of "timer_ticks B"] by (simp add: T_def)
  have P: "placed {} (Suc T) k i x" if "placed levels T k i x" "k \<in> levels" "x \<noteq> T" for k i x
    using that by (cases "width k dvd T") (auto simp: placed_def ceil_div_Suc ceil_div_multiple ceil_div_other tv_defs split: if_splits)
  have "timer_placed {} TM (Suc T) k i a" if a: "in_slot B k i a" for k i a
  proof -
    obtain t where t: "a \<noteq> NULL" "TM a = Some t" "near T (unat (tl_expires t))" "placed levels T k i (unat (tl_expires t))"
      using wheelD(3) [OF w a] by (auto simp: timer_placed_def T_def)
    have x: "unat (tl_expires t) \<noteq> T" using e [OF _ t(2)] a by (auto simp: listed_def T_def)
    have "near (Suc T) (unat (tl_expires t))" using t(3) x by (simp add: near_def) linarith
    then show ?thesis using t P [OF t(4) _ x] a by (auto simp: timer_placed_def in_slot_def)
  qed
  moreover have "in_slot (B\<lparr>timer_ticks := timer_ticks B + 1\<rparr>) k i a = in_slot B k i a" for k i a by (simp add: in_slot_def)
  moreover have "sized (B\<lparr>timer_ticks := timer_ticks B + 1\<rparr>) = sized B" by (simp add: sized_def)
  ultimately show ?thesis using wheelD [OF w] S unfolding wheel_def by simp
qed

section \<open>Ticks\<close>

text \<open>A machine whose wheel is in order and has timers of sleeping tasks only.\<close>

definition sleepers :: "machine \<Rightarrow> bool" where
  "sleepers M \<longleftrightarrow> wheel {} (m_timers M) (cpu_base M) \<and> (\<forall>a \<in> listed (cpu_base M). sleeper M a)"

lemma cascade_tick:
  assumes w: "wheel {} (m_timers M) (cpu_base M)"
  shows "\<exists>B'. (if unat (timer_ticks (cpu_base M) AND TVR_MASK) = 0 then cascate_from M [2, 3, 4, 5] else Some M) = Some (M\<lparr>cpu_base := B'\<rparr>)
    \<and> wheel levels (m_timers M) B' \<and> listed B' = listed (cpu_base M) \<and> timer_ticks B' = timer_ticks (cpu_base M) \<and> tb_lock B' = tb_lock (cpu_base M)"
proof -
  define T where "T = unat (timer_ticks (cpu_base M))"
  have i: "unat (timer_ticks (cpu_base M) AND TVR_MASK) = T mod 256" by (simp add: unat_mask T_def)
  have w2: "width 2 = 256" by (simp add: width_def TIMER_TICKS_BITS_def)
  have u: "[2, 3, 4, 5] = [2..<6]" by (simp add: upt_rec)
  show ?thesis
  proof (cases "T mod 256 = 0")
    case True
    then have "width 2 dvd T" by (simp add: w2 dvd_eq_mod_eq_0)
    then show ?thesis unfolding i u if_P [OF True] using cascate_from_ok [of 2 M] w by (simp add: T_def)
  next
    case False
    have "\<not> width k dvd T" if k: "k \<in> levels" "k \<noteq> 1" for k
    proof
      assume "width k dvd T"
      moreover have "2 \<le> k" using k by (auto simp: levels_def)
      ultimately have "width 2 dvd T" using width_dvd [of 2 k] dvd_trans by blast
      then show False using False unfolding w2 by (simp add: dvd_eq_mod_eq_0)
    qed
    then have "wheel levels (m_timers M) (cpu_base M)" using wheel_done_all [OF w] by (simp add: T_def)
    then show ?thesis unfolding i if_not_P [OF False] by (intro exI [of _ "cpu_base M"]) simp
  qed
qed

lemma run_tick_ok:
  assumes s: "sleepers M" and l: "tb_lock (cpu_base M)" and n: "timer_ticks (cpu_base M) \<noteq> - 1"
  defines "T \<equiv> unat (timer_ticks (cpu_base M))"
  shows "\<exists>M'. run_tick junk M = Some M' \<and> sleepers M' \<and> fired M {a \<in> listed (cpu_base M). expiry M a = T} M'
    \<and> timer_ticks (cpu_base M') = timer_ticks (cpu_base M) + 1"
proof -
  have w: "wheel {} (m_timers M) (cpu_base M)" using s by (simp add: sleepers_def)
  obtain B' where B': "(if unat (timer_ticks (cpu_base M) AND TVR_MASK) = 0 then cascate_from M [2, 3, 4, 5] else Some M) = Some (M\<lparr>cpu_base := B'\<rparr>)"
    "wheel levels (m_timers M) B'" "listed B' = listed (cpu_base M)" "timer_ticks B' = timer_ticks (cpu_base M)" "tb_lock B' = tb_lock (cpu_base M)"
    using cascade_tick [OF w] by blast
  define M1 where "M1 = M\<lparr>cpu_base := B'\<rparr>"
  have M1: "wheel levels (m_timers M1) (cpu_base M1)" "tb_lock (cpu_base M1)" "expiry M1 = expiry M" "sleeper M1 = sleeper M" "listed (cpu_base M1) = listed (cpu_base M)"
    "timer_ticks (cpu_base M1) = timer_ticks (cpu_base M)"
    using B' l by (simp_all add: M1_def fun_eq_iff expiry_def sleeper_def)
  define F where "F = {a \<in> listed (cpu_base M). expiry M a = T}"
  have slot: "set (slot (cpu_base M1) 1 (T mod TVR_SIZE)) = F" using tick_slot [OF M1(1)] M1 by (simp add: F_def T_def)
  have "\<And>a. a \<in> set (slot (cpu_base M1) 1 (T mod TVR_SIZE)) \<Longrightarrow> sleeper M1 a" unfolding slot using s M1(4) by (simp add: F_def sleepers_def)
  then obtain M2 where M2: "fire_loop junk M1 (T mod TVR_SIZE) (first_in (slot (cpu_base M1) 1 (T mod TVR_SIZE))) = Some M2" "fired M1 F M2"
    "wheel levels (m_timers M2) (cpu_base M2)" "timer_ticks (cpu_base M2) = timer_ticks (cpu_base M1)"
    using fire_loop_ok [OF M1(1,2) _ refl] slot by (metis TVR_SIZE_def mod_less_divisor zero_less_numeral)
  define M3 where "M3 = M2\<lparr>cpu_base := (cpu_base M2)\<lparr>timer_ticks := timer_ticks (cpu_base M2) + 1\<rparr>\<rparr>"
  have i: "unat (timer_ticks (cpu_base M) AND TVR_MASK) = T mod TVR_SIZE" by (simp add: unat_mask T_def TVR_SIZE_def)
  have run: "run_tick junk M = Some M3"
    using B'(1) M2(1) unfolding run_tick_def Let_def i M1_def [symmetric] by (simp add: M3_def get_tv_def)
  have f: "fired M F M3" using M2(2) B'(3,5) by (auto simp: fired_def M3_def M1_def sleeping_task_def)
  have "wheel {} (m_timers M2) ((cpu_base M2)\<lparr>timer_ticks := timer_ticks (cpu_base M2) + 1\<rparr>)"
  proof (rule wheel_next_tick [OF M2(3)])
    show "timer_ticks (cpu_base M2) \<noteq> - 1" using n M2(4) M1(6) by simp
    fix a t
    assume a: "a \<in> listed (cpu_base M2)" "m_timers M2 a = Some t"
    then have "a \<in> listed (cpu_base M)" "a \<notin> F" using M2(2) M1(5) by (auto simp: fired_def)
    moreover have "unat (tl_expires t) = expiry M a" using a(2) fired_keeps(2) [OF M2(2) \<open>a \<notin> F\<close>] M1(3) by (simp add: expiry_def)
    ultimately show "unat (tl_expires t) \<noteq> unat (timer_ticks (cpu_base M2))" using M2(4) M1(6) by (simp add: F_def T_def)
  qed
  moreover have "sleeper M3 a" if "a \<in> listed (cpu_base M3)" for a
    using that f fired_keeps(1) [OF f, of a] s by (auto simp: fired_def sleepers_def)
  ultimately have "sleepers M3" by (simp add: sleepers_def M3_def)
  then show ?thesis using run f M2(4) M1(6) by (auto simp: F_def M3_def)
qed

lemma listed_not_past: "sleepers M \<Longrightarrow> a \<in> listed (cpu_base M) \<Longrightarrow> unat (timer_ticks (cpu_base M)) \<le> expiry M a"
  unfolding sleepers_def listed_def by (auto dest!: wheelD(3) simp: timer_placed_def placed_def expiry_def)

lemma unat_not_last: "c \<noteq> - 1 \<Longrightarrow> unat (c + 1) = unat c + 1" for c :: u32
proof -
  assume "c \<noteq> - 1"
  moreover have "(- 1 :: u32) = 4294967295" by simp
  ultimately have "unat c \<noteq> unat (4294967295 :: u32)" by (metis u32_eq_iff)
  then have "unat c \<noteq> 4294967295" by simp
  then have "unat c + 1 < 4294967296" using unat_u32_less [of c] by linarith
  then show ?thesis by (rule unat_Suc_u32)
qed

lemma run_loop_ok:
  assumes "sleepers M" "tb_lock (cpu_base M)" "c \<noteq> - 1" "unat (timer_ticks (cpu_base M)) \<le> unat c + 1"
  shows "\<exists>M'. run_loop junk M c = Some M' \<and> sleepers M' \<and> fired M {a \<in> listed (cpu_base M). expiry M a \<le> unat c} M'
    \<and> timer_ticks (cpu_base M') = c + 1"
  using assms
proof (induction "unat c + 1 - unat (timer_ticks (cpu_base M))" arbitrary: M)
  case 0
  have T: "unat (timer_ticks (cpu_base M)) = unat c + 1" using 0 by simp
  then have "timer_ticks (cpu_base M) = c + 1" using unat_not_last [OF 0(4)] by (simp add: u32_eq_iff)
  moreover have "\<not> timer_ticks (cpu_base M) \<le> c" using T by (simp add: word_le_nat_alt)
  moreover have none: "{a \<in> listed (cpu_base M). expiry M a \<le> unat c} = {}" using listed_not_past [OF 0(2)] T by force
  ultimately show ?case unfolding none using 0(2) by (intro exI [of _ M]) (simp add: run_loop.simps fired_refl)
next
  case (Suc n)
  define T where "T = unat (timer_ticks (cpu_base M))"
  have Tc: "T \<le> unat c" using Suc.hyps(2) by (simp add: T_def)
  then have le: "timer_ticks (cpu_base M) \<le> c" by (simp add: word_le_nat_alt T_def)
  have last: "timer_ticks (cpu_base M) \<noteq> - 1" using le Suc.prems(3) word_order.extremum_uniqueI [of c] by auto
  obtain M1 where M1: "run_tick junk M = Some M1" "sleepers M1" "fired M {a \<in> listed (cpu_base M). expiry M a = T} M1"
    "timer_ticks (cpu_base M1) = timer_ticks (cpu_base M) + 1"
    using run_tick_ok [OF Suc.prems(1,2) last, folded T_def] by blast
  have T1: "unat (timer_ticks (cpu_base M1)) = T + 1" using M1(4) unat_not_last [OF last] by (simp add: T_def)
  have l1: "tb_lock (cpu_base M1)" using M1(3) Suc.prems(2) by (simp add: fired_def)
  have meas: "n = unat c + 1 - unat (timer_ticks (cpu_base M1))" using Suc.hyps(2) Tc unfolding T1 T_def by linarith
  define F1 F2 where "F1 = {a \<in> listed (cpu_base M). expiry M a = T}" and "F2 = {a \<in> listed (cpu_base M1). expiry M1 a \<le> unat c}"
  obtain M' where M': "run_loop junk M1 c = Some M'" "sleepers M'" "fired M1 F2 M'" "timer_ticks (cpu_base M') = c + 1"
    using Suc.hyps(1) [OF meas M1(2) l1 Suc.prems(3)] T1 Tc unfolding F2_def by auto
  have f1: "fired M F1 M1" using M1(3) by (simp add: F1_def)
  have lst: "listed (cpu_base M1) = listed (cpu_base M) - F1" using f1 by (simp add: fired_def)
  then have disj: "F1 \<inter> F2 = {}" by (auto simp: F2_def)
  have "expiry M1 a = expiry M a" if "a \<notin> F1" for a by (rule fired_keeps(2) [OF f1 that])
  then have "F1 \<union> F2 = {a \<in> listed (cpu_base M). expiry M a \<le> unat c}" using lst Tc by (auto simp: F1_def F2_def)
  moreover have "run_loop junk M c = Some M'" using le M1(1) M'(1) by (subst run_loop.simps) simp
  ultimately show ?case using fired_trans [OF f1 M'(3) disj] M'(2,4) by auto
qed

section \<open>Running the timers\<close>

text \<open>When the loop returns it has passed the counter; past the last value there is nothing.\<close>

lemma run_loop_passes:
  assumes "run_loop junk M c = Some M'"
  shows "\<not> timer_ticks (cpu_base M') \<le> c"
proof (rule run_loop.raw_induct [where P = "\<lambda>junk M c M'. \<not> timer_ticks (cpu_base M') \<le> c", OF _ assms])
  fix f junk M c M'
  assume IH: "\<And>junk M c M'. f junk M c = Some M' \<Longrightarrow> \<not> timer_ticks (cpu_base M') \<le> c"
    and eq: "(if timer_ticks (cpu_base M) \<le> c then run_tick junk M \<bind> (\<lambda>M. f junk M c) else Some M) = Some M'"
  show "\<not> timer_ticks (cpu_base M') \<le> c"
  proof (cases "timer_ticks (cpu_base M) \<le> c")
    case True
    then obtain M1 where "f junk M1 c = Some M'" using eq by (auto split: bind_splits)
    then show ?thesis by (rule IH)
  qed (use eq in simp)
qed

lemma run_timer_softirq_ok:
  assumes s: "sleepers M" and l: "\<not> tb_lock (cpu_base M)" and c: "k_ticks (kern M) \<noteq> - 1"
    and T: "unat (timer_ticks (cpu_base M)) \<le> unat (k_ticks (kern M)) + 1"
  shows "\<exists>M'. run_timer_softirq junk M = Some M' \<and> sleepers M' \<and> \<not> tb_lock (cpu_base M')
    \<and> fired M {a \<in> listed (cpu_base M). expiry M a \<le> unat (k_ticks (kern M))} M'
    \<and> timer_ticks (cpu_base M') = k_ticks (kern M) + 1"
proof -
  define M0 where "M0 = set_lock True M"
  have M0: "expiry M0 = expiry M" "sleeper M0 = sleeper M" "sleeping_task M0 = sleeping_task M"
    by (simp_all add: M0_def set_lock_def fun_eq_iff expiry_def sleeper_def sleeping_task_def)
  have s0: "sleepers M0" using s M0(2) by (simp add: sleepers_def) (simp add: M0_def set_lock_def)
  obtain M1 where M1: "run_loop junk M0 (k_ticks (kern M)) = Some M1" "sleepers M1"
    "fired M0 {a \<in> listed (cpu_base M0). expiry M0 a \<le> unat (k_ticks (kern M))} M1" "timer_ticks (cpu_base M1) = k_ticks (kern M) + 1"
    using run_loop_ok [OF s0 _ c, of junk] T by (auto simp: M0_def set_lock_def)
  define M' where "M' = set_lock False (M1\<lparr>cpu_base := (cpu_base M1)\<lparr>running_timer := NULL\<rparr>\<rparr>)"
  have "run_timer_softirq junk M = Some M'" using l M1(1) by (simp add: run_timer_softirq_def timer_get_ticks_def M0_def M'_def)
  moreover have "sleepers M'" using M1(2) by (simp add: sleepers_def sleeper_def M'_def set_lock_def)
  moreover have "fired M {a \<in> listed (cpu_base M). expiry M a \<le> unat (k_ticks (kern M))} M'"
    using M1(3) l unfolding fired_def M0(1,3) by (simp add: M'_def M0_def set_lock_def)
  ultimately show ?thesis using M1(4) by (auto simp: M'_def set_lock_def)
qed

section \<open>Sleeping\<close>

lemma sleeper_cong:
  assumes "sleeper M b" "m_timers M' b = m_timers M b" "\<And>x. m_sleep_data M x \<noteq> None \<Longrightarrow> m_sleep_data M' x = m_sleep_data M x"
    "\<And>p. get_task (kern M) p \<noteq> None \<Longrightarrow> get_task (kern M') p \<noteq> None"
  shows "sleeper M' b" "sleeping_task M' b = sleeping_task M b" "expiry M' b = expiry M b"
proof -
  obtain t sd where t: "m_timers M b = Some t" "tl_function t = Sleep_timeout" "tl_data t \<noteq> NULL" "m_sleep_data M (tl_data t) = Some sd"
    "get_task (kern M) (sd_entry sd) \<noteq> None" using assms(1) by (auto simp: sleeper_def)
  then have "m_sleep_data M' (tl_data t) = Some sd" using assms(3) [of "tl_data t"] by simp
  then show "sleeper M' b" "sleeping_task M' b = sleeping_task M b" "expiry M' b = expiry M b"
    using t assms(2) assms(4) [OF t(5)] by (auto simp: sleeper_def sleeping_task_def expiry_def)
qed

text \<open>The state \<^verbatim>\<open>sys_nanosleep\<close> leaves, with the data at \<open>d\<close> and the timer at \<open>a\<close>.\<close>

definition nap_timer :: "machine \<Rightarrow> addr \<Rightarrow> timespec \<Rightarrow> timer_list" where
  "nap_timer M d req = \<lparr>tl_lock = False, tl_expires = k_ticks (kern M) + TICKS_PER_SECOND * ts_sec req, tl_function = Sleep_timeout,
     tl_data = d, tl_base = True\<rparr>"

definition napping :: "machine \<Rightarrow> addr \<Rightarrow> addr \<Rightarrow> addr list \<Rightarrow> task_struct \<Rightarrow> timespec \<Rightarrow> addr \<Rightarrow> machine" where
  "napping M d a as t req rem = M\<lparr>m_kmalloc := as, m_timers := (m_timers M)(a \<mapsto> nap_timer M d req),
     kern := (kern M)\<lparr>k_tasks := (k_tasks (kern M))(k_curr (kern M) \<mapsto> t\<lparr>t_state := TASK_UNINTERRUPTIBLE\<rparr>)\<rparr>,
     sleep_queue := sleep_queue M @ [k_curr (kern M)], m_sleep_data := (m_sleep_data M)(d \<mapsto> \<lparr>sd_entry = k_curr (kern M), sd_rem = rem\<rparr>),
     cpu_base := link_timer (cpu_base M) (tl_expires (nap_timer M d req)) a\<rparr>"

lemma sys_nanosleep_eq:
  assumes "get_task (kern M) (k_curr (kern M)) = Some t" "\<not> k_no_memory (kern M)" "m_kmalloc M = d # a # as" "d \<noteq> NULL" "a \<noteq> NULL"
  shows "sys_nanosleep M req rem = Some (- 1, napping M d a as t req rem)"
  using assms by (simp add: sys_nanosleep_def kmalloc_timer_def init_timer_def upd_timer_def get_timer_def sleep_on_def upd_kern_task_def upd_task_eq
    scheduler_get_current_process_def init_waitqueue_entry_def add_wait_queue_def add_timer_def add_timer_tvec_base_def timer_get_ticks_def
    timer_junk_def napping_def nap_timer_def Let_def)

text \<open>What a call relies on: a task, memory that is not in use, a duration that fits and a wheel that is up to date.\<close>

definition can_sleep :: "machine \<Rightarrow> timespec \<Rightarrow> bool" where
  "can_sleep M req \<longleftrightarrow> get_task (kern M) (k_curr (kern M)) \<noteq> None \<and> \<not> k_no_memory (kern M)
     \<and> (\<exists>d a as. m_kmalloc M = d # a # as \<and> d \<noteq> NULL \<and> a \<noteq> NULL \<and> m_sleep_data M d = None \<and> m_timers M a = None)
     \<and> 1 \<le> unat (ts_sec req) \<and> unat (k_ticks (kern M)) + 1193 * unat (ts_sec req) < 4294967296 \<and> 1193 * unat (ts_sec req) < 2147483648
     \<and> unat (k_ticks (kern M)) \<le> unat (timer_ticks (cpu_base M)) \<and> unat (timer_ticks (cpu_base M)) \<le> unat (k_ticks (kern M)) + 1"

lemma nap_expires:
  fixes n s :: u32
  assumes "unat n + 1193 * unat s < 4294967296"
  shows "unat (n + TICKS_PER_SECOND * s) = unat n + 1193 * unat s"
  using assms by (simp add: TICKS_PER_SECOND_def unat_word_ariths)

lemma sys_nanosleep_ok:
  assumes s: "sleepers M" and c: "can_sleep M req"
  shows "\<exists>a M'. sys_nanosleep M req rem = Some (- 1, M') \<and> sleepers M' \<and> a \<notin> listed (cpu_base M) \<and> listed (cpu_base M') = insert a (listed (cpu_base M))
    \<and> expiry M' a = unat (k_ticks (kern M)) + 1193 * unat (ts_sec req) \<and> sleeping_task M' a = k_curr (kern M)
    \<and> (\<forall>b \<in> listed (cpu_base M). expiry M' b = expiry M b \<and> sleeping_task M' b = sleeping_task M b)
    \<and> (\<exists>t. get_task (kern M) (k_curr (kern M)) = Some t
         \<and> kern M' = (kern M)\<lparr>k_tasks := (k_tasks (kern M))(k_curr (kern M) \<mapsto> t\<lparr>t_state := TASK_UNINTERRUPTIBLE\<rparr>)\<rparr>)
    \<and> timer_ticks (cpu_base M') = timer_ticks (cpu_base M) \<and> tb_lock (cpu_base M') = tb_lock (cpu_base M)"
proof -
  obtain t d a as where t: "get_task (kern M) (k_curr (kern M)) = Some t" "\<not> k_no_memory (kern M)" "m_kmalloc M = d # a # as" "d \<noteq> NULL" "a \<noteq> NULL"
    "m_sleep_data M d = None" "m_timers M a = None" using c unfolding can_sleep_def by blast
  define M' where "M' = napping M d a as t req rem"
  define N where "N = nap_timer M d req"
  have e: "unat (tl_expires N) = unat (k_ticks (kern M)) + 1193 * unat (ts_sec req)"
    using c nap_expires [of "k_ticks (kern M)" "ts_sec req"] by (simp add: can_sleep_def N_def nap_timer_def)
  have w: "wheel {} (m_timers M) (cpu_base M)" using s by (simp add: sleepers_def)
  have new: "a \<notin> listed (cpu_base M)" using s t(7) by (auto simp: sleepers_def sleeper_def)
  have w': "wheel {} (m_timers M') (cpu_base M)" using new by (intro wheel_timers_cong [OF w]) (auto simp: M'_def napping_def)
  have Na: "m_timers M' a = Some N" by (simp add: M'_def napping_def N_def)
  have near: "near (unat (timer_ticks (cpu_base M))) (unat (tl_expires N))" using c unfolding e near_def can_sleep_def by linarith
  obtain i k where f: "find_tvec (cpu_base M) (tl_expires N) = (i, k)" by fastforce
  note L = wheel_link [OF w' new t(5) Na near f]
  have B': "cpu_base M' = link_timer (cpu_base M) (tl_expires N) a" by (simp add: M'_def napping_def N_def)
  have old: "sleeper M' b" "sleeping_task M' b = sleeping_task M b" "expiry M' b = expiry M b" if "b \<in> listed (cpu_base M)" for b
  proof -
    have sl: "sleeper M b" "b \<noteq> a" using s that new by (auto simp: sleepers_def)
    have 1: "m_timers M' b = m_timers M b" using sl(2) by (simp add: M'_def napping_def)
    have 2: "\<And>x. m_sleep_data M x \<noteq> None \<Longrightarrow> m_sleep_data M' x = m_sleep_data M x" using t(6) by (auto simp: M'_def napping_def)
    have 3: "\<And>p. get_task (kern M) p \<noteq> None \<Longrightarrow> get_task (kern M') p \<noteq> None" by (auto simp: M'_def napping_def get_task_def)
    show "sleeper M' b" "sleeping_task M' b = sleeping_task M b" "expiry M' b = expiry M b" using sleeper_cong [OF sl(1) 1 2 3] by simp_all
  qed
  have cur: "get_task (kern M') (k_curr (kern M)) \<noteq> None" using t(1) by (auto simp: M'_def napping_def get_task_def split: if_splits)
  have na: "sleeper M' a" using Na cur t(4) by (auto simp: sleeper_def N_def nap_timer_def M'_def napping_def)
  have "sleepers M'" unfolding sleepers_def using L(1,2) B' old(1) na by auto
  moreover have "sys_nanosleep M req rem = Some (- 1, M')" unfolding M'_def by (rule sys_nanosleep_eq [OF t(1-5)])
  moreover have "expiry M' a = unat (tl_expires N)" using Na by (simp add: expiry_def)
  moreover have "sleeping_task M' a = k_curr (kern M)" by (simp add: sleeping_task_def M'_def napping_def nap_timer_def)
  moreover have "kern M' = (kern M)\<lparr>k_tasks := (k_tasks (kern M))(k_curr (kern M) \<mapsto> t\<lparr>t_state := TASK_UNINTERRUPTIBLE\<rparr>)\<rparr>"
    by (simp add: M'_def napping_def)
  ultimately show ?thesis using L(2) B' e new old(2,3) t(1) by (intro exI [of _ a] exI [of _ M']) simp
qed

text \<open>The counter moves on to \<open>c\<close>.\<close>

definition at_tick :: "machine \<Rightarrow> u32 \<Rightarrow> machine" where
  "at_tick M c = M\<lparr>kern := (kern M)\<lparr>k_ticks := c\<rparr>\<rparr>"

lemma at_tick_same:
  "cpu_base (at_tick M c) = cpu_base M" "expiry (at_tick M c) = expiry M" "sleeping_task (at_tick M c) = sleeping_task M"
  "sleepers (at_tick M c) = sleepers M" "k_ticks (kern (at_tick M c)) = c" "k_tasks (kern (at_tick M c)) = k_tasks (kern M)"
  by (simp_all add: at_tick_def expiry_def sleeping_task_def sleepers_def sleeper_def get_task_def fun_eq_iff)






section \<open>Alarms\<close>

lemma plain_SIGALRM [simp]: "plain_signal SIGALRM"
  by (simp add: plain_signal_def signal_numbers SIGALRM_def)

text \<open>The timer at \<open>a\<close> is the alarm of the task \<open>p\<close>, which is not the current one; signals can be sent.\<close>

definition alarm_of :: "machine \<Rightarrow> addr \<Rightarrow> addr \<Rightarrow> bool" where
  "alarm_of M a p \<longleftrightarrow> a \<noteq> NULL \<and> p \<noteq> k_curr (kern M) \<and> map_option t_real_timer (get_task (kern M) p) = Some a
     \<and> (\<exists>t. m_timers M a = Some t \<and> tl_function t = Alarm_timeout) \<and> get_task (kern M) (k_curr (kern M)) \<noteq> None
     \<and> (\<forall>b \<in> set (k_queue (kern M)). \<exists>t. get_task (kern M) b = Some t \<and> signal_ready t)"

lemma fire_alarm:
  assumes "alarm_of M a p"
  shows "\<exists>M'. fire_timer junk M a = Some M' \<and> m_timers M' a = None \<and> map_option t_real_timer (get_task (kern M') p) = Some a"
proof -
  obtain t where t: "a \<noteq> NULL" "m_timers M a = Some t" "tl_function t = Alarm_timeout" using assms by (auto simp: alarm_of_def)
  obtain r K where K: "sys_kill junk (kern M) (sint (tl_data t)) SIGALRM = Some (r, K)"
    using sys_kill_total [of "kern M" SIGALRM junk "sint (tl_data t)"] assms by (auto simp: alarm_of_def)
  note c = same_core_kill [OF K plain_SIGALRM]
  have cur: "k_curr K = k_curr (kern M)" using c by (simp add: same_core_def)
  obtain u v where u: "get_task (kern M) p = Some u" "t_real_timer u = a" "get_task (kern M) (k_curr (kern M)) = Some v"
    using assms by (auto simp: alarm_of_def)
  obtain u' v' where u': "get_task K p = Some u'" "core u' = core u" "get_task K (k_curr (kern M)) = Some v'"
    using same_core_task [OF c u(1)] same_core_task [OF c u(3)] by blast
  have "p \<noteq> k_curr (kern M)" using assms by (simp add: alarm_of_def)
  then show ?thesis using t K cur u(2) u'
    by (auto simp: fire_timer_def get_timer_def call_function_def alarm_timeout_def kill_def set_lock_def upd_kern_task_def
      scheduler_get_current_process_def upd_task_eq core_def get_task_eq)
qed

section \<open>A small machine\<close>

lemma dynamic_timers_install_wheel: "wheel {} TM (cpu_base (dynamic_timers_install M))" "listed (cpu_base (dynamic_timers_install M)) = {}"
proof -
  define B where "B = cpu_base (dynamic_timers_install M)"
  have g: "get_tv B k = replicate (tv_size k) []" if "k \<in> levels" for k
    using that by (auto simp: B_def dynamic_timers_install_def get_tv_def tv_size_def levels_def)
  have n: "\<not> in_slot B k i a" for k i a using g by (auto simp: in_slot_def)
  have d: "distinct (slot B k i)" if "k \<in> levels" "i < tv_size k" for k i using that g by simp
  show "wheel {} TM (cpu_base (dynamic_timers_install M))" unfolding B_def [symmetric] using n g d by (auto simp: wheel_def sized_def)
  show "listed (cpu_base (dynamic_timers_install M)) = {}" unfolding B_def [symmetric] using n by (simp add: listed_def)
qed

text \<open>Tasks 1 and 2, of which 2 runs, before the first tick.\<close>

definition demo_machine :: machine where
  "demo_machine = dynamic_timers_install \<lparr>kern = demo_kernel 2 [task0 1 TASK_RUNNING, task0 2 TASK_RUNNING],
     cpu_base = \<lparr>tb_lock = False, running_timer = NULL, timer_ticks = 9, tv1 = [], tv2 = [], tv3 = [], tv4 = [], tv5 = []\<rparr>,
     m_timers = Map.empty, sleep_queue = [], m_sleep_data = Map.empty, m_kmalloc = [64, 128]\<rparr>"

lemma demo_machine_simps:
  "sleepers demo_machine" "listed (cpu_base demo_machine) = {}" "\<not> tb_lock (cpu_base demo_machine)" "timer_ticks (cpu_base demo_machine) = 0"
  "k_ticks (kern demo_machine) = 0" "k_curr (kern demo_machine) = 2"
  using dynamic_timers_install_wheel
  by (simp_all add: demo_machine_def sleepers_def) (simp_all add: dynamic_timers_install_def demo_kernel_def)

lemma demo_machine_can_sleep: "can_sleep demo_machine \<lparr>ts_sec = 1, ts_nsec = 0\<rparr>"
  by (simp add: can_sleep_def demo_machine_simps) (simp add: demo_machine_def dynamic_timers_install_def demo_kernel_def get_task_def task0_def)

text \<open>Task 2 has gone to sleep for a second.\<close>

lemma demo_machine_sleeps:
  "\<exists>a M. sys_nanosleep demo_machine \<lparr>ts_sec = 1, ts_nsec = 0\<rparr> NULL = Some (- 1, M) \<and> sleepers M \<and> listed (cpu_base M) = {a} \<and> expiry M a = 1193
    \<and> sleeping_task M a = 2 \<and> timer_ticks (cpu_base M) = 0 \<and> \<not> tb_lock (cpu_base M)"
  using sys_nanosleep_ok [OF demo_machine_simps(1) demo_machine_can_sleep, of NULL] by (auto simp: demo_machine_simps)

text \<open>Task 2 has asked for an alarm in a second, and task 1 runs.\<close>

lemma demo_machine_alarm:
  "\<exists>M. sys_alarm demo_machine 1 = Some (0, M) \<and> alarm_of (M\<lparr>kern := (kern M)\<lparr>k_curr := 1\<rparr>\<rparr>) 64 2"
  by (simp add: demo_machine_def dynamic_timers_install_def demo_kernel_def sys_alarm_def scheduler_get_current_process_def get_task_def task0_def
    kmalloc_timer_def upd_kern_task_def upd_task_def start_timer_def init_timer_def upd_timer_def get_timer_def add_timer_def add_timer_tvec_base_def
    alarm_of_def signal_ready_def timer_get_ticks_def Let_def timer_junk_def)

section \<open>Properties\<close>

text \<open>C2. Each run of the timers fires exactly the timers that have expired: on a wheel in order with timers of sleeping tasks, with a
  counter that is not at its last value and not behind the wheel, \<^verbatim>\<open>run_timer_softirq\<close> returns, frees the timers that expire up to the
  counter and no others, makes exactly their tasks runnable, and leaves the wheel in order for the next tick, for all five vectors
  and every distance.\<close>

theorem run_timer_softirq_fires:
  assumes "sleepers M" and "\<not> tb_lock (cpu_base M)" and "k_ticks (kern M) \<noteq> - 1"
    and "unat (timer_ticks (cpu_base M)) \<le> unat (k_ticks (kern M)) + 1"
  defines "due \<equiv> {a \<in> listed (cpu_base M). expiry M a \<le> unat (k_ticks (kern M))}"
  shows "\<exists>M'. run_timer_softirq junk M = Some M' \<and> sleepers M' \<and> timer_ticks (cpu_base M') = k_ticks (kern M) + 1
    \<and> listed (cpu_base M') = listed (cpu_base M) - due \<and> m_timers M' = m_timers M |` (- due)
    \<and> kern M' = wake_set (kern M) (sleeping_task M ` due)"
  using run_timer_softirq_ok [OF assms(1-4), of junk] unfolding due_def fired_def by blast

theorem run_timer_softirq_fires_witness:
  "\<exists>M M' M''. sys_nanosleep demo_machine \<lparr>ts_sec = 1, ts_nsec = 0\<rparr> NULL = Some (- 1, M)
     \<and> run_timer_softirq empty_sigset (at_tick M 1192) = Some M' \<and> listed (cpu_base M') = listed (cpu_base M)
     \<and> run_timer_softirq empty_sigset (at_tick M 1193) = Some M'' \<and> listed (cpu_base M'') = {}"
proof -
  obtain a M where M: "sys_nanosleep demo_machine \<lparr>ts_sec = 1, ts_nsec = 0\<rparr> NULL = Some (- 1, M)" "sleepers M" "listed (cpu_base M) = {a}"
    "expiry M a = 1193" "timer_ticks (cpu_base M) = 0" "\<not> tb_lock (cpu_base M)" using demo_machine_sleeps by blast
  show ?thesis using run_timer_softirq_fires [of "at_tick M 1192" empty_sigset] run_timer_softirq_fires [of "at_tick M 1193" empty_sigset] M
    by (fastforce simp: at_tick_same)
qed

text \<open>C38. Running the timers ends exactly when the counter of ticks is not at its last value: the loop runs while the tick of the wheel
  is at most the counter, and with a counter of \<open>2 ^ 32 - 1\<close> every tick is. The wheel is in order and its timers are those of sleeping tasks.\<close>

theorem run_timer_softirq_terminates:
  assumes "sleepers M" and "\<not> tb_lock (cpu_base M)" and "unat (timer_ticks (cpu_base M)) \<le> unat (k_ticks (kern M)) + 1"
  shows "(\<exists>M'. run_timer_softirq junk M = Some M') \<longleftrightarrow> k_ticks (kern M) \<noteq> - 1"
proof
  assume "\<exists>M'. run_timer_softirq junk M = Some M'"
  then obtain M1 where M1: "run_loop junk (set_lock True M) (k_ticks (kern M)) = Some M1"
    using assms(2) by (auto simp: run_timer_softirq_def timer_get_ticks_def split: bind_splits)
  show "k_ticks (kern M) \<noteq> - 1"
  proof
    assume "k_ticks (kern M) = - 1"
    then show False using run_loop_passes [OF M1] by simp
  qed
next
  assume "k_ticks (kern M) \<noteq> - 1"
  then show "\<exists>M'. run_timer_softirq junk M = Some M'" using run_timer_softirq_ok [OF assms(1,2) _ assms(3), of junk] by blast
qed

theorem run_timer_softirq_terminates_witness:
  "(\<exists>M'. run_timer_softirq empty_sigset (at_tick demo_machine 4294967294) = Some M')
   \<and> run_timer_softirq empty_sigset (at_tick demo_machine 4294967295) = None"
  using run_timer_softirq_terminates [of "at_tick demo_machine 4294967294" empty_sigset]
    run_timer_softirq_terminates [of "at_tick demo_machine 4294967295" empty_sigset]
  by (simp add: at_tick_same demo_machine_simps)





text \<open>C40. An alarm leaves its task with a dangling pointer: when the alarm of a task that is not the current one expires, its timer is
  freed but \<^verbatim>\<open>real_timer\<close> of the task still points to it, since \<^verbatim>\<open>alarm_timeout\<close> clears the member of the current task. When the task
  runs again, every later \<^verbatim>\<open>sys_alarm\<close> follows the pointer.\<close>

theorem alarm_leaves_dangling_timer:
  assumes "alarm_of M a p"
  shows "\<exists>M'. fire_timer junk M a = Some M' \<and> m_timers M' a = None \<and> map_option t_real_timer (get_task (kern M') p) = Some a
    \<and> sys_alarm (M'\<lparr>kern := (kern M')\<lparr>k_curr := p\<rparr>\<rparr>) seconds = None"
proof -
  obtain M' where M': "fire_timer junk M a = Some M'" "m_timers M' a = None" "map_option t_real_timer (get_task (kern M') p) = Some a"
    using fire_alarm [OF assms, of junk] by blast
  then obtain t where "get_task (kern M') p = Some t" "t_real_timer t = a" by blast
  then have "sys_alarm (M'\<lparr>kern := (kern M')\<lparr>k_curr := p\<rparr>\<rparr>) seconds = None"
    using M'(2) assms by (simp add: sys_alarm_def scheduler_get_current_process_def get_task_def del_timer_def upd_timer_def get_timer_def alarm_of_def
      split: if_splits)
  then show ?thesis using M' by blast
qed

theorem alarm_leaves_dangling_timer_witness:
  "\<exists>M a M'. sys_alarm demo_machine 1 = Some (0, M) \<and> fire_timer empty_sigset (M\<lparr>kern := (kern M)\<lparr>k_curr := 1\<rparr>\<rparr>) a = Some M'
     \<and> sys_alarm (M'\<lparr>kern := (kern M')\<lparr>k_curr := 2\<rparr>\<rparr>) 1 = None"
proof -
  obtain M where M: "sys_alarm demo_machine 1 = Some (0, M)" "alarm_of (M\<lparr>kern := (kern M)\<lparr>k_curr := 1\<rparr>\<rparr>) 64 2"
    using demo_machine_alarm by blast
  show ?thesis using M(1) alarm_leaves_dangling_timer [OF M(2), of empty_sigset 1] by blast
qed

end
