(* ===== verification/Spec2Isabelle.thy ===== *)
theory Spec2Isabelle
  imports List_Head Ring_Buffer Ctype Bitops Cstring_Props Klist Hashmap Pmm Kheap_Props Signal_Props Libgen_Props Vfs_Props Procfs_Props Time Timer_Props
begin

text \<open>
  A verification of hos, a kernel for the 32-bit x86. The paths below are relative to the directory \<^verbatim>\<open>src/\<close> of the repository.

  \<^bold>\<open>The program.\<close> The kernel keeps its queues in intrusive lists (\<^verbatim>\<open>include/kernel/list_head.h\<close>), its tables in
  linked lists and hash maps (\<^verbatim>\<open>src/kernel/lib/list.c\<close>, \<^verbatim>\<open>hashmap.c\<close>) and its strings in a libc of its own
  (\<^verbatim>\<open>src/kernel/misc/string.c\<close>). Physical memory is a bitmap of frames (\<^verbatim>\<open>src/kernel/memory/pmm.c\<close>), from which the kernel
  heap (\<^verbatim>\<open>kheap.c\<close>) takes its pages. Every interrupt of the timer advances a counter (\<^verbatim>\<open>src/arch/i386/pit.c\<close>), runs the timers that
  have expired (\<^verbatim>\<open>timer.c\<close>) and calls the scheduler (\<^verbatim>\<open>src/kernel/process/scheduler.c\<close>, \<^verbatim>\<open>sched_algo.c\<close>), which delivers pending
  signals (\<^verbatim>\<open>src/kernel/system/signal.c\<close>) and picks a task; tasks are created, left and waited for in \<^verbatim>\<open>scheduler.c\<close> and \<^verbatim>\<open>task.c\<close>.
  Paths are made absolute by \<^verbatim>\<open>libgen.c\<close>; the virtual file system (\<^verbatim>\<open>src/kernel/fs/vfs.c\<close>) finds the file system of a path and keeps
  the open files of the tasks, and \<^verbatim>\<open>procfs.c\<close> is a file system in memory.

  \<^bold>\<open>Conventions.\<close> A C function is a HOL function on explicit state. A result \<open>None\<close> is an outcome after which the kernel does not go
  on: a failed assertion, a panic, a null or dangling pointer, an index out of range, a spinlock that is taken twice or a loop that
  does not end; error codes are ordinary results. Integers have their width wherever they can wrap. There is no fuel: a loop that can run for ever is a
  \<open>partial_function (option)\<close>, and the properties that a call returns are proved as such. A name that starts with underscores in the
  source is used without them. Function pointers are either a datatype of the functions that are stored (timers) or a parameter that is
  looked up by address (files). What the linker, the heap or a device decides is an argument: the addresses of tables, the next answers of
  \<^verbatim>\<open>kmalloc\<close> where a component only needs new addresses, the registers of the clock, the contents of uninitialised stack
  variables (the argument \<open>junk\<close>). Debug output has no effect in the model.

  \<^bold>\<open>The theories.\<close>

  \<^item> \<open>Prelude\<close>: machine types, partiality, and facts on words, lists and options that all theories share.
  \<^item> \<open>List_Head\<close> (\<^verbatim>\<open>list_head.h\<close>): circular lists on a heap of links. Every operation is specified against the list of
    addresses it represents, with a frame condition; the locale \<open>intrusive_queue\<close> is the contract the queues of the kernel rely on.
  \<^item> \<open>Ring_Buffer\<close> (\<^verbatim>\<open>ring_buffer.h\<close>): both buffers; the fixed one refines a bounded queue that drops its oldest items.
  \<^item> \<open>Ctype\<close>, \<open>Bitops\<close> (\<^verbatim>\<open>ctype.c\<close>, \<^verbatim>\<open>bitops.h\<close>): character classes, bit macros and the two bit searches.
  \<^item> \<open>Cstring\<close>, \<open>Cstring_Props\<close> (\<^verbatim>\<open>string.c\<close>): all routines but the two that format numbers on a byte memory, with the strings they read and write, the overlap
    of \<^verbatim>\<open>memmove\<close> and the order of \<^verbatim>\<open>strcmp\<close>.
  \<^item> \<open>Klist\<close>, \<open>Hashmap\<close> (\<^verbatim>\<open>list.c\<close>, \<^verbatim>\<open>hashmap.c\<close>): nodes on a heap; chained buckets. The locale \<open>hash_keys\<close> says what the
    table needs from its keys, and is interpreted on both kinds of keys of the source.
  \<^item> \<open>Pmm\<close> (\<^verbatim>\<open>pmm.c\<close>): the bitmap; a single frame and a run of frames are the lowest ones that are free; after the
    initialisation exactly those frames are free that lie wholly in available memory and not wholly in a region in use.
  \<^item> \<open>Kheap\<close>, \<open>Kheap_Inv\<close>, \<open>Kheap_Props\<close> (\<^verbatim>\<open>kheap.c\<close>): blocks with headers in the heap itself. The invariant describes the heap as a
    sequence of blocks; every sequence of allocations and releases keeps it as long as the top of the heap does not wrap around. The locale \<open>block_allocator\<close> is the contract of the rest of the
    kernel: what is held is large enough, disjoint and can be released.
  \<^item> \<open>Task\<close>, \<open>Sched\<close>, \<open>Signal\<close>, \<open>Process\<close> with \<open>Sched_Props\<close>, \<open>Process_Props\<close>, \<open>Signal_Props\<close>: one state, the record \<open>kernel\<close>,
    with the tasks by address, the run queue, the current task, the tick counter and the calls made to the memory manager. Round robin and its
    fairness; leaving, waiting and the two ways in which their counts and states go wrong; signal sets, the choice of the next signal, delivery,
    handlers and the return from them.
  \<^item> \<open>Libgen\<close>, \<open>Libgen_Props\<close> (\<^verbatim>\<open>libgen.c\<close>): \<^verbatim>\<open>realpath\<close> against a normal form of paths, \<^verbatim>\<open>dirname\<close> and \<^verbatim>\<open>basename\<close>.
  \<^item> \<open>Vfs\<close>, \<open>Vfs_Props\<close> (\<^verbatim>\<open>vfs.c\<close>): file systems, mounts, open files and descriptors; the file system of a path; reference counts when a task
    is duplicated and destroyed.
  \<^item> \<open>Procfs\<close>, \<open>Procfs_Props\<close> (\<^verbatim>\<open>procfs.c\<close>): files and directories; the operations are the steps of a transition relation with an invariant.
  \<^item> \<open>Time\<close> (\<^verbatim>\<open>time.c\<close>, \<^verbatim>\<open>rtc.c\<close>): the two conversions between dates and seconds are inverse for all dates of 1970 to 2105.
  \<^item> \<open>Timer\<close>, \<open>Timer_Wheel\<close>, \<open>Timer_Props\<close> (\<^verbatim>\<open>timer.c\<close>, \<^verbatim>\<open>pit.c\<close>): the timer wheel with its five vectors, sleeping, alarms and
    interval timers, on the record \<open>machine\<close>, which extends the kernel with the wheel. The wheel fires exactly the timers that have expired,
    and a run of the timers ends unless the counter has its last value.

  \<^bold>\<open>Assumptions.\<close> The processor is one, and interrupts do not preempt the code that is modelled. Properties of a component that
  takes the answers of \<^verbatim>\<open>kmalloc\<close> from a list assume that they are not in use and differ from each other; that memory handed out is not in use is proved of the heap in
  \<open>Kheap_Props\<close>, where freed memory is used again. The properties of the wheel are about wheels with timers of sleeping tasks that expire in the future. Each hypothesis is met by the concrete state
  of a witness.

  \<^bold>\<open>Not modelled.\<close>

  \<^item> Virtual memory (\<^verbatim>\<open>vmm.c\<close>, \<^verbatim>\<open>mmu.c\<close>): the calls made to it are recorded in the state of the kernel.
  \<^item> The ext2 file system and the disk driver (\<^verbatim>\<open>ext2.c\<close>, \<^verbatim>\<open>ata.c\<close>): the layout of the disk and the transfer of its blocks through ports.
  \<^item> \<^verbatim>\<open>execve\<close>, the creation of the first process and the ELF loader (\<^verbatim>\<open>task.c\<close>, \<^verbatim>\<open>elf.c\<close>), which write to the memory of new address spaces.
  \<^item> Formatted output (\<^verbatim>\<open>vsprintf.c\<close>, \<^verbatim>\<open>fcvt.c\<close>, \<^verbatim>\<open>stdio.c\<close>, \<^verbatim>\<open>itoa\<close> and \<^verbatim>\<open>to_human_size\<close> of \<^verbatim>\<open>string.c\<close>), floating point (\<^verbatim>\<open>math.c\<close>) and the files that consist of formatted
    text (\<^verbatim>\<open>procr.c\<close>, \<^verbatim>\<open>procs.c\<close>, \<^verbatim>\<open>procv.c\<close>); the entries of a task in the process file system are with them, and \<open>Vfs\<close> only takes the result of
    making and removing them.
  \<^item> Drivers and the processor (keyboard, video, serial lines, PCI, descriptor tables, interrupts, boot code): ports, memory of devices and
    privileged instructions; with them the installation of interrupt handlers of the clock and the timer.
  \<^item> Scheduling policies that no macro selects, debug dumps, and the code after the first \<^verbatim>\<open>return\<close> of \<^verbatim>\<open>__do_realloc\<close>, which is not reached.
\<close>

end
